(* ===== verification/Prelude.thy ===== *)
theory Prelude
  imports Main "HOL-Library.Word" "HOL-Library.List_Lexorder" "HOL-Library.Char_ord"
begin

text \<open>
  Shared vocabulary of the development.  The C++ standard library and the Qt containers the
  program uses are modelled here once: positions in a sequence (\<open>QList::insert\<close>,
  \<open>QList::removeAt\<close>), and the binary search \<open>std::lower_bound\<close> that every sorted container
  of the program (\<open>cpp/AbstractTable.hpp\<close>, \<open>cpp/TableSupport.hpp\<close>) is searched with.
  The collection \<open>keyed_simps\<close> holds the rewrite rules about sorted sequences,
  \<open>ok_intros\<close> the invariant-preservation rules of the components.
\<close>

named_theorems keyed_simps \<open>rewrite rules about sorted, keyed sequences\<close>
named_theorems ok_intros \<open>operations keep the invariant of their component\<close>

type_synonym uint64 = "64 word"
type_synonym uint32 = "32 word"
type_synonym uint16 = "16 word"
type_synonym byte = "8 word"

subsection \<open>Positions in a sequence\<close>

text \<open>\<open>QList::insert(i, x)\<close> and \<open>QList::removeAt(i)\<close>, for positions in range.\<close>

definition insert_at :: "nat \<Rightarrow> 'a \<Rightarrow> 'a list \<Rightarrow> 'a list" where
  "insert_at i x xs = take i xs @ x # drop i xs"

definition remove_at :: "nat \<Rightarrow> 'a list \<Rightarrow> 'a list" where
  "remove_at i xs = take i xs @ drop (Suc i) xs"

lemma length_insert_at [simp]: "length (insert_at i x xs) = Suc (length xs)"
  by (simp add: insert_at_def)

lemma length_remove_at [simp]: "i < length xs \<Longrightarrow> length (remove_at i xs) = length xs - 1"
  by (simp add: remove_at_def)

lemma length_remove_at_le: "length (remove_at i xs) \<le> length xs"
  by (simp add: remove_at_def)

lemma map_insert_at [simp]: "map f (insert_at i x xs) = insert_at i (f x) (map f xs)"
  by (simp add: insert_at_def take_map drop_map)

lemma map_remove_at [simp]: "map f (remove_at i xs) = remove_at i (map f xs)"
  by (simp add: remove_at_def take_map drop_map)

lemma zip_insert_at:
  "length xs = length ys \<Longrightarrow> zip (insert_at i x xs) (insert_at i y ys) = insert_at i (x, y) (zip xs ys)"
  by (simp add: insert_at_def take_zip drop_zip zip_append min_def)

lemma zip_remove_at:
  "length xs = length ys \<Longrightarrow> zip (remove_at i xs) (remove_at i ys) = remove_at i (zip xs ys)"
  by (simp add: remove_at_def take_zip drop_zip zip_append min_def)

lemma set_insert_at [simp]: "set (insert_at i x xs) = insert x (set xs)"
  by (metis Un_insert_right append_take_drop_id insert_at_def list.simps(15) set_append)

lemma set_remove_at_subset: "set (remove_at i xs) \<subseteq> set xs"
  by (auto simp: remove_at_def dest: in_set_takeD in_set_dropD)

lemma nth_insert_at_same [simp]: "i \<le> length xs \<Longrightarrow> insert_at i x xs ! i = x"
  by (simp add: insert_at_def nth_append)

lemma remove_insert_at [simp]: "i \<le> length xs \<Longrightarrow> remove_at i (insert_at i x xs) = xs"
  by (simp add: insert_at_def remove_at_def)

lemma in_zip_upt: "(n, x) \<in> set (zip [0..<N] xs) \<longleftrightarrow> n < N \<and> n < length xs \<and> xs ! n = x"
  by (auto simp: in_set_zip intro: exI[of _ n])

subsection \<open>std::lower_bound\<close>

text \<open>
  The loop of \<open>std::lower_bound\<close>: \<open>p i\<close> says that element \<open>i\<close> is before the searched key.
\<close>

function lb_loop :: "(nat \<Rightarrow> bool) \<Rightarrow> nat \<Rightarrow> nat \<Rightarrow> nat" where
  "lb_loop p first len =
     (if len = 0 then first
      else let half = len div 2; mid = first + half in
        if p mid then lb_loop p (Suc mid) (len - half - 1) else lb_loop p first half)"
  by pat_completeness auto
termination
  by (relation "measure (\<lambda>(p, first, len). len)") auto

declare lb_loop.simps [simp del]

text \<open>\<open>std::lower_bound(xs.begin() + start, xs.end(), k, CompareId)\<close>, as a position.\<close>

definition lower_bound_from :: "nat \<Rightarrow> ('a \<Rightarrow> 'k::linorder) \<Rightarrow> 'a list \<Rightarrow> 'k \<Rightarrow> nat" where
  "lower_bound_from start key xs k = lb_loop (\<lambda>i. key (xs ! i) < k) start (length xs - start)"

definition lower_bound :: "('a \<Rightarrow> 'k::linorder) \<Rightarrow> 'a list \<Rightarrow> 'k \<Rightarrow> nat" where
  "lower_bound key xs k = lower_bound_from 0 key xs k"

lemma lb_loop_bounds: "first \<le> lb_loop p first len \<and> lb_loop p first len \<le> first + len"
proof (induction p first len rule: lb_loop.induct)
  case (1 p first len)
  show ?case
  proof (cases "len = 0")
    case True
    then show ?thesis by (simp add: lb_loop.simps)
  next
    case False
    with 1(1)[OF False refl refl] 1(2)[OF False refl refl] show ?thesis
      by (subst (1 2) lb_loop.simps) (auto simp: Let_def)
  qed
qed

lemma lb_loop_partition:
  assumes "\<And>i j. first \<le> i \<Longrightarrow> i \<le> j \<Longrightarrow> j < first + len \<Longrightarrow> p j \<Longrightarrow> p i"
  shows "(\<forall>i. first \<le> i \<longrightarrow> i < lb_loop p first len \<longrightarrow> p i) \<and>
         (\<forall>i. lb_loop p first len \<le> i \<longrightarrow> i < first + len \<longrightarrow> \<not> p i)"
  using assms
proof (induction p first len rule: lb_loop.induct)
  case (1 p first len)
  show ?case
  proof (cases "len = 0")
    case True
    then show ?thesis by (simp add: lb_loop.simps)
  next
    case False
    define mid where "mid = first + len div 2"
    have mid: "first \<le> mid" "mid < first + len" using False by (auto simp: mid_def)
    show ?thesis
    proof (cases "p mid")
      case True
      have eq: "lb_loop p first len = lb_loop p (Suc mid) (len - len div 2 - 1)"
        using False True by (subst lb_loop.simps) (simp add: mid_def Let_def)
      have end_eq: "Suc mid + (len - len div 2 - 1) = first + len"
        using False by (simp add: mid_def)
      have IH: "(\<forall>i. Suc mid \<le> i \<longrightarrow> i < lb_loop p (Suc mid) (len - len div 2 - 1) \<longrightarrow> p i) \<and>
         (\<forall>i. lb_loop p (Suc mid) (len - len div 2 - 1) \<le> i \<longrightarrow>
              i < Suc mid + (len - len div 2 - 1) \<longrightarrow> \<not> p i)"
      proof (rule 1(1)[OF False refl mid_def True])
        fix i j assume "Suc mid \<le> i" "i \<le> j" "j < Suc mid + (len - len div 2 - 1)" "p j"
        then show "p i" using 1(3)[of i j] mid end_eq by simp
      qed
      moreover have "p i" if "first \<le> i" "i \<le> mid" for i
        using that 1(3)[of i mid] mid True by simp
      ultimately show ?thesis unfolding eq end_eq by (meson not_less_eq_eq)
    next
      case no: False
      have eq: "lb_loop p first len = lb_loop p first (len div 2)"
        using False no by (subst lb_loop.simps) (simp add: mid_def Let_def)
      have IH: "(\<forall>i. first \<le> i \<longrightarrow> i < lb_loop p first (len div 2) \<longrightarrow> p i) \<and>
         (\<forall>i. lb_loop p first (len div 2) \<le> i \<longrightarrow> i < first + len div 2 \<longrightarrow> \<not> p i)"
      proof (rule 1(2)[OF False refl mid_def no])
        fix i j assume "first \<le> i" "i \<le> j" "j < first + len div 2" "p j"
        then show "p i" using 1(3)[of i j] by simp
      qed
      moreover have "\<not> p i" if "mid \<le> i" "i < first + len" for i
        using that 1(3)[of mid i] mid no by auto
      ultimately show ?thesis unfolding eq
        by (metis mid_def not_less)
    qed
  qed
qed

subsection \<open>Words read as natural numbers\<close>

unbundle bit_operations_syntax

lemma unat_or_word: "unat (a OR b) = unat a OR unat b"
  by (rule bit_eqI) (auto simp: bit_simps)

lemma unat_and_word: "unat (a AND b) = unat a AND unat b"
  by (rule bit_eqI) (auto simp: bit_simps)

lemma unat_push_bit_word:
  fixes w :: "'a::len word"
  shows "unat (push_bit n w) = take_bit LENGTH('a) (push_bit n (unat w))"
  by (rule bit_eqI) (auto simp: bit_simps)

lemma unat_and_mask: "unat (a AND mask n) = unat a mod 2 ^ n"
  by (rule bit_eqI) (auto simp: bit_simps dest: bit_imp_le_length simp flip: take_bit_eq_mod)

lemma word_eq_of_natI: "unat w = k \<Longrightarrow> w = of_nat k"
  by auto

subsection \<open>Results\<close>

text \<open>A step that may fail: \<open>Inl\<close> the fault, \<open>Inr\<close> the result.\<close>

fun and_then :: "'e + 'a \<Rightarrow> ('a \<Rightarrow> 'e + 'b) \<Rightarrow> 'e + 'b" where
  "and_then (Inl e) f = Inl e"
| "and_then (Inr x) f = f x"

lemma and_then_Inr: "and_then m f = Inr y \<longleftrightarrow> (\<exists>x. m = Inr x \<and> f x = Inr y)"
  by (cases m) simp_all

end
