(* ===== verification/KeyedLists.thy ===== *)
theory KeyedLists
  imports Prelude
begin

text \<open>
  A sequence kept strictly sorted by a key, with a second sequence parallel to it: the shape of
  \<open>rowList\<close>/\<open>rowStates\<close>, of the backups and of a model's ids and virtual fields.  Every client
  searches with \<open>lower_bound\<close>, tests the element it finds, and overwrites, inserts or erases
  at that position.  This theory proves once what these do to the map the two sequences stand for.
\<close>

definition keys_sorted :: "('a \<Rightarrow> 'k::linorder) \<Rightarrow> 'a list \<Rightarrow> bool" where
  "keys_sorted key xs = sorted_wrt (<) (map key xs)"

text \<open>The test after every search: \<open>pos != end() && pos->getId() == id\<close>.\<close>

definition found_at :: "('a \<Rightarrow> 'k) \<Rightarrow> 'a list \<Rightarrow> 'k \<Rightarrow> nat \<Rightarrow> bool" where
  "found_at key xs k i \<longleftrightarrow> i < length xs \<and> key (xs ! i) = k"

text \<open>The partial map two parallel sequences stand for.\<close>

definition kmap :: "('a \<Rightarrow> 'k) \<Rightarrow> 'a list \<Rightarrow> 'b list \<Rightarrow> 'k \<rightharpoonup> 'a \<times> 'b" where
  "kmap key xs ys = map_of (zip (map key xs) (zip xs ys))"

lemma keys_sorted_Nil [simp]: "keys_sorted key []"
  by (simp add: keys_sorted_def)

lemma keys_sorted_single [simp]: "keys_sorted key [x]"
  by (simp add: keys_sorted_def)

lemma keys_sorted_Cons:
  "keys_sorted key (x # xs) \<longleftrightarrow> (\<forall>y \<in> set xs. key x < key y) \<and> keys_sorted key xs"
  by (auto simp: keys_sorted_def)

lemma keys_sorted_append:
  "keys_sorted key (xs @ ys) \<longleftrightarrow> keys_sorted key xs \<and> keys_sorted key ys \<and>
     (\<forall>x \<in> set xs. \<forall>y \<in> set ys. key x < key y)"
  by (auto simp: keys_sorted_def sorted_wrt_append)

lemma keys_sorted_nth_less:
  "keys_sorted key xs \<Longrightarrow> i < j \<Longrightarrow> j < length xs \<Longrightarrow> key (xs ! i) < key (xs ! j)"
  by (simp add: keys_sorted_def sorted_wrt_iff_nth_less)

lemma keys_sorted_distinct: "keys_sorted key xs \<Longrightarrow> distinct (map key xs)"
  by (simp add: keys_sorted_def strict_sorted_iff)

lemma keys_sorted_inj:
  "keys_sorted key xs \<Longrightarrow> i < length xs \<Longrightarrow> j < length xs \<Longrightarrow> key (xs ! i) = key (xs ! j) \<Longrightarrow> i = j"
  by (metis keys_sorted_nth_less less_irrefl linorder_neqE_nat)

subsection \<open>The search\<close>

lemma lower_bound_from_spec:
  assumes "keys_sorted key xs" "start \<le> length xs"
  shows "start \<le> lower_bound_from start key xs k" (is "?A")
    and "lower_bound_from start key xs k \<le> length xs" (is "?B")
    and "\<And>j. start \<le> j \<Longrightarrow> j < lower_bound_from start key xs k \<Longrightarrow> key (xs ! j) < k"
    and "\<And>j. lower_bound_from start key xs k \<le> j \<Longrightarrow> j < length xs \<Longrightarrow> k \<le> key (xs ! j)"
proof -
  let ?p = "\<lambda>i. key (xs ! i) < k"
  have mono: "?p i" if "start \<le> i" "i \<le> j" "j < start + (length xs - start)" "?p j" for i j
  proof (cases "i = j")
    case False
    with that assms have "key (xs ! i) < key (xs ! j)" by (intro keys_sorted_nth_less) auto
    with that show ?thesis by simp
  qed (use that in simp)
  have part: "(\<forall>i. start \<le> i \<longrightarrow> i < lb_loop ?p start (length xs - start) \<longrightarrow> ?p i) \<and>
      (\<forall>i. lb_loop ?p start (length xs - start) \<le> i \<longrightarrow> i < start + (length xs - start) \<longrightarrow> \<not> ?p i)"
    by (rule lb_loop_partition) (rule mono)
  show ?A ?B
    using lb_loop_bounds[of start ?p "length xs - start"] assms(2)
    by (auto simp: lower_bound_from_def)
  show "start \<le> j \<Longrightarrow> j < lower_bound_from start key xs k \<Longrightarrow> key (xs ! j) < k" for j
    using part by (simp add: lower_bound_from_def)
  show "lower_bound_from start key xs k \<le> j \<Longrightarrow> j < length xs \<Longrightarrow> k \<le> key (xs ! j)" for j
    using part by (simp add: lower_bound_from_def not_less)
qed

lemma lower_bound_le [simp]: "lower_bound key xs k \<le> length xs"
  using lb_loop_bounds[of 0 "\<lambda>i. key (xs ! i) < k" "length xs"]
  by (simp add: lower_bound_def lower_bound_from_def)

lemma lower_bound_before:
  "keys_sorted key xs \<Longrightarrow> x \<in> set (take (lower_bound key xs k) xs) \<Longrightarrow> key x < k"
  using lower_bound_from_spec(3)[of key xs 0 _ k]
  by (fastforce simp: lower_bound_def in_set_conv_nth)

lemma lower_bound_after:
  assumes "keys_sorted key xs" "x \<in> set (drop (lower_bound key xs k) xs)"
  shows "k \<le> key x"
proof -
  from assms(2) obtain j where "j < length xs - lower_bound key xs k"
    "x = xs ! (lower_bound key xs k + j)" by (auto simp: in_set_conv_nth)
  then show ?thesis
    using lower_bound_from_spec(4)[OF assms(1), of 0 k "lower_bound key xs k + j"]
    by (simp add: lower_bound_def)
qed

lemma lower_bound_eq_takeWhile:
  assumes "keys_sorted key xs"
  shows "lower_bound key xs k = length (takeWhile (\<lambda>x. key x < k) xs)"
proof -
  let ?n = "lower_bound key xs k"
  have "takeWhile (\<lambda>x. key x < k) (take ?n xs @ drop ?n xs) = take ?n xs"
  proof (subst takeWhile_append2)
    show "\<And>x. x \<in> set (take ?n xs) \<Longrightarrow> key x < k"
      using assms by (rule lower_bound_before)
    have "takeWhile (\<lambda>x. key x < k) (drop ?n xs) = []"
      using lower_bound_after[OF assms, of _ k]
      by (cases "drop ?n xs") (auto simp: not_less[symmetric])
    then show "take ?n xs @ takeWhile (\<lambda>x. key x < k) (drop ?n xs) = take ?n xs" by simp
  qed
  then show ?thesis by simp
qed

lemma found_iff_mem:
  assumes "keys_sorted key xs"
  shows "found_at key xs k (lower_bound key xs k) \<longleftrightarrow> k \<in> key ` set xs"
proof
  assume "k \<in> key ` set xs"
  then obtain j where j: "j < length xs" "key (xs ! j) = k" by (auto simp: in_set_conv_nth)
  let ?n = "lower_bound key xs k"
  have "\<not> j < ?n"
    using lower_bound_from_spec(3)[OF assms, of 0 j k] j by (auto simp: lower_bound_def)
  then have n: "?n \<le> j" by simp
  then have "k \<le> key (xs ! ?n)"
    using lower_bound_from_spec(4)[OF assms, of 0 k ?n] j by (simp add: lower_bound_def)
  moreover have "key (xs ! ?n) \<le> k"
    using n j keys_sorted_nth_less[OF assms, of ?n j] by (cases "?n = j") auto
  ultimately show "found_at key xs k ?n" using n j by (simp add: found_at_def)
qed (metis found_at_def imageI nth_mem)

lemma lower_bound_nth:
  assumes "keys_sorted key xs" "i < length xs"
  shows "lower_bound key xs (key (xs ! i)) = i"
proof -
  have "found_at key xs (key (xs ! i)) (lower_bound key xs (key (xs ! i)))"
    using assms by (simp add: found_iff_mem)
  then show ?thesis using assms by (auto simp: found_at_def intro: keys_sorted_inj)
qed

lemma found_at_unique:
  "keys_sorted key xs \<Longrightarrow> found_at key xs k i \<Longrightarrow> lower_bound key xs k = i"
  by (auto simp: found_at_def lower_bound_nth)

subsection \<open>The map of two parallel sequences\<close>

lemma kmap_Nil [simp]: "kmap key [] ys = Map.empty"
  by (simp add: kmap_def)

lemma dom_kmap:
  "length xs = length ys \<Longrightarrow> dom (kmap key xs ys) = key ` set xs"
  by (simp add: kmap_def dom_map_of_zip)

lemma kmap_nth:
  assumes "keys_sorted key xs" "length xs = length ys" "i < length xs"
  shows "kmap key xs ys (key (xs ! i)) = Some (xs ! i, ys ! i)"
  using assms map_of_zip_nth[of "map key xs" "zip xs ys" i] keys_sorted_distinct[OF assms(1)]
  by (simp add: kmap_def)

lemma kmap_eq_SomeD:
  assumes "length xs = length ys" "kmap key xs ys k = Some (x, y)"
  obtains i where "i < length xs" "xs ! i = x" "ys ! i = y" "key x = k"
proof -
  from assms have "(k, (x, y)) \<in> set (zip (map key xs) (zip xs ys))"
    by (simp add: kmap_def map_of_SomeD)
  then show thesis using that by (auto simp: in_set_zip)
qed

lemma kmap_lower_bound:
  assumes "keys_sorted key xs" "length xs = length ys"
  shows "kmap key xs ys k =
    (let i = lower_bound key xs k in if found_at key xs k i then Some (xs ! i, ys ! i) else None)"
proof (cases "found_at key xs k (lower_bound key xs k)")
  case True
  then have i: "lower_bound key xs k < length xs" and k: "key (xs ! lower_bound key xs k) = k"
    by (simp_all add: found_at_def)
  show ?thesis using kmap_nth[OF assms i] True unfolding k by (simp add: Let_def)
next
  case False
  then have "k \<notin> dom (kmap key xs ys)" using assms by (simp add: found_iff_mem dom_kmap)
  with False show ?thesis by (auto simp: Let_def)
qed

lemma map_of_insert_at:
  assumes "k \<notin> fst ` set zs"
  shows "map_of (insert_at i (k, v) zs) = (map_of zs)(k \<mapsto> v)"
proof -
  have "map_of (take i zs) k = None"
    using assms in_set_takeD[of _ i zs] by (force simp: map_of_eq_None_iff)
  then have "map_of (take i zs @ (k, v) # drop i zs) = (map_of (take i zs @ drop i zs))(k \<mapsto> v)"
    by (auto simp: map_add_def split: option.splits simp del: append_take_drop_id)
  then show ?thesis by (simp add: insert_at_def)
qed

lemma split_at_nth: "i < length zs \<Longrightarrow> zs = take i zs @ zs ! i # drop (Suc i) zs"
  by (rule id_take_nth_drop)

lemma map_of_remove_at:
  assumes "distinct (map fst zs)" "i < length zs"
  shows "map_of (remove_at i zs) = (map_of zs)(fst (zs ! i) := None)"
proof -
  obtain k v where kv: "zs ! i = (k, v)" by (cases "zs ! i")
  define as bs where as_bs_def: "as = take i zs" "bs = drop (Suc i) zs"
  have zs: "zs = as @ (k, v) # bs" using split_at_nth[OF assms(2)] by (simp add: as_bs_def kv)
  have "k \<notin> fst ` set as" "k \<notin> fst ` set bs" using assms(1) unfolding zs by auto
  then have "map_of as k = None" "map_of bs k = None" by (simp_all add: map_of_eq_None_iff)
  then have "map_of (as @ bs) = (map_of (as @ (k, v) # bs))(k := None)"
    by (auto simp: map_add_def split: option.splits)
  then show ?thesis by (simp add: remove_at_def as_bs_def[symmetric] zs[symmetric] kv)
qed

lemma map_of_list_update:
  assumes "distinct (map fst zs)" "i < length zs" "fst (zs ! i) = k"
  shows "map_of (zs[i := (k, v)]) = (map_of zs)(k \<mapsto> v)"
proof -
  define as bs where as_bs_def: "as = take i zs" "bs = drop (Suc i) zs"
  have zs: "zs = as @ (k, snd (zs ! i)) # bs"
    using split_at_nth[OF assms(2)] assms(3) unfolding as_bs_def by (metis prod.collapse)
  have upd: "zs[i := (k, v)] = as @ (k, v) # bs"
    using assms(2) by (simp add: as_bs_def upd_conv_take_nth_drop)
  have "k \<notin> fst ` set as" using assms(1) by (subst (asm) zs) auto
  then have "map_of as k = None" by (simp add: map_of_eq_None_iff)
  then show ?thesis unfolding upd by (subst zs) (auto simp: map_add_def split: option.splits)
qed

lemma map_fst_kzip: "length xs = length ys \<Longrightarrow> map fst (zip (map key xs) (zip xs ys)) = map key xs"
  by simp

lemma kmap_update:
  assumes "keys_sorted key xs" "length xs = length ys" "i < length xs" "key x = key (xs ! i)"
  shows "kmap key (xs[i := x]) (ys[i := y]) = (kmap key xs ys)(key x \<mapsto> (x, y))"
proof -
  have "zip (map key (xs[i := x])) (zip (xs[i := x]) (ys[i := y])) =
      (zip (map key xs) (zip xs ys))[i := (key x, (x, y))]"
    by (simp add: map_update zip_update)
  then show ?thesis unfolding kmap_def
    using assms keys_sorted_distinct[OF assms(1)] by (simp add: map_of_list_update)
qed

lemma kmap_insert_at:
  assumes "length xs = length ys" "key x \<notin> key ` set xs"
  shows "kmap key (insert_at i x xs) (insert_at i y ys) = (kmap key xs ys)(key x \<mapsto> (x, y))"
proof -
  have "fst ` set (zip (map key xs) (zip xs ys)) = key ` set xs"
    using assms(1) by (metis list.set_map map_fst_kzip)
  then show ?thesis
    using assms by (simp add: kmap_def zip_insert_at map_of_insert_at)
qed

lemma kmap_remove_at:
  assumes "keys_sorted key xs" "length xs = length ys" "i < length xs"
  shows "kmap key (remove_at i xs) (remove_at i ys) = (kmap key xs ys)(key (xs ! i) := None)"
  using assms keys_sorted_distinct[OF assms(1)]
  by (simp add: kmap_def zip_remove_at map_of_remove_at)

lemma kmap_append:
  assumes "length xs = length ys" "key ` set xs \<inter> key ` set xs' = {}" "length xs' = length ys'"
  shows "kmap key (xs @ xs') (ys @ ys') = kmap key xs ys ++ kmap key xs' ys'"
proof -
  have "dom (kmap key xs ys) \<inter> dom (kmap key xs' ys') = {}" using assms by (simp add: dom_kmap)
  then show ?thesis
    using assms by (simp add: kmap_def zip_append map_add_comm[of "map_of (zip (map key xs) (zip xs ys))"])
qed

subsection \<open>Sortedness is kept\<close>

lemma keys_sorted_update:
  "keys_sorted key xs \<Longrightarrow> i < length xs \<Longrightarrow> key x = key (xs ! i) \<Longrightarrow> keys_sorted key (xs[i := x])"
  by (metis keys_sorted_def list_update_id map_update nth_map)

lemma keys_sorted_remove_at: "keys_sorted key xs \<Longrightarrow> keys_sorted key (remove_at i xs)"
proof -
  assume "keys_sorted key xs"
  then have sorted: "keys_sorted key (take i xs @ drop i xs)" by simp
  have "drop (Suc i) xs = tl (drop i xs)" by (simp add: drop_Suc tl_drop)
  with sorted show ?thesis
    by (cases "drop i xs")
      (simp_all add: remove_at_def keys_sorted_append keys_sorted_Cons del: append_take_drop_id)
qed

lemma keys_sorted_insert_at:
  assumes "keys_sorted key xs" "key x \<notin> key ` set xs"
  shows "keys_sorted key (insert_at (lower_bound key xs (key x)) x xs)"
proof -
  let ?n = "lower_bound key xs (key x)"
  have "keys_sorted key (take ?n xs @ drop ?n xs)" using assms by simp
  moreover have "key x < key y" if "y \<in> set (drop ?n xs)" for y
    using lower_bound_after[OF assms(1) that] assms(2) in_set_dropD[OF that] by force
  ultimately show ?thesis
    using lower_bound_before[OF assms(1)]
    by (auto simp: insert_at_def keys_sorted_append keys_sorted_Cons simp del: append_take_drop_id)
qed

end
