(* ===== verification/QtData.thy ===== *)
theory QtData
  imports Prelude
begin

text \<open>
  The values the program exchanges with QML and with the server: JSON documents
  (\<open>QJsonValue\<close>), variants (\<open>QVariant\<close>) and variant maps (\<open>QVariantMap\<close>, kept in key
  order).  Qt itself is not part of the repository.  Conversions between different variant
  types are therefore parameters (record \<open>qt\<close>); a variant that already holds the requested
  type gives the held value, as the documentation of \<open>QVariant::value\<close> says.
\<close>

subsection \<open>JSON\<close>

datatype json =
    JUndefined
  | JNull
  | JBool bool
  | JNum int
  | JStr string
  | JArr "json list"
  | JObj "(string \<times> json) list"

definition isObject :: "json \<Rightarrow> bool" where
  "isObject j = (case j of JObj _ \<Rightarrow> True | _ \<Rightarrow> False)"

definition isArray :: "json \<Rightarrow> bool" where
  "isArray j = (case j of JArr _ \<Rightarrow> True | _ \<Rightarrow> False)"

definition isString :: "json \<Rightarrow> bool" where
  "isString j = (case j of JStr _ \<Rightarrow> True | _ \<Rightarrow> False)"

definition toBool :: "json \<Rightarrow> bool" where
  "toBool j = (case j of JBool b \<Rightarrow> b | _ \<Rightarrow> False)"

definition toString :: "json \<Rightarrow> string" where
  "toString j = (case j of JStr s \<Rightarrow> s | _ \<Rightarrow> [])"

definition toArray :: "json \<Rightarrow> json list" where
  "toArray j = (case j of JArr xs \<Rightarrow> xs | _ \<Rightarrow> [])"

definition toObject :: "json \<Rightarrow> (string \<times> json) list" where
  "toObject j = (case j of JObj kvs \<Rightarrow> kvs | _ \<Rightarrow> [])"

text \<open>\<open>QJsonObject::operator[]\<close> and \<open>contains\<close>.\<close>

definition jmember :: "(string \<times> json) list \<Rightarrow> string \<Rightarrow> json" where
  "jmember obj k = (case map_of obj k of Some j \<Rightarrow> j | None \<Rightarrow> JUndefined)"

definition jcontains :: "(string \<times> json) list \<Rightarrow> string \<Rightarrow> bool" where
  "jcontains obj k \<longleftrightarrow> map_of obj k \<noteq> None"

text \<open>\<open>object[key] = v\<close>.\<close>

fun jinsert :: "string \<Rightarrow> json \<Rightarrow> (string \<times> json) list \<Rightarrow> (string \<times> json) list" where
  "jinsert k v [] = [(k, v)]"
| "jinsert k v ((k', v') # obj) = (if k' = k then (k, v) # obj else (k', v') # jinsert k v obj)"

lemma map_of_jinsert [simp]: "map_of (jinsert k v obj) = (map_of obj)(k \<mapsto> v)"
  by (induction k v obj rule: jinsert.induct) (auto simp: fun_upd_twist)

subsection \<open>Enumerations\<close>

text \<open>\<open>Pollaris::LoadState\<close> and \<open>Pollaris::TransactionStatus\<close> of \<open>cpp/Enums.hpp\<close>.\<close>

datatype LoadState =
    Loaded
  | Loading
  | Stale
  | DraftEdit
  | DraftAdd
  | DraftDelete
  | PendingEdit
  | PendingAdd
  | PendingDelete

fun load_state_number :: "LoadState \<Rightarrow> int" where
  "load_state_number Loaded = 0"
| "load_state_number Loading = 1"
| "load_state_number Stale = 2"
| "load_state_number DraftEdit = 3"
| "load_state_number DraftAdd = 4"
| "load_state_number DraftDelete = 5"
| "load_state_number PendingEdit = 6"
| "load_state_number PendingAdd = 7"
| "load_state_number PendingDelete = 8"

datatype TransactionStatus =
    Draft
  | Authorizing
  | Pending
  | Confirmed
  | Irreversible
  | Failed
  | Unknown

subsection \<open>Variants\<close>

datatype qvariant =
    QInvalid
  | QNull
  | QBool bool
  | QInt int
  | QLoadState LoadState
  | QLong int
  | QULong uint64
  | QUInt uint32
  | QStr string
  | QStrList "string list"
  | QList "qvariant list"
  | QMap "(string \<times> qvariant) list"

type_synonym qvariant_map = "(string \<times> qvariant) list"

text \<open>\<open>QJsonValue::toVariant\<close>.\<close>

fun json_variant :: "json \<Rightarrow> qvariant" where
  "json_variant JUndefined = QInvalid"
| "json_variant JNull = QNull"
| "json_variant (JBool b) = QBool b"
| "json_variant (JNum n) = QLong n"
| "json_variant (JStr s) = QStr s"
| "json_variant (JArr xs) = QList (map json_variant xs)"
| "json_variant (JObj kvs) = QMap (map (\<lambda>(k, j). (k, json_variant j)) kvs)"

text \<open>The conversions Qt performs when the held type is another one.\<close>

record qt =
  cvULong :: "qvariant \<Rightarrow> uint64"
  cvUInt :: "qvariant \<Rightarrow> uint32"
  cvStr :: "qvariant \<Rightarrow> string"
  cvStrList :: "qvariant \<Rightarrow> string list"
  cvEq :: "qvariant \<Rightarrow> qvariant \<Rightarrow> bool"
  cvJson :: "qvariant \<Rightarrow> json"

definition as_ulong :: "qt \<Rightarrow> qvariant \<Rightarrow> uint64" where
  "as_ulong Q v = (case v of QULong n \<Rightarrow> n | _ \<Rightarrow> cvULong Q v)"

definition as_uint :: "qt \<Rightarrow> qvariant \<Rightarrow> uint32" where
  "as_uint Q v = (case v of QUInt n \<Rightarrow> n | _ \<Rightarrow> cvUInt Q v)"

definition as_string :: "qt \<Rightarrow> qvariant \<Rightarrow> string" where
  "as_string Q v = (case v of QStr s \<Rightarrow> s | _ \<Rightarrow> cvStr Q v)"

definition as_string_list :: "qt \<Rightarrow> qvariant \<Rightarrow> string list" where
  "as_string_list Q v = (case v of QStrList s \<Rightarrow> s | _ \<Rightarrow> cvStrList Q v)"

lemma as_held [simp]:
  "as_ulong Q (QULong n) = n" "as_uint Q (QUInt m) = m"
  "as_string Q (QStr s) = s" "as_string_list Q (QStrList ss) = ss"
  by (simp_all add: as_ulong_def as_uint_def as_string_def as_string_list_def)

text \<open>\<open>QVariant::operator==\<close>: two variants of one type compare their values, others convert.\<close>

definition vtype :: "qvariant \<Rightarrow> nat" where
  "vtype v = (case v of QInvalid \<Rightarrow> 0 | QNull \<Rightarrow> 1 | QBool _ \<Rightarrow> 2 | QLong _ \<Rightarrow> 3 | QULong _ \<Rightarrow> 4
     | QUInt _ \<Rightarrow> 5 | QStr _ \<Rightarrow> 6 | QStrList _ \<Rightarrow> 7 | QList _ \<Rightarrow> 8 | QMap _ \<Rightarrow> 9 | QInt _ \<Rightarrow> 10
     | QLoadState _ \<Rightarrow> 11)"

definition variant_eq :: "qt \<Rightarrow> qvariant \<Rightarrow> qvariant \<Rightarrow> bool" where
  "variant_eq Q a b = (if vtype a = vtype b then a = b else cvEq Q a b)"

lemma variant_eq_refl [simp]: "variant_eq Q v v"
  by (simp add: variant_eq_def)

subsection \<open>Variant maps\<close>

text \<open>\<open>QMap\<close> iterates in key order; the list of pairs is kept in that order.\<close>

definition qm_find :: "qvariant_map \<Rightarrow> string \<Rightarrow> qvariant option" where
  "qm_find m k = map_of m k"

text \<open>\<open>map[key]\<close> read from a copy: the default value if the key is missing.\<close>

definition qm_get :: "qvariant_map \<Rightarrow> string \<Rightarrow> qvariant" where
  "qm_get m k = (case map_of m k of Some v \<Rightarrow> v | None \<Rightarrow> QInvalid)"

fun qm_insert :: "string \<Rightarrow> qvariant \<Rightarrow> qvariant_map \<Rightarrow> qvariant_map" where
  "qm_insert k v [] = [(k, v)]"
| "qm_insert k v ((k', v') # m) =
     (if k < k' then (k, v) # (k', v') # m
      else if k = k' then (k, v) # m
      else (k', v') # qm_insert k v m)"

definition qm_remove :: "string \<Rightarrow> qvariant_map \<Rightarrow> qvariant_map" where
  "qm_remove k m = filter (\<lambda>(k', _). k' \<noteq> k) m"

lemma map_of_qm_insert [simp]: "map_of (qm_insert k v m) = (map_of m)(k \<mapsto> v)"
proof (induction k v m rule: qm_insert.induct)
  case (2 k v k' v' m)
  then show ?case by (auto simp: fun_upd_twist)
qed simp

lemma map_of_qm_remove [simp]: "map_of (qm_remove k m) = (map_of m)(k := None)"
  by (induction m) (auto simp: qm_remove_def)

lemma qm_find_insert: "qm_find (qm_insert k v m) k' = (if k' = k then Some v else qm_find m k')"
  by (simp add: qm_find_def)

lemma qm_get_insert: "qm_get (qm_insert k v m) k' = (if k' = k then v else qm_get m k')"
  by (simp add: qm_get_def)

lemma qm_insert_keys: "fst ` set (qm_insert k v m) = insert k (fst ` set m)"
  by (induction k v m rule: qm_insert.induct) auto

lemma qm_insert_sorted:
  "sorted_wrt (<) (map fst m) \<Longrightarrow> sorted_wrt (<) (map fst (qm_insert k v m))"
proof (induction k v m rule: qm_insert.induct)
  case (2 k v k' v' m)
  then show ?case
    by (auto simp: qm_insert_keys simp flip: image_image)
qed simp

subsection \<open>Decimal numbers\<close>

text \<open>\<open>QString::number\<close> for unsigned values.\<close>

fun number :: "nat \<Rightarrow> string" where
  "number n = (if n < 10 then [char_of (48 + n)] else number (n div 10) @ [char_of (48 + n mod 10)])"

declare number.simps [simp del]

lemma number_small: "n < 10 \<Longrightarrow> number n = [char_of (48 + n)]"
  by (subst number.simps) simp

lemma number_rec: "10 \<le> n \<Longrightarrow> number n = number (n div 10) @ [char_of (48 + n mod 10)]"
  by (subst number.simps) simp

lemma number_nonempty [simp]: "number n \<noteq> []"
  by (subst number.simps) simp

lemma digit_inj:
  fixes m n :: nat
  assumes "m < 10" "n < 10" "char_of (48 + m) = (char_of (48 + n) :: char)"
  shows "m = n"
  using arg_cong[OF assms(3), of "of_char :: char \<Rightarrow> nat"] assms(1,2) by simp

lemma number_inj: "number m = number n \<Longrightarrow> m = n"
proof (induction m arbitrary: n rule: less_induct)
  case (less m)
  have len1: "length (number k) = 1 \<longleftrightarrow> k < 10" for k
  proof (cases "k < 10")
    case False
    have "length (number (k div 10)) > 0" by simp
    with False show ?thesis by (simp add: number_rec del: length_greater_0_conv)
  qed (simp add: number_small)
  have small: "m < 10 \<longleftrightarrow> n < 10" using len1[of m] len1[of n] less.prems by metis
  show ?case
  proof (cases "m < 10")
    case True
    with small have "[char_of (48 + m)] = ([char_of (48 + n)] :: string)"
      using less.prems number_small by metis
    then show ?thesis using True small digit_inj[of m n] by blast
  next
    case False
    then have m: "10 \<le> m" and n: "10 \<le> n" using small by auto
    have "number (m div 10) @ [char_of (48 + m mod 10)] = number (n div 10) @ [char_of (48 + n mod 10)]"
      using less.prems number_rec[OF m] number_rec[OF n] by metis
    then have eq: "number (m div 10) = number (n div 10)"
      and digit: "char_of (48 + m mod 10) = (char_of (48 + n mod 10) :: char)"
      unfolding append1_eq_conv by blast+
    have "m div 10 < m" using m by (intro div_less_dividend) auto
    then have "m div 10 = n div 10" using eq by (rule less.IH)
    moreover have "m mod 10 = n mod 10"
      by (rule digit_inj[OF _ _ digit]) (rule mod_less_divisor, simp)+
    ultimately show ?thesis by (metis div_mod_decomp)
  qed
qed

end
