(* ===== verification/Typelist.thy ===== *)
theory Typelist
  imports Prelude
begin

text \<open>
  The compile-time lists of \<open>cpp/Infrastructure/typelist.hpp\<close>.  A \<open>list<Ts...>\<close> is the list of its
  types, each metafunction the function its template specialisations compute.  Where no
  specialisation matches, the program does not compile: that is the value \<open>None\<close>.  The second part
  proves what the comments of the header promise.
\<close>

subsection \<open>Building lists\<close>

definition tl_append :: "'t list \<Rightarrow> 't \<Rightarrow> 't list" where
  "tl_append ts t = ts @ [t]"

definition tl_prepend :: "'t list \<Rightarrow> 't \<Rightarrow> 't list" where
  "tl_prepend ts t = t # ts"

fun tl_insert_impl :: "'t list \<Rightarrow> 't list \<Rightarrow> 't \<Rightarrow> nat \<Rightarrow> 't list option" where
  "tl_insert_impl before after new 0 = Some (before @ new # after)"
| "tl_insert_impl before (t # after) new (Suc position) = tl_insert_impl (before @ [t]) after new position"
| "tl_insert_impl before [] new (Suc position) = None"

definition tl_insert :: "'t list \<Rightarrow> 't \<Rightarrow> nat \<Rightarrow> 't list option" where
  "tl_insert ts new position = tl_insert_impl [] ts new position"

fun tl_length :: "'t list \<Rightarrow> nat" where
  "tl_length [] = 0"
| "tl_length (t # ts) = tl_length ts + 1"

fun tl_concat :: "'t list list \<Rightarrow> 't list option" where
  "tl_concat [] = None"
| "tl_concat [ts] = None"
| "tl_concat [old, new] = Some (old @ new)"
| "tl_concat (old # new # us # tss) = tl_concat ((old @ new) # us # tss)"

fun tl_make_sequence :: "nat \<Rightarrow> nat list" where
  "tl_make_sequence 0 = []"
| "tl_make_sequence (Suc 0) = [0]"
| "tl_make_sequence (Suc (Suc n)) = tl_make_sequence (Suc n) @ [Suc n]"

definition tl_transform :: "('t \<Rightarrow> 'u) \<Rightarrow> 't list \<Rightarrow> 'u list" where
  "tl_transform f ts = map f ts"

text \<open>\<open>builder_t<>::add<T1>::add<T2>...::finalize\<close>, as the reflection macros use it.\<close>

definition builder_add :: "'t list \<Rightarrow> 't \<Rightarrow> 't list" where
  "builder_add ts t = ts @ [t]"

definition builder_add_list :: "'t list \<Rightarrow> 't list \<Rightarrow> 't list" where
  "builder_add_list ts us = ts @ us"

subsection \<open>Searching and selecting\<close>

fun tl_index_of :: "'t \<Rightarrow> 't list \<Rightarrow> int" where
  "tl_index_of s [] = - 1"
| "tl_index_of s (t # ts) =
     (let deeper = tl_index_of s ts in if s = t then 0 else if deeper = - 1 then - 1 else deeper + 1)"

definition tl_contains :: "'t list \<Rightarrow> 't \<Rightarrow> bool" where
  "tl_contains ts t \<longleftrightarrow> tl_index_of t ts \<noteq> - 1"

text \<open>
  \<open>concat_unique\<close> folds every list into the types kept so far.  The specialisations for one type,
  for two and more types and for an empty list of the pairwise step are the three equations of
  \<open>tl_unique_into\<close>; those for further lists are the equations of \<open>tl_concat_unique\<close>.
\<close>

fun tl_unique_into :: "'t list \<Rightarrow> 't list \<Rightarrow> 't list" where
  "tl_unique_into uniques [] = uniques"
| "tl_unique_into uniques [t] = (if tl_index_of t uniques \<ge> 0 then uniques else uniques @ [t])"
| "tl_unique_into uniques (t1 # t2 # ts) = tl_unique_into (tl_unique_into uniques [t1]) (t2 # ts)"

fun tl_concat_unique_impl :: "'t list \<Rightarrow> 't list list \<Rightarrow> 't list" where
  "tl_concat_unique_impl uniques [] = uniques"
| "tl_concat_unique_impl uniques (ts # tss) = tl_concat_unique_impl (tl_unique_into uniques ts) tss"

definition tl_concat_unique :: "'t list list \<Rightarrow> 't list" where
  "tl_concat_unique tss = tl_concat_unique_impl [] tss"

fun tl_at :: "'t list \<Rightarrow> nat \<Rightarrow> 't option" where
  "tl_at (t # ts) 0 = Some t"
| "tl_at (t # ts) (Suc i) = tl_at ts i"
| "tl_at [] i = None"

definition tl_first :: "'t list \<Rightarrow> 't option" where
  "tl_first ts = tl_at ts 0"

text \<open>\<open>length<List>()-1\<close> is unsigned: for an empty list it is the largest \<open>size_t\<close>.\<close>

definition tl_last :: "'t list \<Rightarrow> 't option" where
  "tl_last ts = tl_at ts (unat (of_nat (tl_length ts) - 1 :: 64 word))"

fun tl_remove_at_impl :: "'t list \<Rightarrow> 't list \<Rightarrow> nat \<Rightarrow> 't list option" where
  "tl_remove_at_impl left (t # right) 0 = Some (left @ right)"
| "tl_remove_at_impl left (t # right) (Suc i) = tl_remove_at_impl (left @ [t]) right i"
| "tl_remove_at_impl left [] i = None"

definition tl_remove_at :: "'t list \<Rightarrow> nat \<Rightarrow> 't list option" where
  "tl_remove_at ts i = tl_remove_at_impl [] ts i"

text \<open>A negative index is no \<open>size_t\<close> constant: the alias does not compile.\<close>

definition tl_remove_element :: "'t list \<Rightarrow> 't \<Rightarrow> 't list option" where
  "tl_remove_element ts t = (let i = tl_index_of t ts in if i < 0 then None else tl_remove_at ts (nat i))"

fun tl_filter_impl :: "('t \<Rightarrow> bool) \<Rightarrow> 't list \<Rightarrow> 't list \<Rightarrow> 't list" where
  "tl_filter_impl p filtered [] = filtered"
| "tl_filter_impl p filtered (t # ts) =
     (if p t then tl_filter_impl p (filtered @ [t]) ts else tl_filter_impl p filtered ts)"

definition tl_filter :: "('t \<Rightarrow> bool) \<Rightarrow> 't list \<Rightarrow> 't list" where
  "tl_filter p ts = tl_filter_impl p [] ts"

definition invert_filter :: "('t \<Rightarrow> bool) \<Rightarrow> 't \<Rightarrow> bool" where
  "invert_filter p t \<longleftrightarrow> \<not> p t"

fun tl_slice_impl :: "'t list \<Rightarrow> 't list \<Rightarrow> nat \<Rightarrow> nat \<Rightarrow> 't list option" where
  "tl_slice_impl results ts start end =
     (if start = end then Some results
      else case ts of
        [] \<Rightarrow> None
      | t # ts' \<Rightarrow>
          (case (start, end) of
             (0, Suc e) \<Rightarrow> tl_slice_impl (results @ [t]) ts' 0 e
           | (Suc s, Suc e) \<Rightarrow> (if results = [] then tl_slice_impl [] ts' s e else None)
           | (_, 0) \<Rightarrow> None))"

declare tl_slice_impl.simps [simp del]

definition tl_slice :: "'t list \<Rightarrow> nat \<Rightarrow> nat \<Rightarrow> 't list option" where
  "tl_slice ts start end = tl_slice_impl [] ts start end"

fun tl_zip :: "'a list \<Rightarrow> 'b list \<Rightarrow> ('a \<times> 'b) list option" where
  "tl_zip [] [] = Some []"
| "tl_zip (a # as) (b # bs) = (case tl_zip as bs of Some ps \<Rightarrow> Some ((a, b) # ps) | None \<Rightarrow> None)"
| "tl_zip _ _ = None"

definition tl_index :: "'t list \<Rightarrow> (nat \<times> 't) list option" where
  "tl_index ts = tl_zip (tl_make_sequence (tl_length ts)) ts"

definition indexed_filter :: "('t \<Rightarrow> bool) \<Rightarrow> nat \<times> 't \<Rightarrow> bool" where
  "indexed_filter p x = p (snd x)"

text \<open>\<open>transform<filter<index<List>, indexed_filter<Filter>>, select_element<0>::transformer>\<close>.\<close>

definition tl_filter_index_map :: "'t list \<Rightarrow> ('t \<Rightarrow> bool) \<Rightarrow> nat list option" where
  "tl_filter_index_map ts p =
     (case tl_index ts of Some its \<Rightarrow> Some (tl_transform fst (tl_filter (indexed_filter p) its)) | None \<Rightarrow> None)"

subsection \<open>Run time\<close>

datatype range_fault = NegativeIndex int | InvalidIndex nat

text \<open>\<open>dispatch\<close> for an unsigned and for a signed index; \<open>std::out_of_range\<close> is \<open>Inl\<close>.\<close>

definition dispatch_unsigned :: "'t list \<Rightarrow> nat \<Rightarrow> ('t \<Rightarrow> 'a) \<Rightarrow> range_fault + 'a" where
  "dispatch_unsigned ts i c =
     (let call_table = map c ts in
      if i < tl_length ts then Inr (call_table ! i) else Inl (InvalidIndex i))"

definition dispatch :: "'t list \<Rightarrow> int \<Rightarrow> ('t \<Rightarrow> 'a) \<Rightarrow> range_fault + 'a" where
  "dispatch ts i c = (if i < 0 then Inl (NegativeIndex i) else dispatch_unsigned ts (nat i) c)"

text \<open>\<open>for_each\<close> calls \<open>c\<close> on every type in order; the callback's effects are a state passed along.\<close>

fun tl_for_each :: "'t list \<Rightarrow> ('t \<Rightarrow> 's \<Rightarrow> 's) \<Rightarrow> 's \<Rightarrow> 's" where
  "tl_for_each [] c s = s"
| "tl_for_each (t # ts) c s = tl_for_each ts c (c t s)"

fun tl_all_of :: "'t list \<Rightarrow> ('t \<Rightarrow> bool) \<Rightarrow> bool" where
  "tl_all_of [] p = True"
| "tl_all_of (t # ts) p = (if p t then tl_all_of ts p else False)"

fun tl_any_of :: "'t list \<Rightarrow> ('t \<Rightarrow> bool) \<Rightarrow> bool" where
  "tl_any_of [] p = False"
| "tl_any_of (t # ts) p = (if p t then True else tl_any_of ts p)"

fun tl_none_of :: "'t list \<Rightarrow> ('t \<Rightarrow> bool) \<Rightarrow> bool" where
  "tl_none_of [] p = True"
| "tl_none_of (t # ts) p = (if p t then False else tl_none_of ts p)"

definition tl_make_tuple :: "('t \<Rightarrow> 'a) \<Rightarrow> 't list \<Rightarrow> 'a list" where
  "tl_make_tuple construct ts = map construct ts"

subsection \<open>What the metafunctions compute\<close>

lemma tl_length_eq [simp]: "tl_length ts = length ts"
  by (induction ts) auto

lemma tl_at_eq: "tl_at ts i = (if i < length ts then Some (ts ! i) else None)"
  by (induction ts i rule: tl_at.induct) auto

lemma tl_insert_impl_eq:
  "tl_insert_impl bs as x i = (if i \<le> length as then Some (bs @ insert_at i x as) else None)"
  by (induction bs as x i rule: tl_insert_impl.induct) (auto simp: insert_at_def)

lemma tl_insert_eq: "tl_insert ts x i = (if i \<le> length ts then Some (insert_at i x ts) else None)"
  by (simp add: tl_insert_def tl_insert_impl_eq)

lemma tl_remove_at_impl_eq:
  "tl_remove_at_impl ls ts i = (if i < length ts then Some (ls @ remove_at i ts) else None)"
  by (induction ls ts i rule: tl_remove_at_impl.induct) (auto simp: remove_at_def)

lemma tl_remove_at_eq: "tl_remove_at ts i = (if i < length ts then Some (remove_at i ts) else None)"
  by (simp add: tl_remove_at_def tl_remove_at_impl_eq)

lemma tl_concat_eq: "2 \<le> length tss \<Longrightarrow> tl_concat tss = Some (concat tss)"
  by (induction tss rule: tl_concat.induct) auto

lemma tl_make_sequence_eq: "tl_make_sequence n = [0..<n]"
  by (induction n rule: tl_make_sequence.induct) auto

lemma tl_index_of_range: "- 1 \<le> tl_index_of s ts"
  by (induction ts) (auto simp: Let_def)

lemma tl_index_of_mem: "tl_index_of s ts = - 1 \<longleftrightarrow> s \<notin> set ts"
proof (induction ts)
  case (Cons t ts)
  then show ?case using tl_index_of_range[of s ts] by (auto simp: Let_def)
qed simp

lemma tl_index_of_eq:
  "s \<in> set ts \<Longrightarrow> tl_index_of s ts = int (length (takeWhile (\<lambda>t. t \<noteq> s) ts))"
  by (induction ts) (auto simp: Let_def tl_index_of_mem)

lemma tl_index_of_at:
  assumes "s \<in> set ts"
  shows "tl_at ts (nat (tl_index_of s ts)) = Some s"
proof -
  let ?n = "length (takeWhile (\<lambda>t. t \<noteq> s) ts)"
  have n: "?n < length ts" using assms by (induction ts) auto
  then have "ts ! ?n = s" using nth_length_takeWhile[of "\<lambda>t. t \<noteq> s" ts] by simp
  with n assms show ?thesis by (simp add: tl_index_of_eq tl_at_eq)
qed

lemma tl_filter_impl_eq: "tl_filter_impl p acc ts = acc @ filter p ts"
  by (induction p acc ts rule: tl_filter_impl.induct) auto

lemma tl_filter_eq [simp]: "tl_filter p ts = filter p ts"
  by (simp add: tl_filter_def tl_filter_impl_eq)

lemma tl_slice_take: "n \<le> length ts \<Longrightarrow> tl_slice_impl rs ts 0 n = Some (rs @ take n ts)"
proof (induction ts arbitrary: rs n)
  case Nil
  then show ?case by (simp add: tl_slice_impl.simps)
next
  case (Cons t ts)
  then show ?case by (cases n) (simp_all add: tl_slice_impl.simps)
qed

lemma tl_slice_eq:
  "i \<le> j \<Longrightarrow> j \<le> length ts \<Longrightarrow> tl_slice ts i j = Some (take (j - i) (drop i ts))"
  unfolding tl_slice_def
proof (induction ts arbitrary: i j)
  case Nil
  then show ?case by (simp add: tl_slice_impl.simps)
next
  case (Cons t ts)
  show ?case
  proof (cases i)
    case 0
    with Cons.prems show ?thesis by (simp add: tl_slice_take)
  next
    case (Suc i')
    with Cons show ?thesis
      by (cases j) (auto simp: tl_slice_impl.simps[of _ "t # ts"] tl_slice_impl.simps[of "[]" ts j])
  qed
qed

lemma tl_zip_eq: "length as = length bs \<Longrightarrow> tl_zip as bs = Some (zip as bs)"
  by (induction as bs rule: list_induct2) auto

lemma tl_index_eq: "tl_index ts = Some (zip [0..<length ts] ts)"
  by (simp add: tl_index_def tl_make_sequence_eq tl_zip_eq)

lemma tl_for_each_eq: "tl_for_each ts c s = fold c ts s"
  by (induction ts arbitrary: s) auto

lemma tl_quantifiers [simp]:
  "tl_all_of ts p \<longleftrightarrow> (\<forall>t \<in> set ts. p t)"
  "tl_any_of ts p \<longleftrightarrow> (\<exists>t \<in> set ts. p t)"
  "tl_none_of ts p \<longleftrightarrow> (\<forall>t \<in> set ts. \<not> p t)"
  by (induction ts) auto

lemma dispatch_eq:
  "dispatch ts i c = (if i < 0 then Inl (NegativeIndex i)
     else if nat i < length ts then Inr (c (ts ! nat i)) else Inl (InvalidIndex (nat i)))"
  by (simp add: dispatch_def dispatch_unsigned_def)

subsection \<open>What the comments promise\<close>

lemma tl_unique_into_eq:
  "us = rev (remdups (rev xs)) \<Longrightarrow> tl_unique_into us ts = rev (remdups (rev (xs @ ts)))"
proof (induction us ts arbitrary: xs rule: tl_unique_into.induct)
  case (2 us t)
  have "tl_index_of t us \<ge> 0 \<longleftrightarrow> t \<in> set us"
    using tl_index_of_range[of t us] tl_index_of_mem[of t us] by linarith
  with 2 show ?case by auto
next
  case (3 us t1 t2 ts)
  show ?case using 3(2)[of "xs @ [t1]"] 3(1)[OF 3(3)] by simp
qed simp

lemma tl_concat_unique_impl_eq:
  "us = rev (remdups (rev xs)) \<Longrightarrow>
     tl_concat_unique_impl us tss = rev (remdups (rev (xs @ concat tss)))"
proof (induction us tss arbitrary: xs rule: tl_concat_unique_impl.induct)
  case (2 us ts tss)
  from 2(1)[OF tl_unique_into_eq[OF 2(2), of ts]] show ?case by simp
qed simp

lemma tl_index_map_eq:
  "tl_filter_index_map ts p = Some (map fst (filter (indexed_filter p) (zip [0..<length ts] ts)))"
  by (simp add: tl_filter_index_map_def tl_index_eq tl_transform_def)

lemma map_snd_filter_zip:
  "map snd (filter (indexed_filter p) (zip is ts)) = filter p (map snd (zip is ts))"
  by (induction "zip is ts" arbitrary: "is" ts) (auto simp: filter_map comp_def indexed_filter_def cong: filter_cong)

end
