(* ===== verification/Strings.thy ===== *)
theory Strings
  imports QtData
begin

text \<open>
  The constants of \<open>cpp/Strings.cpp\<close>: names of API calls, tables, JSON keys, actions and action
  arguments, the sets of arguments each action takes, the map of all of them that QML sees, and the
  request texts of \<open>cpp/Strings.hpp\<close>.  A constant whose name another theory owns has the suffix
  \<open>_str\<close>.
\<close>

named_theorems strings_defs \<open>the texts of the constants\<close>

subsection \<open>Constants\<close>

definition AssistantName :: string where [strings_defs]: "AssistantName = ''As'' @ [CHR 0xED]"
definition GetTableRows :: string where [strings_defs]: "GetTableRows = ''/v1/chain/get_table_rows''"
definition GetInfo :: string where [strings_defs]: "GetInfo = ''/v1/chain/get_info''"
definition GetBlock :: string where [strings_defs]: "GetBlock = ''/v1/chain/get_block''"
definition UnknownTable :: string where [strings_defs]: "UnknownTable = ''Unknown Table''"
definition PollGroups :: string where [strings_defs]: "PollGroups = ''poll.groups''"
definition GroupAccts :: string where [strings_defs]: "GroupAccts = ''group.accts''"
definition Journal :: string where [strings_defs]: "Journal = ''journal''"
definition Global :: string where [strings_defs]: "Global = ''global''"
definition Rows :: string where [strings_defs]: "Rows = ''rows''"
definition More :: string where [strings_defs]: "More = ''more''"
definition NextKey :: string where [strings_defs]: "NextKey = ''next_key''"
definition ChainId :: string where [strings_defs]: "ChainId = ''chain_id''"
definition HeadBlockId :: string where [strings_defs]: "HeadBlockId = ''head_block_id''"
definition HeadBlockNum :: string where [strings_defs]: "HeadBlockNum = ''head_block_num''"
definition HeadBlockTime :: string where [strings_defs]: "HeadBlockTime = ''head_block_time''"
definition Id_str :: string where [strings_defs]: "Id_str = ''id''"
definition Name :: string where [strings_defs]: "Name = ''name''"
definition Tags :: string where [strings_defs]: "Tags = ''tags''"
definition Timestamp :: string where [strings_defs]: "Timestamp = ''timestamp''"
definition Table_str :: string where [strings_defs]: "Table_str = ''table''"
definition Scope :: string where [strings_defs]: "Scope = ''scope''"
definition Key_str :: string where [strings_defs]: "Key_str = ''key''"
definition Modification :: string where [strings_defs]: "Modification = ''modification''"
definition Contract_name :: string where [strings_defs]: "Contract_name = ''fmv''"
definition Active :: string where [strings_defs]: "Active = ''active''"
definition AuthorizationTemplate :: string where [strings_defs]: "AuthorizationTemplate = ''%1@%2''"
definition TransactionId :: string where [strings_defs]: "TransactionId = ''transaction_id''"
definition Error_str :: string where [strings_defs]: "Error_str = ''error''"
definition What :: string where [strings_defs]: "What = ''what''"
definition Processed :: string where [strings_defs]: "Processed = ''processed''"
definition BlockNum :: string where [strings_defs]: "BlockNum = ''block_num''"
definition LastIrreversibleBlockNum :: string where [strings_defs]: "LastIrreversibleBlockNum = ''last_irreversible_block_num''"
definition Transactions :: string where [strings_defs]: "Transactions = ''transactions''"
definition Trx :: string where [strings_defs]: "Trx = ''trx''"
definition DraftId :: string where [strings_defs]: "DraftId = ''DRAFT_ID''"
definition Deleted :: string where [strings_defs]: "Deleted = ''DELETED''"
definition Account :: string where [strings_defs]: "Account = ''account''"
definition VoterAdd :: string where [strings_defs]: "VoterAdd = ''voter.add''"
definition VoterRemove :: string where [strings_defs]: "VoterRemove = ''voter.remove''"
definition GroupCopy :: string where [strings_defs]: "GroupCopy = ''group.copy''"
definition GroupRename :: string where [strings_defs]: "GroupRename = ''group.rename''"
definition CntstNew :: string where [strings_defs]: "CntstNew = ''cntst.new''"
definition CntstModify :: string where [strings_defs]: "CntstModify = ''cntst.modify''"
definition CntstTally :: string where [strings_defs]: "CntstTally = ''cntst.tally''"
definition CntstDelete :: string where [strings_defs]: "CntstDelete = ''cntst.delete''"
definition DcsnSet :: string where [strings_defs]: "DcsnSet = ''dcsn.set''"
definition GroupName :: string where [strings_defs]: "GroupName = ''groupName''"
definition Voter :: string where [strings_defs]: "Voter = ''voter''"
definition Weight :: string where [strings_defs]: "Weight = ''weight''"
definition NewName :: string where [strings_defs]: "NewName = ''newName''"
definition GroupId :: string where [strings_defs]: "GroupId = ''groupId''"
definition Description :: string where [strings_defs]: "Description = ''description''"
definition Contestants :: string where [strings_defs]: "Contestants = ''contestants''"
definition Begin_str :: string where [strings_defs]: "Begin_str = ''begin''"
definition End_str :: string where [strings_defs]: "End_str = ''end''"
definition ContestId :: string where [strings_defs]: "ContestId = ''contestId''"
definition NewDescription :: string where [strings_defs]: "NewDescription = ''newDescription''"
definition NewTags :: string where [strings_defs]: "NewTags = ''newTags''"
definition DeleteContestants :: string where [strings_defs]: "DeleteContestants = ''deleteContestants''"
definition AddContestants :: string where [strings_defs]: "AddContestants = ''addContestants''"
definition NewBegin :: string where [strings_defs]: "NewBegin = ''newBegin''"
definition NewEnd :: string where [strings_defs]: "NewEnd = ''newEnd''"
definition VoterName :: string where [strings_defs]: "VoterName = ''voterName''"
definition Opinions :: string where [strings_defs]: "Opinions = ''opinions''"
definition BlockNumOrId :: string where [strings_defs]: "BlockNumOrId = ''block_num_or_id''"

subsection \<open>Actions and their arguments\<close>

definition VoterAddArgs :: "string set" where [strings_defs]: "VoterAddArgs = {GroupName, Voter, Weight, Tags}"
definition VoterRemoveArgs :: "string set" where [strings_defs]: "VoterRemoveArgs = {GroupName, Voter}"
definition GroupCopyArgs :: "string set" where [strings_defs]: "GroupCopyArgs = {GroupName, NewName}"
definition GroupRenameArgs :: "string set" where [strings_defs]: "GroupRenameArgs = {GroupName, NewName}"
definition CntstNewArgs :: "string set" where [strings_defs]: "CntstNewArgs = {GroupId, Name, Description, Contestants, Begin_str, End_str, Tags}"
definition CntstModifyArgs :: "string set" where [strings_defs]: "CntstModifyArgs = {GroupId, ContestId, NewName, NewDescription, NewTags, DeleteContestants, AddContestants, NewBegin, NewEnd}"
definition CntstTallyArgs :: "string set" where [strings_defs]: "CntstTallyArgs = {GroupId, ContestId}"
definition CntstDeleteArgs :: "string set" where [strings_defs]: "CntstDeleteArgs = {GroupId, ContestId}"
definition DcsnSetArgs :: "string set" where [strings_defs]: "DcsnSetArgs = {GroupId, ContestId, VoterName, Opinions, Tags}"

definition LegalActionArguments :: "(string \<times> string set) list" where
  "LegalActionArguments =
  [(VoterAdd, VoterAddArgs),
   (VoterRemove, VoterRemoveArgs),
   (GroupCopy, GroupCopyArgs),
   (GroupRename, GroupRenameArgs),
   (CntstNew, CntstNewArgs),
   (CntstModify, CntstModifyArgs),
   (CntstTally, CntstTallyArgs),
   (CntstDelete, CntstDeleteArgs),
   (DcsnSet, DcsnSetArgs)]"

subsection \<open>The map of all constants\<close>

datatype exported = ExString string | ExSet "string set" | ExMap "(string \<times> string set) list"

definition MapOfAll :: "(string \<times> exported) list" where
  "MapOfAll =
  [(''AssistantName'', ExString AssistantName),
   (''GetTableRows'', ExString GetTableRows),
   (''GetInfo'', ExString GetInfo),
   (''GetBlock'', ExString GetBlock),
   (''UnknownTable'', ExString UnknownTable),
   (''PollGroups'', ExString PollGroups),
   (''GroupAccts'', ExString GroupAccts),
   (''Journal'', ExString Journal),
   (''Global'', ExString Global),
   (''Rows'', ExString Rows),
   (''More'', ExString More),
   (''NextKey'', ExString NextKey),
   (''ChainId'', ExString ChainId),
   (''HeadBlockId'', ExString HeadBlockId),
   (''HeadBlockNum'', ExString HeadBlockNum),
   (''HeadBlockTime'', ExString HeadBlockTime),
   (''Id'', ExString Id_str),
   (''Name'', ExString Name),
   (''Tags'', ExString Tags),
   (''Timestamp'', ExString Timestamp),
   (''Table'', ExString Table_str),
   (''Scope'', ExString Scope),
   (''Key'', ExString Key_str),
   (''Modification'', ExString Modification),
   (''Contract_name'', ExString Contract_name),
   (''Active'', ExString Active),
   (''AuthorizationTemplate'', ExString AuthorizationTemplate),
   (''TransactionId'', ExString TransactionId),
   (''Error'', ExString Error_str),
   (''Processed'', ExString Processed),
   (''BlockNum'', ExString BlockNum),
   (''LastIrreversibleBlockNum'', ExString LastIrreversibleBlockNum),
   (''Transactions'', ExString Transactions),
   (''Trx'', ExString Trx),
   (''DraftId'', ExString DraftId),
   (''Deleted'', ExString Deleted),
   (''Account'', ExString Account),
   (''VoterAdd'', ExString VoterAdd),
   (''VoterRemove'', ExString VoterRemove),
   (''GroupCopy'', ExString GroupCopy),
   (''GroupRename'', ExString GroupRename),
   (''CntstNew'', ExString CntstNew),
   (''CntstModify'', ExString CntstModify),
   (''CntstTally'', ExString CntstTally),
   (''CntstDelete'', ExString CntstDelete),
   (''DcsnSet'', ExString DcsnSet),
   (''GroupName'', ExString GroupName),
   (''Voter'', ExString Voter),
   (''Weight'', ExString Weight),
   (''NewName'', ExString NewName),
   (''GroupId'', ExString GroupId),
   (''Description'', ExString Description),
   (''Contestants'', ExString Contestants),
   (''Begin'', ExString Begin_str),
   (''End'', ExString End_str),
   (''ContestId'', ExString ContestId),
   (''NewDescription'', ExString NewDescription),
   (''NewTags'', ExString NewTags),
   (''DeleteContestants'', ExString DeleteContestants),
   (''AddContestants'', ExString AddContestants),
   (''NewBegin'', ExString NewBegin),
   (''NewEnd'', ExString NewEnd),
   (''VoterName'', ExString VoterName),
   (''Opinions'', ExString Opinions),
   (''BlockNumOrId'', ExString BlockNumOrId),
   (''VoterAddArgs'', ExSet VoterAddArgs),
   (''VoterRemoveArgs'', ExSet VoterRemoveArgs),
   (''GroupCopyArgs'', ExSet GroupCopyArgs),
   (''GroupRenameArgs'', ExSet GroupRenameArgs),
   (''CntstNewArgs'', ExSet CntstNewArgs),
   (''CntstModifyArgs'', ExSet CntstModifyArgs),
   (''CntstTallyArgs'', ExSet CntstTallyArgs),
   (''CntstDeleteArgs'', ExSet CntstDeleteArgs),
   (''DcsnSetArgs'', ExSet DcsnSetArgs),
   (''LegalActionArguments'', ExMap LegalActionArguments)]"

subsection \<open>Requests for table rows\<close>

definition quote :: string where "quote = [CHR 0x22]"

definition quoted :: "string \<Rightarrow> string" where
  "quoted s = quote @ s @ quote"

text \<open>The two-line literals hold the line break and the blanks of the source.\<close>

definition json_break :: string where
  "json_break = CHR 0x0A # replicate 37 (CHR '' '')"

definition getTableJson_limit :: "string \<Rightarrow> string \<Rightarrow> string \<Rightarrow> nat \<Rightarrow> bool \<Rightarrow> string" where
  "getTableJson_limit tbl sc lowerBound limit reverse =
     ''{'' @ quoted ''code'' @ '': '' @ quoted ''fmv'' @ '', '' @ quoted ''table'' @ '': '' @ quoted tbl @
     '', '' @ quoted ''scope'' @ '': '' @ quoted sc @ '', '' @ quoted ''json'' @ '': true,'' @ json_break @
     quoted ''lower_bound'' @ '': '' @ lowerBound @ '', '' @ quoted ''limit'' @ '': '' @ number limit @
     '', '' @ quoted ''reverse'' @ '': '' @ (if reverse then ''true'' else ''false'') @ ''}''"

definition getTableJson_from :: "string \<Rightarrow> string \<Rightarrow> string \<Rightarrow> string" where
  "getTableJson_from tbl sc lowerBound =
     ''{'' @ quoted ''code'' @ '': '' @ quoted ''fmv'' @ '', '' @ quoted ''table'' @ '': '' @ quoted tbl @
     '', '' @ quoted ''scope'' @ '': '' @ quoted sc @ '','' @ json_break @
     quoted ''limit'' @ '': 100, '' @ quoted ''json'' @ '': true, '' @
     quoted ''lower_bound'' @ '': '' @ lowerBound @ ''}''"

definition getTableJson :: "string \<Rightarrow> string \<Rightarrow> string" where
  "getTableJson tbl sc =
     ''{'' @ quoted ''code'' @ '': '' @ quoted ''fmv'' @ '', '' @ quoted ''table'' @ '': '' @ quoted tbl @
     '', '' @ quoted ''scope'' @ '': '' @ quoted sc @ '', '' @ quoted ''limit'' @ '': 100, '' @
     quoted ''json'' @ '': true}''"

end
