(* ===== verification/TableSupport.thy ===== *)
theory TableSupport
  imports KeyedLists QtData Typelist Strings
begin

text \<open>
  The support code of the tables, \<open>cpp/TableSupport.hpp\<close> and \<open>cpp/Infrastructure/reflectors.hpp\<close>:
  the check of a response to \<open>get_table_rows\<close> (\<open>parseRows\<close>), the conversion of reflected structs
  to and from Qt's containers (\<open>Convert\<close>) and the store of the unedited rows (\<open>BackupManager\<close>).
  The contract of the store is the locale \<open>backup_store\<close>, that of a reflected struct the locale
  \<open>reflected\<close>; both are interpreted on the definitions of the program.
\<close>

subsection \<open>Responses\<close>

text \<open>\<open>None\<close> for a response that is not sensible, otherwise the rows and the next key.\<close>

definition parseRows :: "json \<Rightarrow> (json list \<times> json) option" where
  "parseRows doc =
     (if \<not> isObject doc then None
      else let response = toObject doc; rows = jmember response Rows in
        if \<not> isArray rows then None
        else Some (toArray rows,
          if toBool (jmember response More) then jmember response NextKey else JNull))"

subsection \<open>Reflected structs\<close>

text \<open>
  A \<open>field_reflector\<close>: the field's name, the variant of its contents, and the assignment of
  \<open>variant.value<type>()\<close> to it.  The members of a struct are the list that the macro
  \<open>REFLECT_STRUCT\<close> builds.
\<close>

record 'r field =
  fname :: string
  fget :: "'r \<Rightarrow> qvariant"
  fset :: "qvariant \<Rightarrow> 'r \<Rightarrow> 'r"

definition reflect_members :: "'r field list \<Rightarrow> 'r field list" where
  "reflect_members ms = fold (\<lambda>m ts. builder_add ts m) ms []"

lemma reflect_members_eq [simp]: "reflect_members ms = ms"
proof -
  have "fold (\<lambda>m ts. builder_add ts m) ms acc = acc @ ms" for acc
    by (induction ms arbitrary: acc) (auto simp: builder_add_def)
  then show ?thesis by (simp add: reflect_members_def)
qed

text \<open>\<open>Struct result;\<close> leaves the scalar members unset: \<open>blank\<close> is that struct.\<close>

definition fromJsonObject :: "'r field list \<Rightarrow> 'r \<Rightarrow> (string \<times> json) list \<Rightarrow> 'r" where
  "fromJsonObject ms blank obj =
     tl_for_each ms (\<lambda>m result. fset m (json_variant (jmember obj (fname m))) result) blank"

definition toJsonObject :: "qt \<Rightarrow> 'r field list \<Rightarrow> 'r \<Rightarrow> (string \<times> json) list" where
  "toJsonObject Q ms r = tl_for_each ms (\<lambda>m result. jinsert (fname m) (cvJson Q (fget m r)) result) []"

definition fromJsonArray :: "'r field list \<Rightarrow> 'r \<Rightarrow> json list \<Rightarrow> 'r list" where
  "fromJsonArray ms blank arr = map (\<lambda>v. fromJsonObject ms blank (toObject v)) arr"

definition toVariantMap :: "'r field list \<Rightarrow> 'r \<Rightarrow> qvariant_map" where
  "toVariantMap ms r = tl_for_each ms (\<lambda>m result. qm_insert (fname m) (fget m r) result) []"

text \<open>The converted row and the keys that name no member.\<close>

definition fromVariantMap :: "'r field list \<Rightarrow> qvariant_map \<Rightarrow> 'r \<Rightarrow> 'r \<times> string list" where
  "fromVariantMap ms m0 defaultValues =
     (let (result, rest) =
        tl_for_each ms (\<lambda>m (result, vm).
          case qm_find vm (fname m) of
            Some v \<Rightarrow> (fset m v result, qm_remove (fname m) vm)
          | None \<Rightarrow> (result, vm)) (defaultValues, m0)
      in (result, map fst rest))"

lemma toVariantMap_fold:
  "map_of (tl_for_each ms (\<lambda>m result. qm_insert (fname m) (fget m r) result) acc) k =
     (case map_of (rev (map (\<lambda>m. (fname m, fget m r)) ms)) k of Some v \<Rightarrow> Some v | None \<Rightarrow> map_of acc k)"
  by (induction ms arbitrary: acc) (auto simp: map_add_def split: option.splits)

lemma map_of_toVariantMap:
  "map_of (toVariantMap ms r) = map_of (rev (map (\<lambda>m. (fname m, fget m r)) ms))"
  by (rule ext) (simp add: toVariantMap_def toVariantMap_fold split: option.splits)

text \<open>\<open>fromVariantMap\<close> member by member: the last key removed wins nothing, every name is read once.\<close>

definition apply_changes :: "'r field list \<Rightarrow> (string \<rightharpoonup> qvariant) \<Rightarrow> 'r \<Rightarrow> 'r" where
  "apply_changes ms c r = fold (\<lambda>m r. case c (fname m) of Some v \<Rightarrow> fset m v r | None \<Rightarrow> r) ms r"

lemma fromVariantMap_fold:
  assumes "distinct (map fname ms)"
  shows "tl_for_each ms (\<lambda>m (result, vm).
          case qm_find vm (fname m) of
            Some v \<Rightarrow> (fset m v result, qm_remove (fname m) vm)
          | None \<Rightarrow> (result, vm)) (r, vm) =
      (apply_changes ms (map_of vm) r, filter (\<lambda>(k, _). k \<notin> fname ` set ms) vm)"
  using assms
proof (induction ms arbitrary: r vm)
  case Nil
  then show ?case by (simp add: apply_changes_def)
next
  case (Cons m ms)
  have eq: "fold (\<lambda>m r. case ((map_of vm)(fname m0 := None)) (fname m) of Some v \<Rightarrow> fset m v r | None \<Rightarrow> r) ms r =
      fold (\<lambda>m r. case map_of vm (fname m) of Some v \<Rightarrow> fset m v r | None \<Rightarrow> r) ms r"
    if "m0 \<notin> set ms" "fname m0 \<notin> fname ` set ms" for m0 r
    proof (intro fold_cong refl)
    fix n assume "n \<in> set ms"
    then have "fname n \<noteq> fname m0" using that(2) by (metis imageI)
    then show "(\<lambda>r. case ((map_of vm)(fname m0 := None)) (fname n) of Some v \<Rightarrow> fset n v r | None \<Rightarrow> r) =
        (\<lambda>r. case map_of vm (fname n) of Some v \<Rightarrow> fset n v r | None \<Rightarrow> r)" by simp
  qed
  show ?case
  proof (cases "map_of vm (fname m)")
    case None
    then have "fname m \<notin> fst ` set vm" by (simp add: map_of_eq_None_iff)
    then have "filter (\<lambda>(k, _). k \<notin> fname ` set ms) vm =
        filter (\<lambda>(k, _). k \<notin> fname ` set (m # ms)) vm" by (intro filter_cong) (force simp: image_iff)+
    with None Cons show ?thesis by (simp add: qm_find_def apply_changes_def)
  next
    case (Some v)
    then show ?thesis using Cons eq[of m]
      by (auto simp: qm_find_def apply_changes_def qm_remove_def map_of_qm_remove[unfolded qm_remove_def]
          intro!: filter_cong)
  qed
qed

lemma fromVariantMap_eq:
  assumes "distinct (map fname ms)"
  shows "fromVariantMap ms vm r =
    (apply_changes ms (map_of vm) r, filter (\<lambda>k. k \<notin> fname ` set ms) (map fst vm))"
  using fromVariantMap_fold[OF assms, of r vm]
  by (simp add: fromVariantMap_def filter_map comp_def case_prod_unfold)

text \<open>The contract of a reflected struct: its members are independent and determine it.\<close>

locale reflected =
  fixes ms :: "'r field list"
  assumes names: "distinct (map fname ms)"
    and get_set: "\<And>m r r'. m \<in> set ms \<Longrightarrow> fget m (fset m (fget m r) r') = fget m r"
    and get_other: "\<And>m n v r. m \<in> set ms \<Longrightarrow> n \<in> set ms \<Longrightarrow> fname m \<noteq> fname n \<Longrightarrow>
      fget m (fset n v r) = fget m r"
    and extensional: "\<And>r r'. (\<And>m. m \<in> set ms \<Longrightarrow> fget m r = fget m r') \<Longrightarrow> r = r'"
begin

lemma get_apply_changes:
  assumes "set ns \<subseteq> set ms" "distinct (map fname ns)" "m \<in> set ms"
  shows "fget m (apply_changes ns c r) =
    (if m \<in> set ns then case c (fname m) of Some v \<Rightarrow> fget m (fset m v (apply_changes (takeWhile (\<lambda>n. n \<noteq> m) ns) c r))
       | None \<Rightarrow> fget m r else fget m r)"
  using assms
proof (induction ns rule: rev_induct)
  case Nil
  then show ?case by (simp add: apply_changes_def)
next
  case (snoc n ns)
  have step: "apply_changes (ns @ [n]) c r =
      (case c (fname n) of Some v \<Rightarrow> fset n v (apply_changes ns c r) | None \<Rightarrow> apply_changes ns c r)"
    by (simp add: apply_changes_def split: option.splits)
  have tw: "takeWhile (\<lambda>n. n \<noteq> m) (ns @ [n]) =
      (if m \<in> set ns then takeWhile (\<lambda>n. n \<noteq> m) ns else if n = m then ns else ns @ [n])"
    by (induction ns) auto
  have inj: "fname m \<noteq> fname n" if "m \<noteq> n" "n \<in> set ms"
    using that snoc.prems(3) names by (metis distinct_map inj_onD)
  show ?case
  proof (cases "m = n")
    case True
    then have "m \<notin> set ns" using snoc.prems(2) by auto
    moreover from this True have "takeWhile (\<lambda>k. k \<noteq> n) (ns @ [n]) = ns" using tw by simp
    ultimately show ?thesis using snoc True by (auto simp: step split: option.splits)
  next
    case False
    then show ?thesis using snoc inj by (auto simp: step tw get_other split: option.splits)
  qed
qed

lemma map_of_members: "m \<in> set ms \<Longrightarrow> map_of (toVariantMap ms r) (fname m) = Some (fget m r)"
  unfolding map_of_toVariantMap using names
  by (intro map_of_is_SomeI) (auto simp: rev_map comp_def simp flip: rev_map)

text \<open>Writing a row's own variant map over any other row gives that row, with no key unused.\<close>

lemma variant_map_roundtrip: "fromVariantMap ms (toVariantMap ms r) d = (r, [])"
proof -
  have "fget m (apply_changes ms (map_of (toVariantMap ms r)) d) = fget m r" if "m \<in> set ms" for m
    using that names by (subst get_apply_changes) (simp_all add: map_of_members get_set)
  then have row: "apply_changes ms (map_of (toVariantMap ms r)) d = r" by (rule extensional)
  have "dom (map_of (toVariantMap ms r)) = fname ` set ms"
    by (simp add: map_of_toVariantMap dom_map_of_conv_image_fst image_image)
  then have "fst ` set (toVariantMap ms r) = fname ` set ms" by (simp add: dom_map_of_conv_image_fst)
  then have "filter (\<lambda>k. k \<notin> fname ` set ms) (map fst (toVariantMap ms r)) = []"
    by (auto simp: filter_empty_conv)
  with row show ?thesis by (simp add: fromVariantMap_eq[OF names])
qed

text \<open>A change map changes exactly the members it names.\<close>

lemma unchanged_member:
  "m \<in> set ms \<Longrightarrow> map_of vm (fname m) = None \<Longrightarrow> fget m (fst (fromVariantMap ms vm r)) = fget m r"
  using names by (simp add: fromVariantMap_eq get_apply_changes)

lemma no_changes: "fromVariantMap ms [] r = (r, [])"
proof -
  have "apply_changes ms Map.empty r = r" by (rule extensional) (simp add: get_apply_changes names)
  then show ?thesis by (simp add: fromVariantMap_eq[OF names])
qed

end

subsection \<open>Backups\<close>

text \<open>
  \<open>BackupManager\<close>: the unedited rows and, in a parallel list, the states they had.  \<open>key\<close> is the
  row's \<open>getId\<close>.  \<open>backup_remove\<close> gives the removed pair, which the code stores through the pointer
  arguments, or \<open>None\<close> where it returns false.
\<close>

record 'r backup =
  brows :: "'r list"
  bstates :: "LoadState list"

definition backup_empty :: "'r backup" where
  "backup_empty = \<lparr>brows = [], bstates = []\<rparr>"

definition backup_isEmpty :: "'r backup \<Rightarrow> bool" where
  "backup_isEmpty b \<longleftrightarrow> brows b = []"

definition backup_get :: "('r \<Rightarrow> 'i::linorder) \<Rightarrow> 'r backup \<Rightarrow> 'i \<Rightarrow> ('r \<times> LoadState) option" where
  "backup_get key b rid =
     (let i = lower_bound key (brows b) rid in
      if found_at key (brows b) rid i then Some (brows b ! i, bstates b ! i) else None)"

definition backup_remove ::
  "('r \<Rightarrow> 'i::linorder) \<Rightarrow> 'i \<Rightarrow> 'r backup \<Rightarrow> ('r \<times> LoadState) option \<times> 'r backup" where
  "backup_remove key rid b =
     (let i = lower_bound key (brows b) rid in
      if found_at key (brows b) rid i
      then (Some (brows b ! i, bstates b ! i),
            b\<lparr>brows := remove_at i (brows b), bstates := remove_at i (bstates b)\<rparr>)
      else (None, b))"

definition backup_save :: "('r \<Rightarrow> 'i::linorder) \<Rightarrow> 'r \<Rightarrow> LoadState \<Rightarrow> 'r backup \<Rightarrow> 'r backup" where
  "backup_save key row st b =
     (let i = lower_bound key (brows b) (key row) in
      if \<not> found_at key (brows b) (key row) i
      then b\<lparr>brows := insert_at i row (brows b), bstates := insert_at i st (bstates b)\<rparr>
      else b)"

definition backup_ok :: "('r \<Rightarrow> 'i::linorder) \<Rightarrow> 'r backup \<Rightarrow> bool" where
  "backup_ok key b \<longleftrightarrow> length (brows b) = length (bstates b) \<and> keys_sorted key (brows b)"

text \<open>The map from row ids to saved rows and states that the store stands for.\<close>

definition backup_view :: "('r \<Rightarrow> 'i::linorder) \<Rightarrow> 'r backup \<Rightarrow> 'i \<rightharpoonup> 'r \<times> LoadState" where
  "backup_view key b = kmap key (brows b) (bstates b)"

lemma backup_ok_empty [simp]: "backup_ok key backup_empty"
  by (simp add: backup_ok_def backup_empty_def)

lemma backup_view_empty [simp]: "backup_view key backup_empty = Map.empty"
  by (simp add: backup_view_def backup_empty_def)

lemma backup_get_view: "backup_ok key b \<Longrightarrow> backup_get key b rid = backup_view key b rid"
  by (simp add: backup_ok_def backup_view_def backup_get_def kmap_lower_bound)

lemma backup_dom: "backup_ok key b \<Longrightarrow> dom (backup_view key b) = key ` set (brows b)"
  by (simp add: backup_ok_def backup_view_def dom_kmap)

lemma backup_isEmpty_view: "backup_ok key b \<Longrightarrow> backup_isEmpty b \<longleftrightarrow> backup_view key b = Map.empty"
  using backup_dom[of key b] by (auto simp: backup_isEmpty_def backup_view_def)

lemma backup_view_mem:
  "backup_ok key b \<Longrightarrow> found_at key (brows b) rid (lower_bound key (brows b) rid) \<longleftrightarrow> rid \<in> dom (backup_view key b)"
  by (simp add: backup_dom backup_ok_def found_iff_mem)

lemma backup_remove_result: "backup_ok key b \<Longrightarrow> fst (backup_remove key rid b) = backup_view key b rid"
  by (simp add: backup_ok_def backup_view_def backup_remove_def kmap_lower_bound Let_def)

lemma backup_remove_ok [ok_intros]: "backup_ok key b \<Longrightarrow> backup_ok key (snd (backup_remove key rid b))"
  by (auto simp: backup_ok_def backup_remove_def Let_def found_at_def keys_sorted_remove_at)

lemma backup_remove_view:
  assumes "backup_ok key b"
  shows "backup_view key (snd (backup_remove key rid b)) = (backup_view key b)(rid := None)"
proof (cases "found_at key (brows b) rid (lower_bound key (brows b) rid)")
  case True
  with assms show ?thesis
    by (auto simp: backup_view_def backup_ok_def backup_remove_def found_at_def Let_def kmap_remove_at)
next
  case False
  then have "backup_view key b rid = None" using backup_view_mem[OF assms, of rid] by auto
  with False show ?thesis by (auto simp: backup_remove_def Let_def)
qed

lemma backup_save_ok [ok_intros]: "backup_ok key b \<Longrightarrow> backup_ok key (backup_save key row st b)"
  by (auto simp: backup_ok_def backup_save_def Let_def found_iff_mem keys_sorted_insert_at)

lemma backup_save_view:
  assumes "backup_ok key b"
  shows "backup_view key (backup_save key row st b) =
    (if key row \<in> dom (backup_view key b) then backup_view key b
     else (backup_view key b)(key row \<mapsto> (row, st)))"
proof (cases "key row \<in> dom (backup_view key b)")
  case True
  with backup_view_mem[OF assms, of "key row"] show ?thesis by (simp add: backup_save_def Let_def)
next
  case False
  then have "key row \<notin> key ` set (brows b)" using backup_dom[OF assms] by simp
  with assms False show ?thesis
    by (auto simp: backup_save_def Let_def backup_ok_def backup_view_def found_iff_mem kmap_insert_at)
qed

subsection \<open>The contract of the store\<close>

text \<open>
  What the table relies on: lookups read an abstract map, \<open>save\<close> never replaces what was saved
  first, \<open>remove\<close> hands back what it takes out.
\<close>

locale backup_store =
  fixes ok :: "'b \<Rightarrow> bool"
    and view :: "'b \<Rightarrow> 'i \<rightharpoonup> 'r \<times> LoadState"
    and key :: "'r \<Rightarrow> 'i"
    and get :: "'b \<Rightarrow> 'i \<Rightarrow> ('r \<times> LoadState) option"
    and save :: "'r \<Rightarrow> LoadState \<Rightarrow> 'b \<Rightarrow> 'b"
    and remove :: "'i \<Rightarrow> 'b \<Rightarrow> ('r \<times> LoadState) option \<times> 'b"
  assumes get_view: "ok b \<Longrightarrow> get b i = view b i"
    and save_ok: "ok b \<Longrightarrow> ok (save r s b)"
    and save_view: "ok b \<Longrightarrow> view (save r s b) =
      (if key r \<in> dom (view b) then view b else (view b)(key r \<mapsto> (r, s)))"
    and remove_ok: "ok b \<Longrightarrow> ok (snd (remove i b))"
    and remove_result: "ok b \<Longrightarrow> fst (remove i b) = view b i"
    and remove_view: "ok b \<Longrightarrow> view (snd (remove i b)) = (view b)(i := None)"
begin

lemma first_save_wins:
  "ok b \<Longrightarrow> view b (key r) = None \<Longrightarrow> key r' = key r \<Longrightarrow>
     get (save r' s' (save r s b)) (key r) = Some (r, s)"
  by (simp add: get_view save_ok save_view dom_def)

lemma remove_saved:
  assumes "ok b" "view b (key r) = None"
  shows "fst (remove (key r) (save r s b)) = Some (r, s)"
    and "view (snd (remove (key r) (save r s b))) = view b"
proof -
  have "view (save r s b) = (view b)(key r \<mapsto> (r, s))" using assms by (simp add: save_view dom_def)
  then show "fst (remove (key r) (save r s b)) = Some (r, s)"
    and "view (snd (remove (key r) (save r s b))) = view b"
    using assms by (simp_all add: remove_result remove_view save_ok fun_upd_idem)
qed

lemma save_other: "ok b \<Longrightarrow> i \<noteq> key r \<Longrightarrow> get (save r s b) i = get b i"
  by (simp add: get_view save_ok save_view)

lemma get_removed: "ok b \<Longrightarrow> get (snd (remove i b)) j = (if j = i then None else get b j)"
  by (simp add: get_view remove_ok remove_view)

text \<open>Any sequence of saves over an empty store keeps, for every id, the first row saved.\<close>

lemma saves_view:
  assumes "ok b"
  shows "ok (fold (\<lambda>(r, s). save r s) rs b) \<and>
    view (fold (\<lambda>(r, s). save r s) rs b) = map_of (map (\<lambda>(r, s). (key r, (r, s))) rs) ++ view b"
  using assms
proof (induction rs arbitrary: b)
  case (Cons rs0 rs)
  obtain r s where rs0: "rs0 = (r, s)" by (cases rs0)
  have "map_of (map (\<lambda>(r, s). (key r, (r, s))) rs) ++ view (save r s b) =
      map_of (map (\<lambda>(r, s). (key r, (r, s))) (rs0 # rs)) ++ view b"
    using Cons.prems by (auto simp: rs0 save_view map_add_def fun_eq_iff split: option.splits)
  with Cons.IH[OF save_ok[OF Cons.prems]] show ?case by (simp add: rs0 fun_upd_def)
qed simp

end

interpretation store: backup_store
  "backup_ok key" "backup_view key" key "backup_get key" "backup_save key" "backup_remove key"
  for key :: "'r \<Rightarrow> 'i::linorder"
  by unfold_locales
    (simp_all add: backup_get_view backup_save_ok backup_save_view backup_remove_ok
      backup_remove_result backup_remove_view)

end
