(* ===== verification/TableState.thy ===== *)
theory TableState
  imports TableSupport
begin

text \<open>
  The state of a table, \<open>AbstractTable<Row>\<close> of \<open>cpp/AbstractTable.hpp\<close>, what a row type brings
  to the template (record \<open>row_type\<close>), and the events a table gives out, in order: the hooks of
  \<open>TableRowOperations\<close>, the signals of \<open>AbstractTableInterface\<close>, the requests to the node with what
  runs on their replies, and the signals of the models.
\<close>

subsection \<open>Row types\<close>

text \<open>
  A virtual field (\<open>VirtualFieldInterface\<close>) has a state of type \<open>'v\<close>.  \<open>vchanged\<close> is \<open>rowChanged\<close>
  with the number of times it emitted the changed signal, \<open>vget\<close> is \<open>get\<close>.
\<close>

record ('r, 'v) virtual_field =
  vrole :: string
  vnew :: 'v
  vchanged :: "'r \<Rightarrow> LoadState \<Rightarrow> 'v \<Rightarrow> 'v \<times> nat"
  vget :: "'r \<Rightarrow> LoadState \<Rightarrow> 'v \<Rightarrow> qvariant \<times> LoadState"

text \<open>
  \<open>blankRow\<close> is \<open>Row row;\<close>, \<open>zeroRow\<close> is \<open>Row()\<close>, \<open>movedRow\<close> is what a move leaves behind.
  \<open>integralId\<close> holds, for an integral \<open>RowId\<close>, the values \<open>RowId()\<close> and \<open>BASE_DRAFT_ID\<close> and the
  function \<open>+ 1\<close>.
\<close>

record ('r, 'i, 'v) row_type =
  conversions :: qt
  rowTableName :: string
  getId :: "'r \<Rightarrow> 'i"
  setId :: "'i \<Rightarrow> 'r \<Rightarrow> 'r"
  blankRow :: 'r
  zeroRow :: 'r
  movedRow :: "'r \<Rightarrow> 'r"
  rowFields :: "'r field list"
  virtualFields :: "('r, 'v) virtual_field list"
  idOfVariant :: "qvariant \<Rightarrow> 'i"
  variantOfId :: "'i \<Rightarrow> qvariant"
  keyOfJournal :: "uint64 \<Rightarrow> 'i"
  boundText :: "'i \<Rightarrow> string"
  integralId :: "('i \<times> 'i \<times> ('i \<Rightarrow> 'i)) option"

subsection \<open>Events\<close>

datatype 'i request =
    RowRequest 'i
  | RowsRequest nat

datatype model_signal =
    DataChanged nat nat "nat list"
  | BeginInsertRows nat nat
  | EndInsertRows
  | BeginRemoveRows nat nat
  | EndRemoveRows

datatype ('r, 'i) event =
    RowsAdded "'r list"
  | RowLoading 'r
  | RowLoaded 'r
  | RowStale 'r
  | RowUpdated 'r 'r
  | RowDeleted 'r
  | RowDraftAdded 'r
  | RowDraftEdited 'r 'r
  | RowDraftDeleted 'r
  | LocalChangesReset
  | DraftChangesPending
  | PendingAddSettled 'i 'r
  | PendingEditSettled 'r 'r
  | PendingDeleteSettled 'r
  | DraftRowInvalidated 'r "'r option"
  | sigScopeChanged string
  | sigDraftEditInvalidated qvariant
  | sigPendingEditSettled qvariant_map qvariant_map
  | sigHasPendingEditsChanged bool
  | CallApi string string "'i request"
  | ModelSignal nat model_signal

subsection \<open>The table\<close>

text \<open>
  A model holds the ids it shows and, parallel to them, the virtual field tuples.  \<open>QSet<Model*>\<close>
  has no fixed order; \<open>models\<close> lists the models in the order the set happens to give.
\<close>

record ('i, 'v) model =
  modelKey :: nat
  modelIds :: "'i list"
  modelVirtualFields :: "'v list list"

record ('r, 'i, 'v) table =
  scope :: string
  tableAndScope :: string
  rowList :: "'r list"
  rowStates :: "LoadState list"
  locallyAddedRows :: "qvariant_map list"
  backups :: "'r backup"
  pendingEdits :: bool
  loadingRows :: "'i \<rightharpoonup> int"
  models :: "('i, 'v) model list"
  out :: "('r, 'i) event list"

definition emit :: "('r, 'i) event \<Rightarrow> ('r, 'i, 'v) table \<Rightarrow> ('r, 'i, 'v) table" where
  "emit e t = t\<lparr>out := out t @ [e]\<rparr>"

text \<open>\<open>tableAndScope\<close> is the name and the scope in brackets.\<close>

definition table_and_scope :: "string \<Rightarrow> string \<Rightarrow> string" where
  "table_and_scope nm sc = nm @ ''['' @ sc @ '']''"

definition new_table :: "('r, 'i, 'v) row_type \<Rightarrow> string \<Rightarrow> ('r, 'i, 'v) table" where
  "new_table T sc = \<lparr>scope = sc, tableAndScope = table_and_scope (rowTableName T) sc, rowList = [],
     rowStates = [], locallyAddedRows = [], backups = backup_empty, pendingEdits = False,
     loadingRows = Map.empty, models = [], out = []\<rparr>"

lemma emit_simps [simp]:
  "scope (emit e t) = scope t" "tableAndScope (emit e t) = tableAndScope t"
  "rowList (emit e t) = rowList t" "rowStates (emit e t) = rowStates t"
  "locallyAddedRows (emit e t) = locallyAddedRows t" "backups (emit e t) = backups t"
  "pendingEdits (emit e t) = pendingEdits t" "loadingRows (emit e t) = loadingRows t"
  "models (emit e t) = models t" "out (emit e t) = out t @ [e]"
  by (simp_all add: emit_def)

subsection \<open>Invariant and view\<close>

definition model_ok :: "('i::linorder, 'v) model \<Rightarrow> bool" where
  "model_ok m \<longleftrightarrow> length (modelIds m) = length (modelVirtualFields m) \<and> keys_sorted (\<lambda>i. i) (modelIds m)"

text \<open>Every list of the table is sorted without duplicates and parallel to its companion.\<close>

definition table_ok :: "('r, 'i::linorder, 'v) row_type \<Rightarrow> ('r, 'i, 'v) table \<Rightarrow> bool" where
  "table_ok T t \<longleftrightarrow> length (rowList t) = length (rowStates t) \<and> keys_sorted (getId T) (rowList t) \<and>
     backup_ok (getId T) (backups t) \<and> (\<forall>m \<in> set (models t). model_ok m)"

text \<open>The rows as a map from ids to rows and load states.\<close>

definition table_view :: "('r, 'i::linorder, 'v) row_type \<Rightarrow> ('r, 'i, 'v) table \<Rightarrow> 'i \<rightharpoonup> 'r \<times> LoadState" where
  "table_view T t = kmap (getId T) (rowList t) (rowStates t)"

definition row_pos :: "('r, 'i::linorder, 'v) row_type \<Rightarrow> 'i \<Rightarrow> ('r, 'i, 'v) table \<Rightarrow> nat" where
  "row_pos T i t = lower_bound (getId T) (rowList t) i"

definition row_found :: "('r, 'i::linorder, 'v) row_type \<Rightarrow> 'i \<Rightarrow> ('r, 'i, 'v) table \<Rightarrow> bool" where
  "row_found T i t \<longleftrightarrow> found_at (getId T) (rowList t) i (row_pos T i t)"

definition set_row :: "nat \<Rightarrow> 'r \<Rightarrow> ('r, 'i, 'v) table \<Rightarrow> ('r, 'i, 'v) table" where
  "set_row p r t = t\<lparr>rowList := (rowList t)[p := r]\<rparr>"

definition set_state :: "nat \<Rightarrow> LoadState \<Rightarrow> ('r, 'i, 'v) table \<Rightarrow> ('r, 'i, 'v) table" where
  "set_state p s t = t\<lparr>rowStates := (rowStates t)[p := s]\<rparr>"

definition insert_row :: "nat \<Rightarrow> 'r \<Rightarrow> LoadState \<Rightarrow> ('r, 'i, 'v) table \<Rightarrow> ('r, 'i, 'v) table" where
  "insert_row p r s t =
     t\<lparr>rowList := insert_at p r (rowList t), rowStates := insert_at p s (rowStates t)\<rparr>"

definition erase_row :: "nat \<Rightarrow> ('r, 'i, 'v) table \<Rightarrow> ('r, 'i, 'v) table" where
  "erase_row p t = t\<lparr>rowList := remove_at p (rowList t), rowStates := remove_at p (rowStates t)\<rparr>"

lemma row_edit_simps [simp]:
  "rowStates (set_row p r t) = rowStates t" "rowList (set_row p r t) = (rowList t)[p := r]"
  "rowList (set_state p s t) = rowList t" "rowStates (set_state p s t) = (rowStates t)[p := s]"
  "rowList (insert_row p r s t) = insert_at p r (rowList t)"
  "rowStates (insert_row p r s t) = insert_at p s (rowStates t)"
  "rowList (erase_row p t) = remove_at p (rowList t)"
  "rowStates (erase_row p t) = remove_at p (rowStates t)"
  by (simp_all add: set_row_def set_state_def insert_row_def erase_row_def)

lemma row_edit_frame [simp]:
  "backups (set_row p r t) = backups t" "models (set_row p r t) = models t"
  "backups (set_state p s t) = backups t" "models (set_state p s t) = models t"
  "backups (insert_row p r s t) = backups t" "models (insert_row p r s t) = models t"
  "backups (erase_row p t) = backups t" "models (erase_row p t) = models t"
  "pendingEdits (set_row p r t) = pendingEdits t" "pendingEdits (set_state p s t) = pendingEdits t"
  "pendingEdits (insert_row p r s t) = pendingEdits t" "pendingEdits (erase_row p t) = pendingEdits t"
  "locallyAddedRows (set_row p r t) = locallyAddedRows t"
  "locallyAddedRows (set_state p s t) = locallyAddedRows t"
  "locallyAddedRows (insert_row p r s t) = locallyAddedRows t"
  "locallyAddedRows (erase_row p t) = locallyAddedRows t"
  "loadingRows (set_row p r t) = loadingRows t" "loadingRows (set_state p s t) = loadingRows t"
  "loadingRows (insert_row p r s t) = loadingRows t" "loadingRows (erase_row p t) = loadingRows t"
  "scope (set_row p r t) = scope t" "scope (set_state p s t) = scope t"
  "scope (insert_row p r s t) = scope t" "scope (erase_row p t) = scope t"
  "out (set_row p r t) = out t" "out (set_state p s t) = out t"
  "out (insert_row p r s t) = out t" "out (erase_row p t) = out t"
  by (simp_all add: set_row_def set_state_def insert_row_def erase_row_def)

lemma new_table_ok: "table_ok T (new_table T sc)"
  by (simp add: table_ok_def new_table_def)

lemma table_view_new: "table_view T (new_table T sc) = Map.empty"
  by (simp add: table_view_def new_table_def)

lemma table_view_cong:
  "rowList t' = rowList t \<Longrightarrow> rowStates t' = rowStates t \<Longrightarrow> table_view T t' = table_view T t"
  by (simp add: table_view_def)

lemma table_ok_cong:
  "rowList t' = rowList t \<Longrightarrow> rowStates t' = rowStates t \<Longrightarrow> backups t' = backups t \<Longrightarrow>
     models t' = models t \<Longrightarrow> table_ok T t' = table_ok T t"
  by (simp add: table_ok_def)

lemma emit_ok [simp]: "table_ok T (emit e t) = table_ok T t" "table_view T (emit e t) = table_view T t"
  by (simp_all add: table_ok_def table_view_def)

lemma table_okD:
  assumes "table_ok T t"
  shows "length (rowStates t) = length (rowList t)" "keys_sorted (getId T) (rowList t)"
    "backup_ok (getId T) (backups t)" "\<And>m. m \<in> set (models t) \<Longrightarrow> model_ok m"
  using assms by (auto simp: table_ok_def)

lemma dom_table_view: "table_ok T t \<Longrightarrow> dom (table_view T t) = getId T ` set (rowList t)"
  by (simp add: table_ok_def table_view_def dom_kmap)

lemma row_found_iff: "table_ok T t \<Longrightarrow> row_found T i t \<longleftrightarrow> i \<in> dom (table_view T t)"
  by (simp add: row_found_def row_pos_def found_iff_mem dom_table_view table_okD)

lemma row_found_at:
  assumes "row_found T i t"
  shows "row_pos T i t < length (rowList t)" "getId T (rowList t ! row_pos T i t) = i"
  using assms by (auto simp: row_found_def found_at_def)

lemma row_pos_le [simp]: "row_pos T i t \<le> length (rowList t)"
  by (simp add: row_pos_def)

lemma table_view_lookup:
  assumes "table_ok T t"
  shows "table_view T t i =
    (if row_found T i t then Some (rowList t ! row_pos T i t, rowStates t ! row_pos T i t) else None)"
  using kmap_lower_bound[of "getId T" "rowList t" "rowStates t" i] table_okD[OF assms]
  by (simp add: table_view_def row_found_def row_pos_def Let_def)

lemma table_view_not_found: "table_ok T t \<Longrightarrow> \<not> row_found T i t \<Longrightarrow> table_view T t i = None"
  by (simp add: table_view_lookup)

text \<open>The four ways the code changes a row, on the map.\<close>

lemma set_row_ok [ok_intros]:
  "table_ok T t \<Longrightarrow> p < length (rowList t) \<Longrightarrow> getId T r = getId T (rowList t ! p) \<Longrightarrow> table_ok T (set_row p r t)"
  by (simp add: table_ok_def keys_sorted_update)

lemma set_state_ok [ok_intros]: "table_ok T t \<Longrightarrow> table_ok T (set_state p s t)"
  by (simp add: table_ok_def)

lemma insert_row_ok [ok_intros]:
  "table_ok T t \<Longrightarrow> \<not> row_found T (getId T r) t \<Longrightarrow> table_ok T (insert_row (row_pos T (getId T r) t) r s t)"
  by (auto simp: table_ok_def row_found_def row_pos_def found_iff_mem keys_sorted_insert_at)

lemma erase_row_ok [ok_intros]:
  "table_ok T t \<Longrightarrow> p < length (rowList t) \<Longrightarrow> table_ok T (erase_row p t)"
  by (simp add: table_ok_def keys_sorted_remove_at)

lemma set_row_state_view:
  assumes "table_ok T t" "p < length (rowList t)" "getId T r = getId T (rowList t ! p)"
  shows "table_view T (set_state p s (set_row p r t)) = (table_view T t)(getId T r \<mapsto> (r, s))"
  using assms table_okD[OF assms(1)] by (simp add: table_view_def kmap_update)

lemma set_row_view:
  assumes "table_ok T t" "p < length (rowList t)" "getId T r = getId T (rowList t ! p)"
  shows "table_view T (set_row p r t) = (table_view T t)(getId T r \<mapsto> (r, rowStates t ! p))"
  using set_row_state_view[OF assms, of "rowStates t ! p"]
  by (simp add: table_view_def)

lemma set_state_view:
  assumes "table_ok T t" "p < length (rowList t)"
  shows "table_view T (set_state p s t) =
    (table_view T t)(getId T (rowList t ! p) \<mapsto> (rowList t ! p, s))"
  using set_row_state_view[OF assms refl, of s] by (simp add: table_view_def)

lemma insert_row_view:
  assumes "table_ok T t" "\<not> row_found T (getId T r) t"
  shows "table_view T (insert_row p r s t) = (table_view T t)(getId T r \<mapsto> (r, s))"
proof -
  have "getId T r \<notin> getId T ` set (rowList t)"
    using assms row_found_iff[OF assms(1)] dom_table_view[OF assms(1)] by simp
  then show ?thesis using table_okD[OF assms(1)] by (simp add: table_view_def kmap_insert_at)
qed

lemma erase_row_view:
  assumes "table_ok T t" "p < length (rowList t)"
  shows "table_view T (erase_row p t) = (table_view T t)(getId T (rowList t ! p) := None)"
  using assms table_okD[OF assms(1)] by (simp add: table_view_def kmap_remove_at)

end
