(* ===== verification/TableModel.thy ===== *)
theory TableModel
  imports TableState
begin

text \<open>
  The list models a table hands to QML, \<open>AbstractTable<Row>::Model\<close>.  A model keeps the ids of the
  rows it shows, sorted, and one tuple of virtual fields per id.  Each operation gives the changed
  model and the signals it emits, in order.
\<close>

subsection \<open>Roles\<close>

definition LOAD_STATE_ROLE :: nat where "LOAD_STATE_ROLE = 0"
definition PHYSICAL_ROLE_BASE :: nat where "PHYSICAL_ROLE_BASE = 1"

definition PHYSICAL_ROLE_COUNT :: "('r, 'i, 'v) row_type \<Rightarrow> nat" where
  "PHYSICAL_ROLE_COUNT T = tl_length (rowFields T)"

definition VIRTUAL_ROLE_BASE :: "('r, 'i, 'v) row_type \<Rightarrow> nat" where
  "VIRTUAL_ROLE_BASE T = PHYSICAL_ROLE_BASE + PHYSICAL_ROLE_COUNT T"

definition VIRTUAL_ROLE_COUNT :: "('r, 'i, 'v) row_type \<Rightarrow> nat" where
  "VIRTUAL_ROLE_COUNT T = tl_length (virtualFields T)"

definition LOAD_STATE_ROLE_NAME :: string where "LOAD_STATE_ROLE_NAME = ''loadState''"

text \<open>\<open>result[result.size()] = name\<close>: the next free number.\<close>

definition roleNames :: "('r, 'i, 'v) row_type \<Rightarrow> (nat \<times> string) list" where
  "roleNames T =
     (let result = [(LOAD_STATE_ROLE, LOAD_STATE_ROLE_NAME)];
          result = tl_for_each (rowFields T) (\<lambda>m res. res @ [(tl_length res, fname m)]) result
      in tl_for_each (virtualFields T) (\<lambda>f res. res @ [(tl_length res, vrole f)]) result)"

subsection \<open>Virtual fields\<close>

definition constructVirtualFieldTuple :: "('r, 'i, 'v) row_type \<Rightarrow> 'v list" where
  "constructVirtualFieldTuple T = tl_make_tuple vnew (virtualFields T)"

text \<open>
  Every virtual field hears of the row; a field that emits its changed signal makes the model emit
  \<open>dataChanged\<close> for the row's position and the field's role.
\<close>

definition updateVirtualRoles ::
  "('r, 'i::linorder, 'v) row_type \<Rightarrow> 'i list \<Rightarrow> 'r \<Rightarrow> LoadState \<Rightarrow> 'v list \<Rightarrow> 'v list \<times> model_signal list" where
  "updateVirtualRoles T ids row st vs =
     tl_for_each (tl_make_sequence (tl_length (virtualFields T)))
       (\<lambda>n (vs, sigs).
          let role = VIRTUAL_ROLE_BASE T + n;
              pos = lower_bound (\<lambda>i. i) ids (getId T row);
              (v, k) = vchanged (virtualFields T ! n) row st (vs ! n)
          in (vs[n := v], sigs @ replicate k (DataChanged pos pos [role])))
       (vs, [])"

lemma updateVirtualRoles_length [simp]: "length (fst (updateVirtualRoles T ids r s vs)) = length vs"
proof -
  have "length (fst (fold (\<lambda>n (vs, sigs).
      let role = VIRTUAL_ROLE_BASE T + n; pos = lower_bound (\<lambda>i. i) ids (getId T r);
          (v, k) = vchanged (virtualFields T ! n) r s (vs ! n)
      in (vs[n := v], sigs @ replicate k (DataChanged pos pos [role]))) ns (vs, sigs))) = length vs"
    for ns vs sigs
    by (induction ns arbitrary: vs sigs) (auto simp: Let_def split: prod.splits)
  then show ?thesis by (simp add: updateVirtualRoles_def tl_for_each_eq)
qed

subsection \<open>updateRows, deleteRow, markRowStale\<close>

text \<open>One row of \<open>updateRows\<close> at the end of the model.\<close>

definition model_append ::
  "('r, 'i::linorder, 'v) row_type \<Rightarrow> 'r \<Rightarrow> ('i, 'v) model \<Rightarrow> ('i, 'v) model \<times> model_signal list" where
  "model_append T r m =
     (let ids = modelIds m @ [getId T r];
          (vs, sigs) = updateVirtualRoles T ids r Loaded (constructVirtualFieldTuple T)
      in (m\<lparr>modelIds := ids, modelVirtualFields := modelVirtualFields m @ [vs]\<rparr>, sigs))"

text \<open>One row at position \<open>pos\<close>: an update if the id is there, otherwise an insertion.\<close>

definition model_place ::
  "('r, 'i::linorder, 'v) row_type \<Rightarrow> 'r \<Rightarrow> nat \<Rightarrow> ('i, 'v) model \<Rightarrow> ('i, 'v) model \<times> model_signal list" where
  "model_place T r pos m =
     (if found_at (\<lambda>i. i) (modelIds m) (getId T r) pos then
        let (vs, sigs) = updateVirtualRoles T (modelIds m) r Loaded (modelVirtualFields m ! pos)
        in (m\<lparr>modelVirtualFields := (modelVirtualFields m)[pos := vs]\<rparr>, sigs @ [DataChanged pos pos []])
      else
        let ids = insert_at pos (getId T r) (modelIds m);
            (vs, sigs) = updateVirtualRoles T ids r Loaded (constructVirtualFieldTuple T)
        in (m\<lparr>modelIds := ids, modelVirtualFields := insert_at pos vs (modelVirtualFields m)\<rparr>,
            BeginInsertRows pos pos # sigs @ [EndInsertRows]))"

fun model_merge ::
  "('r, 'i::linorder, 'v) row_type \<Rightarrow> 'r list \<Rightarrow> nat \<Rightarrow> ('i, 'v) model \<Rightarrow> ('i, 'v) model \<times> model_signal list" where
  "model_merge T [] pos m = (m, [])"
| "model_merge T [r] pos m = model_place T r pos m"
| "model_merge T (r # r' # rs) pos m =
     (let (m1, sigs) = model_place T r pos m;
          pos' = lower_bound_from pos (\<lambda>i. i) (modelIds m1) (getId T r');
          (m2, sigs') = model_merge T (r' # rs) pos' m1
      in (m2, sigs @ sigs'))"

fun model_append_all ::
  "('r, 'i::linorder, 'v) row_type \<Rightarrow> 'r list \<Rightarrow> ('i, 'v) model \<Rightarrow> ('i, 'v) model \<times> model_signal list" where
  "model_append_all T [] m = (m, [])"
| "model_append_all T (r # rs) m =
     (let (m1, sigs) = model_append T r m; (m2, sigs') = model_append_all T rs m1 in (m2, sigs @ sigs'))"

definition updateRows ::
  "('r, 'i::linorder, 'v) row_type \<Rightarrow> 'r list \<Rightarrow> ('i, 'v) model \<Rightarrow> ('i, 'v) model \<times> model_signal list" where
  "updateRows T rows m =
     (if rows = [] then (m, [])
      else let pos = lower_bound (\<lambda>i. i) (modelIds m) (getId T (hd rows)) in
        if pos = length (modelIds m) then
          let firstRowNumber = length (modelIds m); (m', sigs) = model_append_all T rows m
          in (m', BeginInsertRows firstRowNumber (firstRowNumber + length rows - 1) # sigs @ [EndInsertRows])
        else model_merge T rows pos m)"

definition model_deleteRow :: "'i::linorder \<Rightarrow> ('i, 'v) model \<Rightarrow> ('i, 'v) model \<times> model_signal list" where
  "model_deleteRow i m =
     (let pos = lower_bound (\<lambda>i. i) (modelIds m) i in
      if found_at (\<lambda>i. i) (modelIds m) i pos then
        (m\<lparr>modelIds := remove_at pos (modelIds m), modelVirtualFields := remove_at pos (modelVirtualFields m)\<rparr>,
         [BeginRemoveRows pos pos, EndRemoveRows])
      else (m, []))"

text \<open>The signal of \<open>markRowStale\<close>; the refresh that follows is the table's.\<close>

definition markRowStale_signals :: "'i::linorder \<Rightarrow> ('i, 'v) model \<Rightarrow> model_signal list" where
  "markRowStale_signals i m =
     (let pos = lower_bound (\<lambda>i. i) (modelIds m) i in
      if found_at (\<lambda>i. i) (modelIds m) i pos then [DataChanged pos pos [LOAD_STATE_ROLE]] else [])"

subsection \<open>Roles: proofs\<close>

lemma roleNames_eq:
  "roleNames T = zip [0..<VIRTUAL_ROLE_BASE T + VIRTUAL_ROLE_COUNT T]
     (LOAD_STATE_ROLE_NAME # map fname (rowFields T) @ map vrole (virtualFields T))"
proof -
  have step: "fold (\<lambda>m res. res @ [(tl_length res, g m)]) ms (zip [0..<length xs] xs) =
      zip [0..<length xs + length ms] (xs @ map g ms)" for g :: "'x \<Rightarrow> string" and ms and xs :: "string list"
  proof (induction ms arbitrary: xs)
    case (Cons m ms)
    from Cons[of "xs @ [g m]"] show ?case by simp
  qed simp
  have start: "[(LOAD_STATE_ROLE, LOAD_STATE_ROLE_NAME)] = zip [0..<length [LOAD_STATE_ROLE_NAME]] [LOAD_STATE_ROLE_NAME]"
    by (simp add: LOAD_STATE_ROLE_def)
  show ?thesis
    unfolding roleNames_def Let_def tl_for_each_eq start step
    using step[of vrole "virtualFields T" "LOAD_STATE_ROLE_NAME # map fname (rowFields T)"]
    by (simp add: VIRTUAL_ROLE_BASE_def VIRTUAL_ROLE_COUNT_def PHYSICAL_ROLE_BASE_def PHYSICAL_ROLE_COUNT_def)
qed

subsection \<open>The model's invariant\<close>

lemma model_okD:
  assumes "model_ok m"
  shows "length (modelVirtualFields m) = length (modelIds m)" "keys_sorted (\<lambda>i. i) (modelIds m)"
  using assms by (auto simp: model_ok_def)

lemma model_append_fields:
  "modelIds (fst (model_append T r m)) = modelIds m @ [getId T r]"
  "length (modelVirtualFields (fst (model_append T r m))) = Suc (length (modelVirtualFields m))"
  "modelKey (fst (model_append T r m)) = modelKey m"
  by (simp_all add: model_append_def Let_def split: prod.splits)

lemma model_append_all_fields:
  "modelIds (fst (model_append_all T rs m)) = modelIds m @ map (getId T) rs"
  "length (modelVirtualFields (fst (model_append_all T rs m))) = length (modelVirtualFields m) + length rs"
  "modelKey (fst (model_append_all T rs m)) = modelKey m"
proof (induction rs arbitrary: m)
  case (Cons r rs)
  { case 1 then show ?case using Cons(1)[of "fst (model_append T r m)"] by (simp add: Let_def split_beta model_append_fields) }
  { case 2 then show ?case using Cons(2)[of "fst (model_append T r m)"] by (simp add: Let_def split_beta model_append_fields) }
  { case 3 then show ?case using Cons(3)[of "fst (model_append T r m)"] by (simp add: Let_def split_beta model_append_fields) }
qed simp_all

lemma model_place_ids:
  "modelIds (fst (model_place T r pos m)) =
     (if found_at (\<lambda>i. i) (modelIds m) (getId T r) pos then modelIds m else insert_at pos (getId T r) (modelIds m))"
  "modelKey (fst (model_place T r pos m)) = modelKey m"
  by (simp_all add: model_place_def Let_def split_beta)

lemma model_place_ok:
  assumes "model_ok m" "pos = lower_bound (\<lambda>i. i) (modelIds m) (getId T r)"
  shows "model_ok (fst (model_place T r pos m))"
    and "set (modelIds (fst (model_place T r pos m))) = insert (getId T r) (set (modelIds m))"
    and "found_at (\<lambda>i. i) (modelIds (fst (model_place T r pos m))) (getId T r) pos"
proof -
  let ?f = "found_at (\<lambda>i. i) (modelIds m) (getId T r) pos"
  have f: "?f \<longleftrightarrow> getId T r \<in> set (modelIds m)"
    using found_iff_mem[OF model_okD(2)[OF assms(1)], of "getId T r"] by (simp add: assms(2))
  have len: "length (modelVirtualFields (fst (model_place T r pos m))) =
      (if ?f then length (modelVirtualFields m) else Suc (length (modelVirtualFields m)))"
    by (simp add: model_place_def Let_def split_beta)
  have sorted: "keys_sorted (\<lambda>i. i) (insert_at pos (getId T r) (modelIds m))" if "\<not> ?f"
  proof -
    have "getId T r \<notin> set (modelIds m)" using that f by blast
    then show ?thesis
      using keys_sorted_insert_at[OF model_okD(2)[OF assms(1)], of "getId T r"] assms(2) by simp
  qed
  show "model_ok (fst (model_place T r pos m))"
    using model_okD[OF assms(1)] sorted len by (simp add: model_ok_def model_place_ids)
  show "set (modelIds (fst (model_place T r pos m))) = insert (getId T r) (set (modelIds m))"
    using f by (auto simp: model_place_ids)
  show "found_at (\<lambda>i. i) (modelIds (fst (model_place T r pos m))) (getId T r) pos"
    by (simp add: model_place_ids assms(2) found_at_def le_imp_less_Suc)
qed

text \<open>Searching on from the last position finds what a search of the whole list finds.\<close>

lemma lower_bound_from_eq:
  assumes "keys_sorted key xs" "start \<le> length xs" "\<And>j. j < start \<Longrightarrow> key (xs ! j) < k"
  shows "lower_bound_from start key xs k = lower_bound key xs k"
proof (rule linorder_cases)
  assume less: "lower_bound_from start key xs k < lower_bound key xs k"
  let ?p = "lower_bound_from start key xs k"
  have "key (xs ! ?p) < k"
    using lower_bound_from_spec(3)[OF assms(1), of 0 ?p k] less by (simp add: lower_bound_def)
  moreover have "k \<le> key (xs ! ?p)"
    using lower_bound_from_spec(4)[OF assms(1,2), where k = k and j = ?p] less lower_bound_le[of key xs k] by simp
  ultimately show ?thesis by simp
next
  assume less: "lower_bound key xs k < lower_bound_from start key xs k"
  let ?p = "lower_bound key xs k"
  have p: "?p < length xs" using less lower_bound_from_spec(2)[OF assms(1,2), of k] by simp
  then have "k \<le> key (xs ! ?p)"
    using lower_bound_from_spec(4)[OF assms(1), of 0 k ?p] by (simp add: lower_bound_def)
  moreover have "key (xs ! ?p) < k"
    using lower_bound_from_spec(3)[OF assms(1,2), where k = k and j = ?p] less assms(3) by (cases "start \<le> ?p") auto
  ultimately show ?thesis by simp
qed

lemma lower_bound_from_next:
  assumes "keys_sorted key xs" "found_at key xs k pos" "k < k'"
  shows "lower_bound_from pos key xs k' = lower_bound key xs k'"
proof (rule lower_bound_from_eq)
  show "pos \<le> length xs" using assms(2) by (simp add: found_at_def)
  fix j assume "j < pos"
  then show "key (xs ! j) < k'"
    using assms keys_sorted_nth_less[OF assms(1), of j pos] by (auto simp: found_at_def)
qed (fact assms(1))

lemma model_merge_ok:
  assumes "model_ok m" "keys_sorted (getId T) rs" "rs \<noteq> []"
    "pos = lower_bound (\<lambda>i. i) (modelIds m) (getId T (hd rs))"
  shows "model_ok (fst (model_merge T rs pos m)) \<and>
    set (modelIds (fst (model_merge T rs pos m))) = set (modelIds m) \<union> getId T ` set rs \<and>
    modelKey (fst (model_merge T rs pos m)) = modelKey m"
  using assms
proof (induction T rs pos m rule: model_merge.induct)
  case (2 T r pos m)
  then show ?case using model_place_ok[of m pos T r] by (simp add: model_place_ids)
next
  case (3 T r r' rs pos m)
  define m1 where "m1 = fst (model_place T r pos m)"
  have place: "model_ok m1" "set (modelIds m1) = insert (getId T r) (set (modelIds m))"
    "found_at (\<lambda>i. i) (modelIds m1) (getId T r) pos"
    using model_place_ok[of m pos T r] 3(2,5) by (simp_all add: m1_def)
  have less: "getId T r < getId T r'" using 3(3) by (simp add: keys_sorted_Cons)
  have pos: "lower_bound_from pos (\<lambda>i. i) (modelIds m1) (getId T r') = lower_bound (\<lambda>i. i) (modelIds m1) (getId T r')"
    by (rule lower_bound_from_next[OF model_okD(2)[OF place(1)] place(3) less])
  have sorted: "keys_sorted (getId T) (r' # rs)" using 3(3) by (simp add: keys_sorted_Cons)
  have IH: "model_ok (fst (model_merge T (r' # rs) (lower_bound (\<lambda>i. i) (modelIds m1) (getId T r')) m1)) \<and>
      set (modelIds (fst (model_merge T (r' # rs) (lower_bound (\<lambda>i. i) (modelIds m1) (getId T r')) m1))) =
        set (modelIds m1) \<union> getId T ` set (r' # rs) \<and>
      modelKey (fst (model_merge T (r' # rs) (lower_bound (\<lambda>i. i) (modelIds m1) (getId T r')) m1)) = modelKey m1"
    using 3(1)[OF refl prod.collapse refl] place(1) sorted pos by (simp add: m1_def)
  have key: "modelKey m1 = modelKey m" by (simp add: m1_def model_place_ids)
  show ?case using IH place(2) key
    by (simp add: Let_def split_beta m1_def[symmetric] pos insert_commute)
qed simp

lemma updateRows_ok:
  assumes "model_ok m" "keys_sorted (getId T) rs"
  shows "model_ok (fst (updateRows T rs m))"
    and "set (modelIds (fst (updateRows T rs m))) = set (modelIds m) \<union> getId T ` set rs"
    and "modelKey (fst (updateRows T rs m)) = modelKey m"
proof -
  have "model_ok (fst (updateRows T rs m)) \<and>
    set (modelIds (fst (updateRows T rs m))) = set (modelIds m) \<union> getId T ` set rs \<and>
    modelKey (fst (updateRows T rs m)) = modelKey m"
  proof (cases "rs = [] \<or> lower_bound (\<lambda>i. i) (modelIds m) (getId T (hd rs)) \<noteq> length (modelIds m)")
    case True
    then show ?thesis
      using assms model_merge_ok[OF assms, OF _ refl] by (auto simp: updateRows_def Let_def)
  next
    case False
    then have ne: "rs \<noteq> []" and pos: "lower_bound (\<lambda>i. i) (modelIds m) (getId T (hd rs)) = length (modelIds m)"
      by auto
    have "i < getId T r" if "i \<in> set (modelIds m)" "r \<in> set rs" for i r
    proof -
      have "i < getId T (hd rs)"
        using lower_bound_before[OF model_okD(2)[OF assms(1)], of i "getId T (hd rs)"] that pos by simp
      also have "getId T (hd rs) \<le> getId T r"
        using assms(2) ne that(2) by (cases rs) (auto simp: keys_sorted_Cons less_imp_le)
      finally show ?thesis .
    qed
    moreover have "keys_sorted (\<lambda>i. i) (map (getId T) rs)" using assms(2) by (simp add: keys_sorted_def)
    ultimately have "keys_sorted (\<lambda>i. i) (modelIds m @ map (getId T) rs)"
      using model_okD(2)[OF assms(1)] by (simp add: keys_sorted_append)
    with ne pos model_okD[OF assms(1)] show ?thesis
      by (simp add: updateRows_def Let_def split_beta model_append_all_fields model_ok_def)
  qed
  then show "model_ok (fst (updateRows T rs m))"
    and "set (modelIds (fst (updateRows T rs m))) = set (modelIds m) \<union> getId T ` set rs"
    and "modelKey (fst (updateRows T rs m)) = modelKey m" by auto
qed

lemma set_remove_at_sorted:
  assumes "keys_sorted (\<lambda>i. i) xs" "found_at (\<lambda>i. i) xs k p"
  shows "set (remove_at p xs) = set xs - {k}"
proof -
  have p: "p < length xs" "xs ! p = k" using assms(2) by (auto simp: found_at_def)
  define as bs where as_bs_def: "as = take p xs" "bs = drop (Suc p) xs"
  have xs: "xs = as @ k # bs" using split_at_nth[OF p(1)] p(2) by (simp add: as_bs_def)
  have "distinct xs" using keys_sorted_distinct[OF assms(1)] by simp
  then have "k \<notin> set as" "k \<notin> set bs" unfolding xs by auto
  moreover have "remove_at p xs = as @ bs" by (simp add: remove_at_def as_bs_def)
  ultimately show ?thesis using xs by auto
qed

lemma model_deleteRow_ok:
  assumes "model_ok m"
  shows "model_ok (fst (model_deleteRow i m))"
    and "set (modelIds (fst (model_deleteRow i m))) = set (modelIds m) - {i}"
    and "modelKey (fst (model_deleteRow i m)) = modelKey m"
proof -
  let ?f = "found_at (\<lambda>i. i) (modelIds m) i (lower_bound (\<lambda>i. i) (modelIds m) i)"
  have f: "?f \<longleftrightarrow> i \<in> set (modelIds m)" using found_iff_mem[OF model_okD(2)[OF assms], of i] by simp
  have less: "lower_bound (\<lambda>i. i) (modelIds m) i < length (modelIds m)" if ?f
    using that by (simp add: found_at_def)
  show "model_ok (fst (model_deleteRow i m))"
    using assms less by (auto simp: model_deleteRow_def Let_def model_ok_def keys_sorted_remove_at)
  show "set (modelIds (fst (model_deleteRow i m))) = set (modelIds m) - {i}"
    using f set_remove_at_sorted[OF model_okD(2)[OF assms]] by (auto simp: model_deleteRow_def Let_def)
  show "modelKey (fst (model_deleteRow i m)) = modelKey m"
    by (simp add: model_deleteRow_def Let_def)
qed

end
