(* ===== verification/EosioName.thy ===== *)
theory EosioName
  imports Prelude
begin

text \<open>
  \<open>cpp/EosioName.hpp\<close> and the \<open>name\<close> class of \<open>cpp/KeyManager.cpp\<close>: the 64-bit
  packing of EOSIO names.  Twelve characters of five bits fill the high bits from the top, a
  thirteenth of four bits the low end.  The theory proves that packing and unpacking are
  inverse, and that the unsigned order of packed names is the lexicographic order of the texts,
  which is what lets the client keep rows of \<open>group.accts\<close> sorted by text while the server sorts
  them by number.
\<close>

unbundle bit_operations_syntax

subsection \<open>Characters\<close>

definition char_to_symbol :: "char \<Rightarrow> uint64" where
  "char_to_symbol c =
     (if CHR ''a'' \<le> c \<and> c \<le> CHR ''z'' then of_nat (of_char c - of_char CHR ''a'' + 6)
      else if CHR ''1'' \<le> c \<and> c \<le> CHR ''5'' then of_nat (of_char c - of_char CHR ''1'' + 1)
      else 0)"

definition charmap :: string where
  "charmap = ''.12345abcdefghijklmnopqrstuvwxyz''"

subsection \<open>Text to number\<close>

text \<open>
  The loop of \<open>string_to_uint64_t\<close>, from position \<open>i\<close> on, over the characters still to read;
  it stops at the end of the text or after twelve characters and returns \<open>n\<close> and \<open>i\<close>.
\<close>

fun pack_loop :: "string \<Rightarrow> nat \<Rightarrow> uint64 \<Rightarrow> uint64 \<times> nat" where
  "pack_loop [] i n = (n, i)"
| "pack_loop (c # cs) i n =
     (if i < 12
      then pack_loop cs (Suc i) (n OR push_bit (64 - 5 * (i + 1)) (char_to_symbol c AND 0x1f))
      else (n, i))"

text \<open>
  The \<open>QString\<close> version reads \<open>str[12]\<close> whenever twelve characters were packed, and
  \<open>QString::operator[]\<close> requires a position below the length: a text of exactly twelve
  characters violates that.
\<close>

datatype name_fault = OutOfRange nat

definition string_to_uint64_t :: "string \<Rightarrow> name_fault + uint64" where
  "string_to_uint64_t str =
     (case pack_loop str 0 0 of (n, i) \<Rightarrow>
        if i = 12
        then (if 12 < length str then Inr (n OR (char_to_symbol (str ! 12) AND 0x0F))
              else Inl (OutOfRange 12))
        else Inr n)"

text \<open>
  The version of \<open>cpp/KeyManager.cpp\<close> works on a NUL-terminated array: the loop also stops at a
  NUL character, and position twelve of a twelve-character text is the terminator.
\<close>

definition c_str :: "string \<Rightarrow> string" where
  "c_str s = takeWhile (\<lambda>c. c \<noteq> CHR 0x00) s"

definition string_to_uint64_c :: "string \<Rightarrow> uint64" where
  "string_to_uint64_c s =
     (case pack_loop (c_str s) 0 0 of (n, i) \<Rightarrow>
        if i = 12
        then n OR (char_to_symbol ((c_str s @ [CHR 0x00]) ! 12) AND 0x0F)
        else n)"

subsection \<open>Number to text\<close>

text \<open>One round of the loop of \<open>name_to_string\<close>: it writes position \<open>12 - i\<close>.\<close>

definition unpack_step :: "nat \<Rightarrow> string \<times> uint64 \<Rightarrow> string \<times> uint64" where
  "unpack_step i st = (case st of (str, tmp) \<Rightarrow>
     (str[12 - i := charmap ! unat (tmp AND (if i = 0 then 0x0f else 0x1f))],
      drop_bit (if i = 0 then 4 else 5) tmp))"

text \<open>\<open>while (str.endsWith('.')) str.chop(1)\<close>\<close>

fun chop_dots :: "string \<Rightarrow> string" where
  "chop_dots s = (if s \<noteq> [] \<and> last s = CHR ''.'' then chop_dots (butlast s) else s)"

declare chop_dots.simps [simp del]

definition name_to_string :: "uint64 \<Rightarrow> string" where
  "name_to_string name =
     chop_dots (fst (fold unpack_step [0..<13] (replicate 13 (CHR ''.''), name)))"

subsection \<open>Symbols as numbers\<close>

definition sym :: "char \<Rightarrow> nat" where
  "sym c = unat (char_to_symbol c)"

definition name_char :: "char \<Rightarrow> bool" where
  "name_char c \<longleftrightarrow> c \<in> set charmap"

lemma sym_less: "sym c < 32"
proof -
  have small: "unat (of_nat k :: uint64) < 32" if "k < 32" for k
    using that by (simp add: unat_of_nat)
  show ?thesis
    unfolding sym_def char_to_symbol_def
    by (auto simp: less_eq_char_def simp del: of_nat_diff of_nat_add of_nat_Suc intro!: small)
qed

lemma symbol_of_charmap: "d < 32 \<Longrightarrow> char_to_symbol (charmap ! d) = of_nat d"
proof -
  have "\<forall>d \<in> set [0..<32]. char_to_symbol (charmap ! d) = of_nat d" by code_simp
  then show "d < 32 \<Longrightarrow> ?thesis" by simp
qed

lemma sym_charmap [simp]: "d < 32 \<Longrightarrow> sym (charmap ! d) = d"
  by (simp add: sym_def symbol_of_charmap unat_of_nat)

lemma charmap_sym: "name_char c \<Longrightarrow> charmap ! sym c = c"
proof -
  have "\<forall>c \<in> set charmap. charmap ! sym c = c" by code_simp
  then show "name_char c \<Longrightarrow> ?thesis" by (simp add: name_char_def)
qed

lemma length_charmap [simp]: "length charmap = 32"
  by (simp add: charmap_def)

lemma charmap_codes:
  "map of_char charmap = [46, 49, 50, 51, 52, 53, 97, 98, 99, 100, 101, 102, 103, 104, 105, 106, 107, 108, 109, 110, 111, 112, 113, 114, 115, 116, 117, 118, 119, 120, 121, 122 :: nat]"
  by (simp add: charmap_def)

lemma charmap_less: "d < e \<Longrightarrow> e < 32 \<Longrightarrow> charmap ! d < charmap ! e"
proof -
  have "sorted_wrt (<) (map of_char charmap :: nat list)"
    unfolding charmap_codes by simp
  then have "sorted_wrt (<) charmap"
    by (simp add: sorted_wrt_map less_char_def[abs_def])
  then show "d < e \<Longrightarrow> e < 32 \<Longrightarrow> ?thesis"
    by (simp add: sorted_wrt_nth_less)
qed

lemma charmap_less_iff: "d < 32 \<Longrightarrow> e < 32 \<Longrightarrow> charmap ! d < charmap ! e \<longleftrightarrow> d < e"
  by (metis charmap_less less_asym linorder_neqE_nat less_irrefl)

lemma charmap_dot: "charmap ! 0 = CHR ''.''"
  by (simp add: charmap_def)

lemma sym_dot [simp]: "sym (CHR ''.'') = 0"
  using sym_charmap[of 0] by (simp add: charmap_dot)

subsection \<open>Positional values\<close>

definition horner :: "nat \<Rightarrow> nat list \<Rightarrow> nat" where
  "horner v ds = foldl (\<lambda>a d. 32 * a + d) v ds"

lemma horner_simps [simp]:
  "horner v [] = v" "horner v (d # ds) = horner (32 * v + d) ds"
  by (simp_all add: horner_def)

lemma horner_append: "horner v (ds @ es) = horner (horner v ds) es"
  by (simp add: horner_def)

lemma horner_start: "horner v ds = v * 32 ^ length ds + horner 0 ds"
proof (induction ds rule: rev_induct)
  case (snoc d ds)
  then show ?case by (simp add: horner_append algebra_simps)
qed simp

lemma horner_bound: "\<forall>d \<in> set ds. d < 32 \<Longrightarrow> horner 0 ds < 32 ^ length ds"
  by (induction ds rule: rev_induct) (auto simp: horner_append)

lemma horner_less_iff:
  assumes "length ds = length es" "\<forall>d \<in> set ds. d < 32" "\<forall>e \<in> set es. e < 32"
  shows "horner 0 ds < horner 0 es \<longleftrightarrow> ds < es"
  using assms
proof (induction ds es rule: list_induct2)
  case (Cons d ds e es)
  let ?B = "32 ^ length es :: nat"
  have b: "horner 0 ds < ?B" "horner 0 es < ?B"
    using Cons horner_bound[of ds] horner_bound[of es] by simp_all
  have "d * ?B + horner 0 ds < e * ?B + horner 0 es \<longleftrightarrow>
      d < e \<or> d = e \<and> horner 0 ds < horner 0 es"
  proof (cases d e rule: linorder_cases)
    case less
    then have "(d + 1) * ?B \<le> e * ?B" by (intro mult_le_mono1) simp
    with less b show ?thesis by simp
  next
    case greater
    then have "(e + 1) * ?B \<le> d * ?B" by (intro mult_le_mono1) simp
    with greater b show ?thesis by simp
  qed simp
  with Cons show ?case by (simp add: horner_start[of d] horner_start[of e])
qed simp

lemma horner_inj:
  assumes "length ds = length es" "\<forall>d \<in> set ds. d < 32" "\<forall>e \<in> set es. e < 32"
    "horner 0 ds = horner 0 es"
  shows "ds = es"
  using assms horner_less_iff[of ds es] horner_less_iff[of es ds] by force

subsection \<open>Packing computes the positional value\<close>

lemma or_low_bits:
  fixes v d k :: nat
  assumes "d < 2 ^ k"
  shows "push_bit k v OR d = v * 2 ^ k + d"
proof -
  have "take_bit k (int d) = int d" using assms by (simp add: take_bit_int_eq_self)
  then have "push_bit k (int v) OR int d = int v * 2 ^ k + int d"
    using concat_bit_eq[of k "int d" "int v"] concat_bit_def[of k "int d" "int v"]
    by (simp add: push_bit_eq_mult or.commute)
  then have "int (push_bit k v OR d) = int (v * 2 ^ k + d)"
    by (simp add: of_nat_or_eq of_nat_push_bit)
  then show ?thesis by (simp only: of_nat_eq_iff)
qed

lemma or_push_bit:
  fixes v d s :: nat
  assumes "d < 32"
  shows "(v * 2 ^ (s + 5)) OR push_bit s d = (32 * v + d) * 2 ^ s"
proof -
  have "push_bit s (push_bit 5 v OR d) = (32 * v + d) * 2 ^ s"
    using or_low_bits[of d 5 v] assms by (simp add: push_bit_eq_mult)
  then have "push_bit (s + 5) v OR push_bit s d = (32 * v + d) * 2 ^ s"
    by (simp only: push_bit_or push_bit_push_bit)
  then show ?thesis by (simp only: push_bit_eq_mult)
qed

lemma pack_char:
  assumes "i < 12" "v < 32 ^ i" "unat n = v * 2 ^ (64 - 5 * i)"
  shows "unat (n OR push_bit (64 - 5 * (i + 1)) (char_to_symbol c AND 0x1f)) =
      (32 * v + sym c) * 2 ^ (64 - 5 * Suc i)"
proof -
  define s where "s = 64 - 5 * Suc i"
  have s: "64 - 5 * i = s + 5" "s + 5 * Suc i = 64" using assms(1) by (auto simp: s_def)
  have "unat (char_to_symbol c AND 0x1f) = sym c"
    using unat_and_mask[of "char_to_symbol c" 5] sym_less[of c]
    by (simp add: mask_eq_exp_minus_1 sym_def)
  moreover have "sym c * 2 ^ s < 2 ^ 64"
  proof -
    have "sym c * 2 ^ s < 2 ^ 5 * 2 ^ s" using sym_less[of c] by simp
    also have "\<dots> \<le> 2 ^ 64" unfolding power_add[symmetric] using s(2) by (intro power_increasing) auto
    finally show ?thesis .
  qed
  ultimately have "unat (push_bit s (char_to_symbol c AND 0x1f)) = push_bit s (sym c)"
    by (simp only: unat_push_bit_word) (simp add: push_bit_eq_mult take_bit_nat_eq_self)
  then have "unat (n OR push_bit s (char_to_symbol c AND 0x1f)) = (32 * v + sym c) * 2 ^ s"
    using or_push_bit[OF sym_less, of v s c] assms(3) s(1) by (simp only: unat_or_word)
  then show ?thesis by (simp only: s_def Suc_eq_plus1)
qed

text \<open>The number a text packs to: twelve digits of base 32, then one of base 16.\<close>

definition name_value :: "string \<Rightarrow> nat" where
  "name_value s = horner 0 (map sym (take 12 s)) * 2 ^ (64 - 5 * min 12 (length s))
     + (if 12 < length s then sym (s ! 12) mod 16 else 0)"

lemma pack_loop_value:
  assumes "i \<le> 12" "v < 32 ^ i" "unat n = v * 2 ^ (64 - 5 * i)"
  shows "snd (pack_loop cs i n) = min 12 (i + length cs)"
    and "unat (fst (pack_loop cs i n)) =
      horner v (map sym (take (12 - i) cs)) * 2 ^ (64 - 5 * min 12 (i + length cs))"
proof -
  have "snd (pack_loop cs i n) = min 12 (i + length cs) \<and>
    unat (fst (pack_loop cs i n)) =
      horner v (map sym (take (12 - i) cs)) * 2 ^ (64 - 5 * min 12 (i + length cs))"
    using assms
  proof (induction cs arbitrary: i v n)
    case (Cons c cs)
    show ?case
    proof (cases "i < 12")
      case True
      have "32 * v + sym c < 32 ^ Suc i"
        using Cons.prems(2) sym_less[of c] by (simp add: algebra_simps)
      from Cons.IH[OF _ this pack_char[OF True Cons.prems(2,3)]] True show ?thesis
        by (simp add: take_Cons' Suc_diff_Suc)
    next
      case False
      with Cons.prems show ?thesis by simp
    qed
  qed simp
  then show "snd (pack_loop cs i n) = min 12 (i + length cs)"
    and "unat (fst (pack_loop cs i n)) =
      horner v (map sym (take (12 - i) cs)) * 2 ^ (64 - 5 * min 12 (i + length cs))" by simp_all
qed

lemma unat_or_nibble:
  assumes "unat n = v * 2 ^ 4"
  shows "unat (n OR (x AND 0x0F)) = v * 2 ^ 4 + unat x mod 16"
proof -
  have "unat (x AND 0x0F) = unat x mod 16"
    using unat_and_mask[of x 4] by (simp add: mask_eq_exp_minus_1)
  moreover have "unat n = push_bit 4 v" using assms by (simp add: push_bit_eq_mult)
  ultimately show ?thesis
    using or_low_bits[of "unat x mod 16" 4 v] by (simp add: unat_or_word)
qed

lemma string_to_uint64_t_eq:
  "string_to_uint64_t s =
     (if length s = 12 then Inl (OutOfRange 12) else Inr (of_nat (name_value s)))"
proof -
  obtain n i where p: "pack_loop s 0 0 = (n, i)" by (cases "pack_loop s 0 0") auto
  have i: "i = min 12 (length s)"
    and n: "unat n = horner 0 (map sym (take 12 s)) * 2 ^ (64 - 5 * min 12 (length s))"
    using pack_loop_value[of 0 0 0 s] p by simp_all
  show ?thesis
  proof (cases "12 \<le> length s")
    case True
    with n have n4: "unat n = horner 0 (map sym (take 12 s)) * 2 ^ 4" by simp
    have "n OR (char_to_symbol (s ! 12) AND 0x0F) = of_nat (name_value s)" if "12 < length s"
      using that unat_or_nibble[OF n4, of "char_to_symbol (s ! 12)"]
      by (intro word_eq_of_natI) (simp add: name_value_def sym_def)
    then show ?thesis using True i by (auto simp: string_to_uint64_t_def p)
  next
    case False
    with n have "unat n = name_value s" by (simp add: name_value_def)
    then have "n = of_nat (name_value s)" by (rule word_eq_of_natI)
    then show ?thesis using False i by (simp add: string_to_uint64_t_def p)
  qed
qed

lemma string_to_uint64_c_eq:
  assumes "CHR 0x00 \<notin> set s"
  shows "string_to_uint64_c s = of_nat (name_value s)"
proof -
  have cs: "c_str s = s" using assms by (auto simp: c_str_def takeWhile_eq_all_conv)
  obtain n i where p: "pack_loop s 0 0 = (n, i)" by (cases "pack_loop s 0 0") auto
  have i: "i = min 12 (length s)"
    and n: "unat n = horner 0 (map sym (take 12 s)) * 2 ^ (64 - 5 * min 12 (length s))"
    using pack_loop_value[of 0 0 0 s] p by simp_all
  have nul: "sym (CHR 0x00) = 0" by code_simp
  show ?thesis
  proof (cases "12 \<le> length s")
    case True
    with n have n4: "unat n = horner 0 (map sym (take 12 s)) * 2 ^ 4" by simp
    have "n OR (char_to_symbol ((s @ [CHR 0x00]) ! 12) AND 0x0F) = of_nat (name_value s)"
      using True unat_or_nibble[OF n4, of "char_to_symbol ((s @ [CHR 0x00]) ! 12)"] nul
      by (intro word_eq_of_natI) (auto simp: name_value_def sym_def nth_append)
    then show ?thesis using True i by (simp add: string_to_uint64_c_def p cs)
  next
    case False
    with n have "unat n = name_value s" by (simp add: name_value_def)
    then have "n = of_nat (name_value s)" by (rule word_eq_of_natI)
    then show ?thesis using False i by (simp add: string_to_uint64_c_def p cs)
  qed
qed

lemma name_value_dot: "length s < 13 \<Longrightarrow> name_value (s @ ''.'') = name_value s"
proof (cases "length s = 12")
  case False
  assume "length s < 13"
  with False have l: "length s < 12" by simp
  then have "64 - 5 * length s = (64 - 5 * Suc (length s)) + 5" by simp
  then have "(2::nat) ^ (64 - 5 * length s) = 2 ^ (64 - 5 * Suc (length s)) * 32"
    by (simp only: power_add) simp
  moreover have "min 12 (Suc (length s)) = Suc (length s)" "min 12 (length s) = length s"
    using l by simp_all
  ultimately show ?thesis
    using l unfolding name_value_def by (simp add: horner_append del: min_less_iff_conj)
qed (simp add: name_value_def nth_append)

lemma name_value_dots:
  "length s + m \<le> 13 \<Longrightarrow> name_value (s @ replicate m (CHR ''.'')) = name_value s"
proof (induction m arbitrary: s)
  case (Suc m)
  then have "name_value ((s @ ''.'') @ replicate m (CHR ''.'')) = name_value (s @ ''.'')"
    by (intro Suc.IH) simp
  with Suc.prems show ?case by (simp add: name_value_dot)
qed simp

subsection \<open>Unpacking computes the digits\<close>

definition name_digit :: "uint64 \<Rightarrow> nat \<Rightarrow> nat" where
  "name_digit n j = (if j = 12 then unat n mod 16 else unat n div 16 div 32 ^ (11 - j) mod 32)"

definition name_digits :: "uint64 \<Rightarrow> nat list" where
  "name_digits n = map (name_digit n) [0..<13]"

lemma name_digit_less: "name_digit n j < 32"
proof -
  have "unat n mod 16 < 32" by presburger
  then show ?thesis by (simp add: name_digit_def)
qed

lemma length_name_digits [simp]: "length (name_digits n) = 13"
  by (simp only: name_digits_def length_map length_upt)

lemma name_digits_less: "\<forall>d \<in> set (name_digits n). d < 32"
proof -
  have "\<forall>d \<in> set (map (name_digit n) js). d < 32" for js
    by (induction js) (simp_all add: name_digit_less)
  then show ?thesis unfolding name_digits_def .
qed

lemma unpack_loop_digits:
  "fst (fold unpack_step [0..<13] (replicate 13 (CHR ''.''), n)) = map ((!) charmap) (name_digits n)"
proof -
  have m: "unat (w AND 0x0f) = unat w mod 16" "unat (w AND 0x1f) = unat w mod 32" for w :: uint64
    using unat_and_mask[of w 4] unat_and_mask[of w 5] by (simp_all add: mask_eq_exp_minus_1)
  have r: "replicate 13 (CHR ''.'') = ''.............''" by code_simp
  show ?thesis
    unfolding r
    by (simp add: upt_rec unpack_step_def m drop_bit_eq_div unat_div name_digits_def
        name_digit_def div_mult2_eq[symmetric])
qed

subsection \<open>Dropping the trailing dots\<close>

lemma chop_dots_snoc: "chop_dots (s @ ''.'') = chop_dots s"
  by (subst chop_dots.simps) simp

lemma chop_dots_append: "last s \<noteq> CHR ''.'' \<or> s = [] \<Longrightarrow> chop_dots (s @ replicate m (CHR ''.'')) = s"
proof (induction m)
  case 0
  then show ?case by (auto simp: chop_dots.simps[of s])
next
  case (Suc m)
  have "s @ replicate (Suc m) (CHR ''.'') = (s @ replicate m (CHR ''.'')) @ ''.''"
    by (simp add: replicate_append_same)
  with Suc show ?case by (simp only: chop_dots_snoc)
qed

lemma chop_dots_split: "\<exists>m. s = chop_dots s @ replicate m (CHR ''.'')"
proof (induction s rule: chop_dots.induct)
  case (1 s)
  show ?case
  proof (cases "s \<noteq> [] \<and> last s = CHR ''.''")
    case True
    with 1 obtain m where "butlast s = chop_dots (butlast s) @ replicate m (CHR ''.'')" by auto
    with True have "s = chop_dots (butlast s) @ replicate (Suc m) (CHR ''.'')"
      by (metis append.assoc append_butlast_last_id replicate_Suc replicate_append_same)
    with True show ?thesis by (metis chop_dots.simps)
  next
    case False
    then show ?thesis by (metis append_Nil2 chop_dots.simps replicate_0)
  qed
qed

lemma chop_dots_last: "chop_dots s = [] \<or> last (chop_dots s) \<noteq> CHR ''.''"
  by (induction s rule: chop_dots.induct) (metis chop_dots.simps)

lemma chop_dots_Cons:
  "chop_dots (c # s) = (if chop_dots s = [] \<and> c = CHR ''.'' then [] else c # chop_dots s)"
proof -
  obtain m where m: "s = chop_dots s @ replicate m (CHR ''.'')" using chop_dots_split by blast
  show ?thesis
  proof (cases "chop_dots s = [] \<and> c = CHR ''.''")
    case True
    with m have "c # s = [] @ replicate (Suc m) (CHR ''.'')" by simp
    then show ?thesis using True chop_dots_append[of "[]" "Suc m"] by simp
  next
    case False
    have "chop_dots ((c # chop_dots s) @ replicate m (CHR ''.'')) = c # chop_dots s"
      using False chop_dots_last[of s] by (intro chop_dots_append) auto
    with False m show ?thesis by (metis append_Cons)
  qed
qed

lemma chop_dots_less_iff:
  assumes "length s = length t" "\<forall>c \<in> set s \<union> set t. CHR ''.'' \<le> c"
  shows "chop_dots s < chop_dots t \<longleftrightarrow> s < t"
  using assms
proof (induction s t rule: list_induct2)
  case (Cons c s d t)
  have "chop_dots t = [] \<Longrightarrow> \<not> s < t"
    using Cons.IH Cons.prems by auto
  moreover have "[] < u \<longleftrightarrow> u \<noteq> []" for u :: string by (cases u) simp_all
  ultimately show ?case using Cons by (auto simp: chop_dots_Cons)
qed simp

subsection \<open>The two directions\<close>

lemma name_to_string_eq: "name_to_string n = chop_dots (map ((!) charmap) (name_digits n))"
  by (simp only: name_to_string_def unpack_loop_digits)

lemma horner_div_digits:
  "horner 0 (map (\<lambda>j. x div 32 ^ (k - Suc j) mod 32) [0..<k]) = x mod 32 ^ k"
proof (induction k arbitrary: x)
  case (Suc k)
  have "map (\<lambda>j. x div 32 ^ (Suc k - Suc j) mod 32) [0..<Suc k] =
      map (\<lambda>j. x div 32 div 32 ^ (k - Suc j) mod 32) [0..<k] @ [x mod 32]"
    by (auto simp: div_mult2_eq[symmetric] Suc_diff_Suc simp flip: power_Suc)
  then show ?case
    by (simp only: horner_append Suc.IH) (simp add: mod_mult2_eq)
qed simp

lemma name_digits_take: "map (name_digit n) [0..<12] = take 12 (name_digits n)"
  by (simp add: name_digits_def take_map)

lemma horner_name_digits: "horner 0 (take 12 (name_digits n)) = unat n div 16"
proof -
  have "map (name_digit n) [0..<12] = map (\<lambda>j. (unat n div 16) div 32 ^ (12 - Suc j) mod 32) [0..<12]"
    by (intro map_cong refl) (auto simp: name_digit_def)
  moreover have "unat n div 16 < 32 ^ 12"
    using unsigned_less[of n, where 'a = nat] by (simp add: less_mult_imp_div_less)
  ultimately show ?thesis
    by (simp only: name_digits_take[symmetric] horner_div_digits mod_less)
qed

lemma name_digits_nth12: "name_digits n ! 12 = unat n mod 16"
  by (simp add: name_digits_def name_digit_def)

lemma name_chars: "c \<in> set (name_to_string n) \<Longrightarrow> name_char c"
proof -
  assume "c \<in> set (name_to_string n)"
  then have "c \<in> set (map ((!) charmap) (name_digits n))"
    using chop_dots_split[of "map ((!) charmap) (name_digits n)"]
    by (metis Un_iff name_to_string_eq set_append)
  then obtain d where "d < 32" "c = charmap ! d" using name_digits_less by fastforce
  then show ?thesis unfolding name_char_def by (simp add: nth_mem)
qed

lemma name_char_not_nul: "\<not> name_char (CHR 0x00)"
  by (simp add: name_char_def charmap_def)

lemma name_value_unpacked: "name_value (name_to_string n) = unat n"
proof -
  let ?p = "map ((!) charmap) (name_digits n)"
  obtain m where m: "?p = name_to_string n @ replicate m (CHR ''.'')"
    using chop_dots_split[of ?p] by (auto simp: name_to_string_eq)
  have "length (name_to_string n) + m = 13"
    using m by (metis length_append length_map length_name_digits length_replicate)
  then have "name_value (name_to_string n) = name_value ?p"
    by (simp add: m name_value_dots)
  also have "map sym ?p = name_digits n"
    using name_digits_less by (simp add: map_idI)
  then have "map sym (take 12 ?p) = take 12 (name_digits n)" by (metis take_map)
  then have "name_value ?p = horner 0 (take 12 (name_digits n)) * 2 ^ 4 + name_digits n ! 12 mod 16"
    using name_digits_less[of n] by (simp add: name_value_def del: map_map)
  also have "\<dots> = unat n" by (simp add: horner_name_digits name_digits_nth12)
  finally show ?thesis .
qed

text \<open>C: number, text, number is the identity on all 64-bit values.\<close>

lemma pack_unpack: "string_to_uint64_c (name_to_string n) = n"
proof -
  have "CHR 0x00 \<notin> set (name_to_string n)" using name_chars name_char_not_nul by blast
  then show ?thesis by (simp add: string_to_uint64_c_eq name_value_unpacked)
qed

text \<open>The texts that are EOSIO names.\<close>

definition valid_name :: "string \<Rightarrow> bool" where
  "valid_name s \<longleftrightarrow> length s \<le> 13 \<and> list_all name_char s \<and> (s = [] \<or> last s \<noteq> CHR ''.'') \<and>
     (length s = 13 \<longrightarrow> sym (s ! 12) < 16)"

lemma name_value_less:
  assumes "length s \<le> 13"
  shows "name_value s < 2 ^ 64"
proof -
  define p where "p = s @ replicate (13 - length s) (CHR ''.'')"
  have len: "length p = 13" using assms by (simp add: p_def)
  have v: "name_value s = name_value p" using assms by (simp add: p_def name_value_dots)
  have "horner 0 (map sym (take 12 p)) < 32 ^ 12"
    using horner_bound[of "map sym (take 12 p)"] sym_less len by simp
  then have "horner 0 (map sym (take 12 p)) * 16 + sym (p ! 12) mod 16 < 32 ^ 12 * 16"
    using mod_less_divisor[of 16 "sym (p ! 12)"] by linarith
  then show ?thesis using len unfolding v unfolding name_value_def by simp
qed

lemma unpack_pack:
  assumes "valid_name s"
  shows "name_to_string (of_nat (name_value s)) = s"
proof -
  define p where "p = s @ replicate (13 - length s) (CHR ''.'')"
  define n where "n = (of_nat (name_value s) :: uint64)"
  have s: "length s \<le> 13" "s = [] \<or> last s \<noteq> CHR ''.''" "list_all name_char s"
    using assms by (simp_all add: valid_name_def)
  have len: "length p = 13" using s by (simp add: p_def)
  have chars: "\<forall>c \<in> set p. name_char c"
    using s(3) by (auto simp: p_def list_all_iff) (simp add: name_char_def charmap_def)
  have p12: "sym (p ! 12) < 16"
    using assms by (auto simp: p_def valid_name_def nth_append)
  have v: "name_value s = horner 0 (map sym (take 12 p)) * 16 + sym (p ! 12)"
    using s name_value_dots[of s "13 - length s"] len p12 by (simp add: p_def[symmetric] name_value_def)
  have n: "unat n = name_value s" using name_value_less[OF s(1)] by (simp add: n_def unat_of_nat)
  have "take 12 (name_digits n) = map sym (take 12 p)"
  proof (rule horner_inj)
    show "horner 0 (take 12 (name_digits n)) = horner 0 (map sym (take 12 p))"
      using p12 by (simp add: horner_name_digits n v)
  qed (use len name_digits_less sym_less in \<open>auto dest: in_set_takeD\<close>)
  moreover have "name_digits n ! 12 = map sym p ! 12"
    using p12 len by (simp add: name_digits_nth12 n v)
  ultimately have "name_digits n ! i = map sym p ! i" if "i < 13" for i
    using that len nth_take[of i 12 "name_digits n"] nth_take[of i 12 "map sym p"]
    by (cases "i = 12") (simp_all add: take_map)
  then have "name_digits n = map sym p" using len by (intro nth_equalityI) simp_all
  then have "map ((!) charmap) (name_digits n) = p"
    using chars by (simp add: map_idI charmap_sym)
  then show ?thesis
    using s(2) chop_dots_append[of s "13 - length s"]
    by (auto simp: n_def[symmetric] name_to_string_eq p_def)
qed

lemma charmap_list_less:
  assumes "length xs = length ys" "\<forall>d \<in> set xs. d < 32" "\<forall>d \<in> set ys. d < 32"
  shows "map ((!) charmap) xs < map ((!) charmap) ys \<longleftrightarrow> xs < ys"
  using assms
proof (induction xs ys rule: list_induct2)
  case (Cons d ds e es)
  have "charmap ! d = charmap ! e \<longleftrightarrow> d = e"
    using Cons.prems by (metis list.set_intros(1) sym_charmap)
  with Cons show ?case by (simp add: charmap_less_iff)
qed simp

lemma name_order: "name_to_string m < name_to_string n \<longleftrightarrow> m < n"
proof -
  let ?P = "\<lambda>n. map ((!) charmap) (name_digits n)"
  have "CHR ''.'' \<le> charmap ! d" if "d < 32" for d
    using that charmap_less[of 0 d] by (cases "d = 0") (simp_all add: charmap_dot)
  then have dots: "\<forall>c \<in> set (?P m) \<union> set (?P n). CHR ''.'' \<le> c"
    using name_digits_less by auto
  have "?P m < ?P n \<longleftrightarrow> name_digits m < name_digits n"
    using name_digits_less by (intro charmap_list_less) simp_all
  also have "\<dots> \<longleftrightarrow> horner 0 (name_digits m) < horner 0 (name_digits n)"
    using name_digits_less by (simp add: horner_less_iff)
  also have "\<dots> \<longleftrightarrow> m < n"
  proof -
    have h: "horner 0 (name_digits k) = unat k div 16 * 32 + unat k mod 16" for k
    proof -
      have "name_digits k = take 12 (name_digits k) @ [name_digits k ! 12]"
        using take_Suc_conv_app_nth[of 12 "name_digits k"] by simp
      then show ?thesis
        by (metis horner_append horner_name_digits horner_simps mult.commute name_digits_nth12)
    qed
    have "x div 16 * 32 + x mod 16 < y div 16 * 32 + y mod 16 \<longleftrightarrow> x < y" for x y :: nat
    proof -
      have "x = 16 * (x div 16) + x mod 16" "x mod 16 < 16"
        "y = 16 * (y div 16) + y mod 16" "y mod 16 < 16" by simp_all
      then show ?thesis by (cases "x div 16" "y div 16" rule: linorder_cases) linarith+
    qed
    then show ?thesis unfolding h word_less_nat_alt .
  qed
  finally show ?thesis using dots by (simp add: name_to_string_eq chop_dots_less_iff)
qed

subsection \<open>The name class\<close>

text \<open>
  \<open>struct name\<close> of \<open>cpp/KeyManager.cpp\<close> wraps the packed value.  \<open>set\<close> logs and keeps the old value
  when the text has more than thirteen characters; \<open>to_string\<close> is a second copy of the unpacking,
  with \<open>trim_right_if\<close> in place of the loop.
\<close>

definition name_set :: "string \<Rightarrow> uint64 \<Rightarrow> uint64" where
  "name_set str old = (if 13 < length str then old else string_to_uint64_c str)"

definition make_name :: "string \<Rightarrow> uint64" where
  "make_name str = name_set str 0"

definition trim_right_if :: "(char \<Rightarrow> bool) \<Rightarrow> string \<Rightarrow> string" where
  "trim_right_if p s = rev (dropWhile p (rev s))"

definition name_text :: "uint64 \<Rightarrow> string" where
  "name_text n =
     trim_right_if (\<lambda>c. c = CHR ''.'') (fst (fold unpack_step [0..<13] (replicate 13 (CHR ''.''), n)))"

lemma trim_right_dots: "trim_right_if (\<lambda>c. c = CHR ''.'') s = chop_dots s"
proof (induction s rule: rev_induct)
  case (snoc c s)
  then show ?case by (subst chop_dots.simps) (simp add: trim_right_if_def)
qed (simp add: trim_right_if_def chop_dots.simps)

lemma name_text_eq: "name_text n = name_to_string n"
  by (simp add: name_text_def name_to_string_def trim_right_dots)

lemma name_to_string_length: "length (name_to_string n) \<le> 13"
proof -
  obtain m where "map ((!) charmap) (name_digits n) = name_to_string n @ replicate m (CHR ''.'')"
    using chop_dots_split[of "map ((!) charmap) (name_digits n)"] by (auto simp: name_to_string_eq)
  then show ?thesis by (metis length_append length_map length_name_digits le_add1)
qed

lemma valid_name_no_nul: "valid_name s \<Longrightarrow> CHR 0x00 \<notin> set s"
  using name_char_not_nul by (auto simp: valid_name_def list_all_iff)

lemma name_text_make:
  assumes "valid_name s"
  shows "name_text (make_name s) = s"
proof -
  have "length s \<le> 13" using assms by (simp add: valid_name_def)
  then have "make_name s = of_nat (name_value s)"
    using assms by (simp add: make_name_def name_set_def string_to_uint64_c_eq valid_name_no_nul)
  then show ?thesis using assms by (simp add: name_text_eq unpack_pack)
qed

lemma name_text_make_all: "make_name (name_text n) = n"
  using name_to_string_length[of n] by (simp add: make_name_def name_set_def name_text_eq pack_unpack)

subsection \<open>Properties\<close>

text \<open>
  C15. Every 64-bit value, turned into text by \<open>name::to_string\<close> and read back by the constructor
  \<open>name(std::string)\<close>, gives the same value: no key of the database is lost on its way through text.
\<close>

theorem name_text_roundtrip: "make_name (name_text n) = n"
  by (rule name_text_make_all)

text \<open>
  A valid EOSIO name (at most thirteen characters of the alphabet, no trailing dot, a last
  character of four bits) survives packing and unpacking unchanged.
\<close>

lemma valid_name_roundtrip:
  assumes "valid_name s"
  shows "name_text (make_name s) = s"
  using assms by (rule name_text_make)

lemma valid_name_example: "valid_name ''group.accts''"
  by code_simp

lemma valid_name_roundtrip_witness: "name_text (make_name ''group.accts'') = ''group.accts''"
  using valid_name_roundtrip[OF valid_name_example] .

text \<open>
  C22. The text order of unpacked names is the numeric order of the packed ones.  The client keeps
  \<open>group.accts\<close> sorted by account text, the node answers in the order of the packed key: the two
  orders agree, so a response never has to be sorted before it is merged.
\<close>

theorem name_order_agrees: "name_to_string m < name_to_string n \<longleftrightarrow> m < n"
  by (rule name_order)

text \<open>
  The \<open>QString\<close> copy of the packing agrees with the \<open>char[]\<close> copy on every text without NUL
  characters, except that a text of exactly twelve characters makes it read position twelve, which
  is out of range.
\<close>

lemma packing_copies_agree:
  assumes "CHR 0x00 \<notin> set s"
  shows "string_to_uint64_t s = (if length s = 12 then Inl (OutOfRange 12) else Inr (string_to_uint64_c s))"
  using assms by (simp add: string_to_uint64_t_eq string_to_uint64_c_eq)

lemma packing_copies_agree_witness: "string_to_uint64_t ''pollarisvote'' = Inl (OutOfRange 12)"
  using packing_copies_agree[of "''pollarisvote''"] by simp

end
