(* ===== verification/AbstractTable.thy ===== *)
theory AbstractTable
  imports TableModel EosioName
begin

text \<open>
  The operations of \<open>AbstractTable<Row>\<close> (\<open>cpp/AbstractTable.hpp\<close>), one definition per member
  function, on the state of \<open>TableState\<close>.  The time \<open>QDateTime::currentSecsSinceEpoch()\<close> is the
  argument \<open>now\<close>.  A request to the node is the event \<open>CallApi\<close> with the handler its reply will
  reach: \<open>rowReply\<close> for \<open>refreshRow\<close>, \<open>rowsReply\<close> for \<open>fullRefresh\<close> and the further pages.
  Iterators into \<open>rowList\<close> are positions.
\<close>

subsection \<open>Models and backups\<close>

definition notifyModels ::
  "(('i, 'v) model \<Rightarrow> ('i, 'v) model \<times> model_signal list) \<Rightarrow> ('r, 'i, 'v) table \<Rightarrow> ('r, 'i, 'v) table" where
  "notifyModels f t = t\<lparr>models := map (\<lambda>m. fst (f m)) (models t),
     out := out t @ concat (map (\<lambda>m. map (ModelSignal (modelKey m)) (snd (f m))) (models t))\<rparr>"

definition notifyUpdate ::
  "('r, 'i::linorder, 'v) row_type \<Rightarrow> 'r list \<Rightarrow> ('r, 'i, 'v) table \<Rightarrow> ('r, 'i, 'v) table" where
  "notifyUpdate T rows t = notifyModels (updateRows T rows) t"

text \<open>The removed backup goes to the pointer arguments; \<open>None\<close> is the result false.\<close>

definition deleteBackupRow ::
  "('r, 'i::linorder, 'v) row_type \<Rightarrow> 'i \<Rightarrow> ('r, 'i, 'v) table \<Rightarrow> ('r \<times> LoadState) option \<times> ('r, 'i, 'v) table" where
  "deleteBackupRow T i t =
     (let (r, b) = backup_remove (getId T) i (backups t);
          t1 = t\<lparr>backups := b\<rparr>
      in (r, if backup_isEmpty b then emit (sigHasPendingEditsChanged False) (t1\<lparr>pendingEdits := False\<rparr>) else t1))"

subsection \<open>Loading\<close>

definition MAX_LOADING_SECONDS_BEFORE_DROPPED :: int where
  "MAX_LOADING_SECONDS_BEFORE_DROPPED = 7"

text \<open>\<open>std::map::insert\<close> keeps the entry that is already there.\<close>

definition rowIsLoading :: "int \<Rightarrow> 'i \<Rightarrow> bool \<Rightarrow> ('r, 'i, 'v) table \<Rightarrow> bool \<times> ('r, 'i, 'v) table" where
  "rowIsLoading now i markAsLoading t =
     (case loadingRows t i of
        Some started \<Rightarrow>
          if now - started < MAX_LOADING_SECONDS_BEFORE_DROPPED then (True, t) else (False, t)
      | None \<Rightarrow> (False, if markAsLoading then t\<lparr>loadingRows := (loadingRows t)(i \<mapsto> now)\<rparr> else t))"

definition refreshRow ::
  "('r, 'i, 'v) row_type \<Rightarrow> int \<Rightarrow> 'i \<Rightarrow> ('r, 'i, 'v) table \<Rightarrow> ('r, 'i, 'v) table" where
  "refreshRow T now i t =
     (let (loading, t1) = rowIsLoading now i True t in
      if loading then t1
      else emit (CallApi GetTableRows
             (getTableJson_limit (rowTableName T) (scope t1) (boundText T i) 1 False) (RowRequest i)) t1)"

definition fullRefresh :: "('r, 'i, 'v) row_type \<Rightarrow> ('r, 'i, 'v) table \<Rightarrow> ('r, 'i, 'v) table" where
  "fullRefresh T t = emit (CallApi GetTableRows (getTableJson (rowTableName T) (scope t)) (RowsRequest 0)) t"

definition updateScope :: "('r, 'i, 'v) row_type \<Rightarrow> string \<Rightarrow> ('r, 'i, 'v) table \<Rightarrow> ('r, 'i, 'v) table" where
  "updateScope T newScope t =
     (if newScope \<noteq> scope t then
        let t1 = t\<lparr>tableAndScope := takeWhile (\<lambda>c. c \<noteq> CHR ''['') (tableAndScope t) @ ''['' @ newScope @ '']''\<rparr>;
            t2 = emit (sigScopeChanged newScope) (t1\<lparr>scope := newScope\<rparr>)
        in fullRefresh T t2
      else t)"

text \<open>\<open>AbstractTableInterface::setBlockchain\<close>: the new value of the member, and what \<open>blockchainChanged\<close> carries.\<close>

definition setBlockchain :: "'b option \<Rightarrow> 'b option \<Rightarrow> 'b option \<times> 'b option list" where
  "setBlockchain new old = (if old \<noteq> new then (new, [new]) else (old, []))"

lemma setBlockchain_result:
  "fst (setBlockchain new old) = new" "snd (setBlockchain new old) = [] \<longleftrightarrow> new = old"
  by (auto simp: setBlockchain_def)

subsection \<open>Reading\<close>

definition getRow :: "('r, 'i::linorder, 'v) row_type \<Rightarrow> 'i \<Rightarrow> ('r, 'i, 'v) table \<Rightarrow> ('r \<times> LoadState) option" where
  "getRow T i t =
     (let pos = lower_bound (getId T) (rowList t) i in
      if found_at (getId T) (rowList t) i pos then Some (rowList t ! pos, rowStates t ! pos) else None)"

definition getRowMap :: "('r, 'i::linorder, 'v) row_type \<Rightarrow> qvariant \<Rightarrow> ('r, 'i, 'v) table \<Rightarrow> qvariant_map" where
  "getRowMap T rowId t =
     (case getRow T (idOfVariant T rowId) t of
        None \<Rightarrow> []
      | Some (row, state) \<Rightarrow>
          qm_insert LOAD_STATE_ROLE_NAME (QInt (load_state_number state)) (toVariantMap (rowFields T) row))"

definition localRows :: "('r, 'i, 'v) row_type \<Rightarrow> ('r, 'i, 'v) table \<Rightarrow> qvariant_map list" where
  "localRows T t =
     map (\<lambda>i. qm_insert LOAD_STATE_ROLE_NAME (QLoadState (rowStates t ! i)) (toVariantMap (rowFields T) (rowList t ! i)))
       [0..<length (rowList t)]"

text \<open>
  The JavaScript predicate is a function on the row's JSON; \<open>JUndefined\<close> and \<open>JNull\<close> are the
  results for an unusable call and for no match.
\<close>

definition findRowIf ::
  "('r, 'i, 'v) row_type \<Rightarrow> ((string \<times> json) list \<Rightarrow> bool) option \<Rightarrow> ('r, 'i, 'v) table \<Rightarrow> json" where
  "findRowIf T predicate t =
     (case predicate of
        None \<Rightarrow> JUndefined
      | Some p \<Rightarrow>
          if rowList t = [] then JUndefined
          else let js = (\<lambda>i. toJsonObject (conversions T) (rowFields T) (rowList t ! i)) in
            (case find (\<lambda>i. p (js i)) [0..<length (rowList t)] of
               Some i \<Rightarrow> JObj (jinsert LOAD_STATE_ROLE_NAME (JNum (load_state_number (rowStates t ! i))) (js i))
             | None \<Rightarrow> JNull))"

subsection \<open>The data of a model\<close>

text \<open>
  \<open>Model::data\<close> for a valid index (its row is not negative).  \<open>Inl\<close> is the \<open>std::out_of_range\<close> that
  \<open>dispatch\<close> throws.
\<close>

definition model_data ::
  "('r, 'i::linorder, 'v) row_type \<Rightarrow> int \<Rightarrow> ('i, 'v) model \<Rightarrow> nat \<Rightarrow> int \<Rightarrow> ('r, 'i, 'v) table \<Rightarrow>
     range_fault + (qvariant \<times> ('r, 'i, 'v) table)" where
  "model_data T now m row role t =
     (if row \<ge> length (modelIds m) then Inr (QInvalid, t)
      else let rowId = modelIds m ! row in
        (case getRow T rowId t of
           None \<Rightarrow>
             let t1 = refreshRow T now rowId t in
             if role = int LOAD_STATE_ROLE then Inr (QLoadState Loading, t1) else Inr (QInvalid, t1)
         | Some (r, state) \<Rightarrow>
             if role = int LOAD_STATE_ROLE then Inr (QLoadState state, t)
             else if role < int (PHYSICAL_ROLE_BASE + PHYSICAL_ROLE_COUNT T) then
               (case dispatch (rowFields T) (role - int PHYSICAL_ROLE_BASE) (\<lambda>f. fget f r) of
                  Inr result \<Rightarrow> Inr (result, t)
                | Inl e \<Rightarrow> Inl e)
             else if role < int (VIRTUAL_ROLE_BASE T + VIRTUAL_ROLE_COUNT T) then
               (case dispatch (tl_make_sequence (tl_length (virtualFields T))) (role - int (VIRTUAL_ROLE_BASE T))
                       (\<lambda>n. vget (virtualFields T ! n) r state (modelVirtualFields m ! row ! n)) of
                  Inr (val, status) \<Rightarrow>
                    Inr (QMap (qm_insert ''status'' (QLoadState status) (qm_insert ''value'' val [])), t)
                | Inl e \<Rightarrow> Inl e)
             else Inr (QInvalid, t)))"

subsection \<open>Deleting and marking rows\<close>

definition isDraft :: "LoadState \<Rightarrow> bool" where
  "isDraft s \<longleftrightarrow> s = DraftAdd \<or> s = DraftEdit \<or> s = DraftDelete"

definition deleteRow ::
  "('r, 'i::linorder, 'v) row_type \<Rightarrow> 'i \<Rightarrow> ('r, 'i, 'v) table \<Rightarrow> ('r, 'i, 'v) table" where
  "deleteRow T i t =
     (let pos = lower_bound (getId T) (rowList t) i;
          t1 = (if found_at (getId T) (rowList t) i pos then
                  let state = rowStates t ! pos;
                      row = rowList t ! pos;
                      t0 = emit (RowDeleted row) (erase_row pos t)
                  in if state = PendingDelete then
                       snd (deleteBackupRow T i
                         (emit (sigPendingEditSettled (toVariantMap (rowFields T) row) [(Deleted, QBool True)])
                           (emit (PendingDeleteSettled row) t0)))
                     else if isDraft state then
                       snd (deleteBackupRow T i
                         (emit (sigDraftEditInvalidated (variantOfId T i))
                           (emit (DraftRowInvalidated row None) t0)))
                     else t0
                else t)
      in notifyModels (model_deleteRow i) t1)"

text \<open>\<open>Model::markRowStale\<close>: the signal, then the refresh of the row.\<close>

definition markRowStale ::
  "('r, 'i::linorder, 'v) row_type \<Rightarrow> int \<Rightarrow> 'i \<Rightarrow> ('i, 'v) model \<Rightarrow> ('r, 'i, 'v) table \<Rightarrow> ('r, 'i, 'v) table" where
  "markRowStale T now i m t =
     refreshRow T now i (t\<lparr>out := out t @ map (ModelSignal (modelKey m)) (markRowStale_signals i m)\<rparr>)"

definition markModelsStale ::
  "('r, 'i::linorder, 'v) row_type \<Rightarrow> int \<Rightarrow> 'i \<Rightarrow> ('r, 'i, 'v) table \<Rightarrow> ('r, 'i, 'v) table" where
  "markModelsStale T now i t = fold (markRowStale T now i) (models t) t"

definition markStale ::
  "('r, 'i::linorder, 'v) row_type \<Rightarrow> int \<Rightarrow> 'i \<Rightarrow> ('r, 'i, 'v) table \<Rightarrow> ('r, 'i, 'v) table" where
  "markStale T now i t =
     (let pos = lower_bound (getId T) (rowList t) i in
      if found_at (getId T) (rowList t) i pos then
        let state = rowStates t ! pos in
        if state = PendingEdit \<or> state = PendingDelete then refreshRow T now i t
        else
          let t1 = (if isDraft state then
                      let (bak, t0) = deleteBackupRow T i (emit (sigDraftEditInvalidated (variantOfId T i)) t) in
                      (case bak of Some (r, s) \<Rightarrow> set_state pos s (set_row pos r t0) | None \<Rightarrow> t0)
                    else t);
              t2 = set_state pos Stale t1
          in markModelsStale T now i (emit (RowStale (rowList t2 ! pos)) t2)
      else markModelsStale T now i t)"

text \<open>\<open>RowLoading(*pos)\<close> is meant for the placeholder; the code reads it through the old iterator.\<close>

definition getNew ::
  "('r, 'i::linorder, 'v) row_type \<Rightarrow> int \<Rightarrow> 'i \<Rightarrow> ('r, 'i, 'v) table \<Rightarrow> ('r, 'i, 'v) table" where
  "getNew T now i t0 =
     (let t = refreshRow T now i t0;
          pos = lower_bound (getId T) (rowList t) i in
      if found_at (getId T) (rowList t) i pos then t
      else let row = setId T i (blankRow T) in emit (RowLoading row) (insert_row pos row Loading t))"

subsection \<open>The journal\<close>

datatype entry_type = AddRow | DeleteRow | ModifyRow | OtherEntry int

record journal_entry =
  entryId :: uint64
  entryTime :: "int option"
  entryTable :: string
  entryScope :: uint64
  entryKey :: uint64
  entryType :: entry_type

definition processEntry ::
  "('r, 'i::linorder, 'v) row_type \<Rightarrow> int \<Rightarrow> journal_entry \<Rightarrow> ('r, 'i, 'v) table \<Rightarrow> ('r, 'i, 'v) table" where
  "processEntry T now entry t =
     (if entryTable entry = rowTableName T \<and> number (unat (entryScope entry)) = scope t then
        let key = keyOfJournal T (entryKey entry) in
        (case entryType entry of
           DeleteRow \<Rightarrow> deleteRow T key t
         | ModifyRow \<Rightarrow> markStale T now key t
         | AddRow \<Rightarrow> getNew T now key t
         | OtherEntry _ \<Rightarrow> t)
      else t)"

definition processJournal ::
  "('r, 'i::linorder, 'v) row_type \<Rightarrow> int \<Rightarrow> journal_entry list \<Rightarrow> ('r, 'i, 'v) table \<Rightarrow> ('r, 'i, 'v) table" where
  "processJournal T now entries t = fold (processEntry T now) entries t"

subsection \<open>Rows from the node\<close>

text \<open>The predicate \<open>matchesRow\<close>: every field the added row names has the value it was given.\<close>

definition matchesRow :: "('r, 'i, 'v) row_type \<Rightarrow> 'r \<Rightarrow> qvariant_map \<Rightarrow> bool" where
  "matchesRow T newRow newFields =
     tl_all_of (rowFields T) (\<lambda>f.
       case qm_find newFields (fname f) of
         Some v \<Rightarrow> fget f (fset f v newRow) = fget f newRow
       | None \<Rightarrow> True)"

text \<open>\<open>std::find_if\<close>: the position of the first match.\<close>

definition find_index :: "('a \<Rightarrow> bool) \<Rightarrow> 'a list \<Rightarrow> nat option" where
  "find_index p xs = (let n = length (takeWhile (\<lambda>x. \<not> p x) xs) in if n < length xs then Some n else None)"

definition checkPendingInsertion ::
  "('r, 'i::linorder, 'v) row_type \<Rightarrow> 'r \<Rightarrow> ('r, 'i, 'v) table \<Rightarrow> ('r, 'i, 'v) table" where
  "checkPendingInsertion T newRow t =
     (if \<not> pendingEdits t then t
      else if locallyAddedRows t = [] then t
      else (case find_index (matchesRow T newRow) (locallyAddedRows t) of
        None \<Rightarrow> t
      | Some n \<Rightarrow>
          let matchFields = locallyAddedRows t ! n;
              t1 = t\<lparr>locallyAddedRows := remove_at n (locallyAddedRows t)\<rparr>;
              draftID = idOfVariant T (qm_get matchFields DraftId);
              t2 = (if draftID \<noteq> getId T newRow then deleteRow T draftID t1 else t1);
              t3 = emit (PendingAddSettled draftID newRow) t2;
              t4 = emit (sigPendingEditSettled (qm_remove DraftId matchFields) (toVariantMap (rowFields T) newRow)) t3
          in snd (deleteBackupRow T draftID t4)))"

definition checkOverwrittenEdit ::
  "('r, 'i::linorder, 'v) row_type \<Rightarrow> 'r \<Rightarrow> LoadState \<Rightarrow> 'r \<Rightarrow> ('r, 'i, 'v) table \<Rightarrow> ('r, 'i, 'v) table" where
  "checkOverwrittenEdit T oldRow oldState newRow t =
     (if oldState \<notin> {Loading, DraftAdd, DraftEdit, DraftDelete, PendingAdd, PendingEdit, PendingDelete} then t
      else let i = getId T oldRow;
               t1 = (if oldState = DraftAdd then
                       let t0 = emit (sigDraftEditInvalidated (variantOfId T i))
                                  (emit (DraftRowInvalidated oldRow (Some newRow)) t) in
                       (case find_index (\<lambda>row. idOfVariant T (qm_get row DraftId) = i) (locallyAddedRows t0) of
                          Some n \<Rightarrow> t0\<lparr>locallyAddedRows := remove_at n (locallyAddedRows t0)\<rparr>
                        | None \<Rightarrow> t0)
                     else if oldState = DraftEdit then
                       emit (sigDraftEditInvalidated (variantOfId T i))
                         (emit (DraftRowInvalidated oldRow (Some newRow)) t)
                     else if oldState = PendingEdit then
                       emit (sigPendingEditSettled (toVariantMap (rowFields T) oldRow) (toVariantMap (rowFields T) newRow))
                         (emit (PendingEditSettled oldRow newRow) t)
                     else if oldState = DraftDelete \<or> oldState = PendingDelete then
                       emit (sigDraftEditInvalidated (variantOfId T i))
                         (emit (DraftRowInvalidated oldRow (Some newRow)) t)
                     else t)
           in snd (deleteBackupRow T i t1))"

text \<open>One row of the loop that merges a response into the table, at position \<open>pos\<close>.\<close>

definition merge_row ::
  "('r, 'i::linorder, 'v) row_type \<Rightarrow> 'r \<Rightarrow> nat \<Rightarrow> ('r, 'i, 'v) table \<Rightarrow> ('r, 'i, 'v) table" where
  "merge_row T newRow pos t =
     (if found_at (getId T) (rowList t) (getId T newRow) pos then
        let oldRow = rowList t ! pos;
            oldState = rowStates t ! pos;
            t1 = set_state pos Loaded (set_row pos newRow t)
        in if oldState = PendingAdd \<or> oldState = Loading
           then checkPendingInsertion T newRow (emit (RowLoaded newRow) t1)
           else checkOverwrittenEdit T oldRow oldState newRow (emit (RowUpdated oldRow newRow) t1)
      else checkPendingInsertion T newRow (insert_row pos newRow Loaded t))"

fun merge_rows ::
  "('r, 'i::linorder, 'v) row_type \<Rightarrow> 'r list \<Rightarrow> nat \<Rightarrow> ('r, 'i, 'v) table \<Rightarrow> ('r, 'i, 'v) table" where
  "merge_rows T [] pos t = t"
| "merge_rows T [r] pos t = merge_row T r pos t"
| "merge_rows T (r # r' # rs) pos t =
     (let t1 = merge_row T r pos t in
      merge_rows T (r' # rs) (lower_bound_from pos (getId T) (rowList t1) (getId T r')) t1)"

definition append_rows :: "('r, 'i, 'v) row_type \<Rightarrow> 'r list \<Rightarrow> ('r, 'i, 'v) table \<Rightarrow> ('r, 'i, 'v) table" where
  "append_rows T newRows t = emit (RowsAdded newRows)
     (t\<lparr>rowList := rowList t @ newRows, rowStates := rowStates t @ replicate (length newRows) Loaded\<rparr>)"

definition place_rows ::
  "('r, 'i::linorder, 'v) row_type \<Rightarrow> 'r list \<Rightarrow> ('r, 'i, 'v) table \<Rightarrow> ('r, 'i, 'v) table" where
  "place_rows T newRows t =
     (let pos = lower_bound (getId T) (rowList t) (getId T (hd newRows));
          t1 = (if pos = length (rowList t) then append_rows T newRows t else merge_rows T newRows pos t)
      in notifyUpdate T newRows t1)"

record reply =
  replyFailed :: bool
  replyBody :: json

definition processRowsResponse ::
  "('r, 'i::linorder, 'v) row_type \<Rightarrow> reply \<Rightarrow> nat \<Rightarrow> ('r, 'i, 'v) table \<Rightarrow> ('r, 'i, 'v) table" where
  "processRowsResponse T reply loadCount t =
     (if replyFailed reply then t
      else (case parseRows (replyBody reply) of
        None \<Rightarrow> t
      | Some (rows, nextKey) \<Rightarrow>
          let t1 = (if nextKey \<noteq> JNull \<and> (loadCount = 0 \<or> length rows < loadCount) then
                      let remaining = (if loadCount = 0 then 0 else loadCount - length rows) in
                      emit (CallApi GetTableRows
                        (getTableJson_from (rowTableName T) (scope t) (toString nextKey)) (RowsRequest remaining)) t
                    else t)
          in if rows = [] then t1
             else place_rows T (fromJsonArray (rowFields T) (blankRow T) rows) t1))"

text \<open>The two handlers of replies.\<close>

definition rowReply ::
  "('r, 'i::linorder, 'v) row_type \<Rightarrow> 'i \<Rightarrow> reply \<Rightarrow> ('r, 'i, 'v) table \<Rightarrow> ('r, 'i, 'v) table" where
  "rowReply T i reply t = processRowsResponse T reply 1 (t\<lparr>loadingRows := (loadingRows t)(i := None)\<rparr>)"

definition rowsReply ::
  "('r, 'i::linorder, 'v) row_type \<Rightarrow> nat \<Rightarrow> reply \<Rightarrow> ('r, 'i, 'v) table \<Rightarrow> ('r, 'i, 'v) table" where
  "rowsReply T loadCount reply t = processRowsResponse T reply loadCount t"

subsection \<open>Local edits\<close>

text \<open>
  The loop that copies an edit into the added row's record.  It takes a key out of the list only
  when the record has that key, so it may run forever: \<open>None\<close>.
\<close>

partial_function (option) edit_loop ::
  "qvariant_map \<Rightarrow> string list \<Rightarrow> qvariant_map \<Rightarrow> qvariant_map option" where
  "edit_loop changeMap keys record =
     (if keys = [] then Some record
      else if qm_find record (hd keys) \<noteq> None
      then edit_loop changeMap (tl keys) (qm_insert (hd keys) (qm_get changeMap (hd keys)) record)
      else edit_loop changeMap keys record)"

declare edit_loop.simps [code]

definition isDraftOf :: "('r, 'i, 'v) row_type \<Rightarrow> qvariant \<Rightarrow> qvariant_map \<Rightarrow> bool" where
  "isDraftOf T rowId row = variant_eq (conversions T) (qm_get row DraftId) rowId"

text \<open>\<open>None\<close> when the call does not return.\<close>

definition draftEditRow ::
  "('r, 'i::linorder, 'v) row_type \<Rightarrow> qvariant \<Rightarrow> qvariant_map \<Rightarrow> ('r, 'i, 'v) table \<Rightarrow> ('r, 'i, 'v) table option" where
  "draftEditRow T rowId changeMap t =
     (if pendingEdits t then Some t
      else let i = idOfVariant T rowId; pos = lower_bound (getId T) (rowList t) i in
        if \<not> found_at (getId T) (rowList t) i pos then Some t
        else let rowState = rowStates t ! pos in
          if rowState = DraftDelete then Some t
          else let oldRow = rowList t ! pos;
                   t1 = set_row pos (movedRow T oldRow) t;
                   scratchRow = fst (fromVariantMap (rowFields T) changeMap oldRow)
            in if getId T scratchRow \<noteq> getId T oldRow then Some t1
               else
                 let edited =
                   (if rowState \<noteq> DraftAdd \<and> rowState \<noteq> DraftEdit then
                      Some (set_state pos DraftEdit (t1\<lparr>backups := backup_save (getId T) oldRow rowState (backups t1)\<rparr>))
                    else if rowState = DraftAdd then
                      (case find_index (isDraftOf T rowId) (locallyAddedRows t1) of
                         None \<Rightarrow> Some t1
                       | Some n \<Rightarrow>
                           (case edit_loop changeMap (map fst changeMap) (locallyAddedRows t1 ! n) of
                              None \<Rightarrow> None
                            | Some record \<Rightarrow> Some (t1\<lparr>locallyAddedRows := (locallyAddedRows t1)[n := record]\<rparr>)))
                    else Some t1)
                 in (case edited of
                       None \<Rightarrow> None
                     | Some t2 \<Rightarrow>
                         Some (notifyUpdate T [scratchRow] (emit (RowDraftEdited oldRow scratchRow) (set_row pos scratchRow t2)))))"

text \<open>The id \<open>draftAddRow\<close> gives the row, or \<open>None\<close> where it refuses.\<close>

definition draftRow :: "('r, 'i::linorder, 'v) row_type \<Rightarrow> 'r \<Rightarrow> ('r, 'i, 'v) table \<Rightarrow> 'r option" where
  "draftRow T newRow t =
     (case integralId T of
        Some (zero, baseDraftId, succ) \<Rightarrow>
          if getId T newRow \<noteq> zero then None
          else Some (setId T (if rowList t = [] \<or> getId T (last (rowList t)) < baseDraftId
                              then baseDraftId else succ (getId T (last (rowList t)))) newRow)
      | None \<Rightarrow> if getRow T (getId T newRow) t \<noteq> None then None else Some newRow)"

definition draftAddRow ::
  "('r, 'i::linorder, 'v) row_type \<Rightarrow> qvariant_map \<Rightarrow> ('r, 'i, 'v) table \<Rightarrow> ('r, 'i, 'v) table" where
  "draftAddRow T fieldMap t =
     (if pendingEdits t then t
      else (case draftRow T (fst (fromVariantMap (rowFields T) fieldMap (zeroRow T))) t of
        None \<Rightarrow> t
      | Some newRow \<Rightarrow>
          let fields = qm_insert DraftId (variantOfId T (getId T newRow)) fieldMap;
              pos = lower_bound (getId T) (rowList t) (getId T newRow);
              t1 = insert_row pos newRow DraftAdd t;
              t2 = emit (RowDraftAdded newRow) (t1\<lparr>locallyAddedRows := locallyAddedRows t1 @ [fields]\<rparr>);
              t3 = t2\<lparr>backups := backup_save (getId T) newRow DraftAdd (backups t2)\<rparr>
          in notifyUpdate T [newRow] t3))"

definition draftDeleteRow ::
  "('r, 'i::linorder, 'v) row_type \<Rightarrow> qvariant \<Rightarrow> ('r, 'i, 'v) table \<Rightarrow> ('r, 'i, 'v) table" where
  "draftDeleteRow T rowId t =
     (if pendingEdits t then t
      else let i = idOfVariant T rowId; pos = lower_bound (getId T) (rowList t) i in
        if \<not> found_at (getId T) (rowList t) i pos then t
        else if rowStates t ! pos = DraftAdd then
          let t1 = t\<lparr>locallyAddedRows := filter (\<lambda>row. \<not> isDraftOf T rowId row) (locallyAddedRows t)\<rparr>
          in snd (deleteBackupRow T i (deleteRow T i t1))
        else
          let row = rowList t ! pos;
              t1 = t\<lparr>backups := backup_save (getId T) row (rowStates t ! pos) (backups t)\<rparr>;
              t2 = emit (RowDraftDeleted row) (set_state pos DraftDelete t1)
          in notifyUpdate T [row] t2)"

fun pending_state :: "LoadState \<Rightarrow> LoadState" where
  "pending_state DraftEdit = PendingEdit"
| "pending_state DraftAdd = PendingAdd"
| "pending_state DraftDelete = PendingDelete"
| "pending_state s = s"

definition pending_step ::
  "('r, 'i::linorder, 'v) row_type \<Rightarrow> 'r \<Rightarrow> ('r, 'i, 'v) table \<times> 'r list \<Rightarrow> ('r, 'i, 'v) table \<times> 'r list" where
  "pending_step T bak = (\<lambda>(t, updates).
     let pos = lower_bound (getId T) (rowList t) (getId T bak) in
     if found_at (getId T) (rowList t) (getId T bak) pos
     then (set_state pos (pending_state (rowStates t ! pos)) t, updates @ [rowList t ! pos])
     else (t, updates))"

definition markEditsPending ::
  "('r, 'i::linorder, 'v) row_type \<Rightarrow> ('r, 'i, 'v) table \<Rightarrow> ('r, 'i, 'v) table" where
  "markEditsPending T t =
     (let (t1, updates) = fold (pending_step T) (brows (backups t)) (t, []);
          t2 = notifyUpdate T updates (emit DraftChangesPending t1)
      in if \<not> backup_isEmpty (backups t2)
         then emit (sigHasPendingEditsChanged True) (t2\<lparr>pendingEdits := True\<rparr>) else t2)"

subsection \<open>Resetting the edits\<close>

text \<open>
  \<open>QList::removeAt\<close> requires a position in range; \<open>RemoveOutOfRange\<close> is the call that breaks this.
  \<open>remove_backup_at\<close> is the \<open>deleter\<close> that \<open>BackupManager::forEach\<close> hands to its callback.
\<close>

datatype reset_fault = RemoveOutOfRange nat

definition remove_backup_at :: "nat \<Rightarrow> ('r, 'i, 'v) table \<Rightarrow> reset_fault + ('r, 'i, 'v) table" where
  "remove_backup_at n t =
     (if n < length (brows (backups t))
      then Inr (t\<lparr>backups := (backups t)\<lparr>brows := remove_at n (brows (backups t)),
                                      bstates := remove_at n (bstates (backups t))\<rparr>\<rparr>)
      else Inl (RemoveOutOfRange n))"

text \<open>The callback of \<open>resetEdits\<close>, with the position the loop goes on from.\<close>

definition reset_step ::
  "('r, 'i::linorder, 'v) row_type \<Rightarrow> nat \<Rightarrow> ('r, 'i, 'v) table \<Rightarrow> reset_fault + (nat \<times> ('r, 'i, 'v) table)" where
  "reset_step T n t =
     (let bak = brows (backups t) ! n; bakState = bstates (backups t) ! n;
          pos = lower_bound (getId T) (rowList t) (getId T bak) in
      if found_at (getId T) (rowList t) (getId T bak) pos then
        let rowState = rowStates t ! pos in
        if rowState = DraftAdd \<or> rowState = PendingAdd then
          (case remove_backup_at n (deleteRow T (getId T bak) t) of
             Inl e \<Rightarrow> Inl e
           | Inr t1 \<Rightarrow> Inr (n, t1))
        else
          let t1 = (if rowState = DraftEdit \<or> rowState = PendingEdit then set_row pos bak t else t)
          in Inr (Suc n, set_state pos bakState t1)
      else (case remove_backup_at n t of Inl e \<Rightarrow> Inl e | Inr t1 \<Rightarrow> Inr (n, t1)))"

lemma notifyModels_frame [simp]:
  "rowList (notifyModels f t) = rowList t" "rowStates (notifyModels f t) = rowStates t"
  "backups (notifyModels f t) = backups t" "pendingEdits (notifyModels f t) = pendingEdits t"
  "locallyAddedRows (notifyModels f t) = locallyAddedRows t" "loadingRows (notifyModels f t) = loadingRows t"
  "scope (notifyModels f t) = scope t" "models (notifyModels f t) = map (\<lambda>m. fst (f m)) (models t)"
  by (simp_all add: notifyModels_def)

lemma deleteBackupRow_backups:
  "backups (snd (deleteBackupRow T i t)) = snd (backup_remove (getId T) i (backups t))"
  by (simp add: deleteBackupRow_def Let_def split_beta)

lemma backup_remove_length: "length (brows (snd (backup_remove key i b))) \<le> length (brows b)"
  by (simp add: backup_remove_def Let_def length_remove_at_le)

lemma deleteRow_backups_length: "length (brows (backups (deleteRow T i t))) \<le> length (brows (backups t))"
  by (simp add: deleteRow_def Let_def deleteBackupRow_backups backup_remove_length)

lemma reset_step_decreases:
  assumes "reset_step T n t = Inr (n', t')" "n < length (brows (backups t))"
  shows "length (brows (backups t')) - n' < length (brows (backups t)) - n"
  using assms deleteRow_backups_length[of T "getId T (brows (backups t) ! n)" t]
  by (auto simp: reset_step_def remove_backup_at_def Let_def split: if_splits)

function reset_loop ::
  "('r, 'i::linorder, 'v) row_type \<Rightarrow> nat \<Rightarrow> ('r, 'i, 'v) table \<Rightarrow> reset_fault + ('r, 'i, 'v) table" where
  "reset_loop T n t =
     (if n < length (brows (backups t)) then
        (case reset_step T n t of
           Inl e \<Rightarrow> Inl e
         | Inr (n', t') \<Rightarrow> reset_loop T n' t')
      else Inr t)"
  by pat_completeness auto
termination
  by (relation "measure (\<lambda>(T, n, t). length (brows (backups t)) - n)") (auto intro: reset_step_decreases)

declare reset_loop.simps [simp del]

definition resetEdits ::
  "('r, 'i::linorder, 'v) row_type \<Rightarrow> ('r, 'i, 'v) table \<Rightarrow> reset_fault + ('r, 'i, 'v) table" where
  "resetEdits T t =
     (case reset_loop T 0 t of
        Inl e \<Rightarrow> Inl e
      | Inr t1 \<Rightarrow>
          let t2 = emit LocalChangesReset t1;
              t3 = notifyUpdate T (brows (backups t2)) t2
          in Inr (t3\<lparr>backups := backup_empty, locallyAddedRows := []\<rparr>))"

subsection \<open>Models of the table\<close>

text \<open>The constructor of \<open>Model\<close>: it takes over the rows and refreshes those that are stale.\<close>

definition construct_step ::
  "('r, 'i::linorder, 'v) row_type \<Rightarrow> int \<Rightarrow> nat \<Rightarrow> ('i, 'v) model \<times> ('r, 'i, 'v) table \<Rightarrow>
     ('i, 'v) model \<times> ('r, 'i, 'v) table" where
  "construct_step T now n = (\<lambda>(m, t).
     let r = rowList t ! n;
         ids = modelIds m @ [getId T r];
         (vs, sigs) = updateVirtualRoles T ids r (rowStates t ! n) (constructVirtualFieldTuple T);
         m1 = m\<lparr>modelIds := ids, modelVirtualFields := modelVirtualFields m @ [vs]\<rparr>;
         t1 = t\<lparr>out := out t @ map (ModelSignal (modelKey m)) sigs\<rparr>
     in (m1, if rowStates t ! n = Stale then refreshRow T now (getId T r) t1 else t1))"

definition construct_model ::
  "('r, 'i::linorder, 'v) row_type \<Rightarrow> int \<Rightarrow> nat \<Rightarrow> ('r, 'i, 'v) table \<Rightarrow> ('i, 'v) model \<times> ('r, 'i, 'v) table" where
  "construct_model T now k t =
     fold (construct_step T now) [0..<length (rowList t)] (\<lparr>modelKey = k, modelIds = [], modelVirtualFields = []\<rparr>, t)"

text \<open>\<open>k\<close> is the identity of the new model.\<close>

definition allRows ::
  "('r, 'i::linorder, 'v) row_type \<Rightarrow> int \<Rightarrow> nat \<Rightarrow> ('r, 'i, 'v) table \<Rightarrow> ('r, 'i, 'v) table" where
  "allRows T now k t =
     (let t1 = (if models t = [] then fullRefresh T t else t);
          (m, t2) = construct_model T now k t1
      in t2\<lparr>models := models t2 @ [m]\<rparr>)"

text \<open>The slot on \<open>QObject::destroyed\<close>.\<close>

definition modelDestroyed :: "nat \<Rightarrow> ('r, 'i, 'v) table \<Rightarrow> ('r, 'i, 'v) table" where
  "modelDestroyed k t = t\<lparr>models := filter (\<lambda>m. modelKey m \<noteq> k) (models t)\<rparr>"

end
