(* ===== verification/TableProofs.thy ===== *)
theory TableProofs
  imports AbstractTable
begin

text \<open>
  What the operations of \<open>AbstractTable\<close> keep and what they do.  \<open>table_ok\<close> (every list sorted by id
  and parallel to its companion) is kept by every operation; \<open>table_view\<close> gives each operation its
  meaning on the map from ids to rows and load states.
\<close>

subsection \<open>Building blocks\<close>

lemma deleteBackupRow_frame [simp]:
  "rowList (snd (deleteBackupRow T i t)) = rowList t"
  "rowStates (snd (deleteBackupRow T i t)) = rowStates t"
  "models (snd (deleteBackupRow T i t)) = models t"
  "locallyAddedRows (snd (deleteBackupRow T i t)) = locallyAddedRows t"
  "loadingRows (snd (deleteBackupRow T i t)) = loadingRows t"
  "scope (snd (deleteBackupRow T i t)) = scope t"
  by (simp_all add: deleteBackupRow_def Let_def split_beta)

lemma deleteBackupRow_view [simp]: "table_view T (snd (deleteBackupRow T i t)) = table_view T t"
  by (simp add: table_view_def)

lemma deleteBackupRow_ok [ok_intros, simp]: "table_ok T t \<Longrightarrow> table_ok T (snd (deleteBackupRow T i t))"
  by (simp add: table_ok_def deleteBackupRow_backups backup_remove_ok)

lemma deleteBackupRow_result: "table_ok T t \<Longrightarrow> fst (deleteBackupRow T i t) = backup_view (getId T) (backups t) i"
  by (simp add: deleteBackupRow_def Let_def split_beta backup_remove_result table_okD)

lemma deleteBackupRow_backup_view:
  "table_ok T t \<Longrightarrow> backup_view (getId T) (backups (snd (deleteBackupRow T i t))) =
     (backup_view (getId T) (backups t))(i := None)"
  by (simp add: deleteBackupRow_backups backup_remove_view table_okD)

lemma deleteBackupRow_pending:
  "pendingEdits (snd (deleteBackupRow T i t)) \<longleftrightarrow>
     pendingEdits t \<and> \<not> backup_isEmpty (backups (snd (deleteBackupRow T i t)))"
  by (simp add: deleteBackupRow_def Let_def split_beta)

lemma backup_view_id:
  assumes "backup_ok key b" "backup_view key b i = Some (r, s)"
  shows "key r = i"
proof -
  from assms have "length (brows b) = length (bstates b)" "kmap key (brows b) (bstates b) i = Some (r, s)"
    by (simp_all add: backup_ok_def backup_view_def)
  then show ?thesis by (rule kmap_eq_SomeD) simp
qed

lemma table_view_id:
  assumes "table_ok T t" "table_view T t i = Some (r, s)"
  shows "getId T r = i"
proof -
  from assms have "length (rowList t) = length (rowStates t)" "kmap (getId T) (rowList t) (rowStates t) i = Some (r, s)"
    by (simp_all add: table_ok_def table_view_def)
  then show ?thesis by (rule kmap_eq_SomeD) simp
qed

lemma refreshRow_frame [simp]:
  "rowList (refreshRow T now i t) = rowList t" "rowStates (refreshRow T now i t) = rowStates t"
  "models (refreshRow T now i t) = models t" "backups (refreshRow T now i t) = backups t"
  "locallyAddedRows (refreshRow T now i t) = locallyAddedRows t"
  "pendingEdits (refreshRow T now i t) = pendingEdits t" "scope (refreshRow T now i t) = scope t"
  by (simp_all add: refreshRow_def rowIsLoading_def Let_def split: option.splits)

lemma refreshRow_ok [simp]: "table_ok T (refreshRow T' now i t) = table_ok T t"
  by (rule table_ok_cong) simp_all

lemma refreshRow_view [simp]: "table_view T (refreshRow T' now i t) = table_view T t"
  by (rule table_view_cong) simp_all

lemma fullRefresh_ok [simp]: "table_ok T (fullRefresh T' t) = table_ok T t"
  by (simp add: fullRefresh_def)

lemma updateScope_ok [ok_intros]: "table_ok T t \<Longrightarrow> table_ok T (updateScope T sc t)"
  by (simp add: updateScope_def Let_def) (simp add: table_ok_def)

lemma notifyModels_view [simp]: "table_view T (notifyModels f t) = table_view T t"
  by (rule table_view_cong) simp_all

lemma notifyModels_ok:
  "table_ok T t \<Longrightarrow> (\<And>m. model_ok m \<Longrightarrow> model_ok (fst (f m))) \<Longrightarrow> table_ok T (notifyModels f t)"
  by (auto simp: table_ok_def)

lemma notifyUpdate_ok [ok_intros]:
  "table_ok T t \<Longrightarrow> keys_sorted (getId T) rows \<Longrightarrow> table_ok T (notifyUpdate T rows t)"
  unfolding notifyUpdate_def by (rule notifyModels_ok) (simp_all add: updateRows_ok)

lemma notifyUpdate_view [simp]: "table_view T (notifyUpdate T rows t) = table_view T t"
  by (simp add: notifyUpdate_def)

lemma notifyUpdate_frame [simp]:
  "rowList (notifyUpdate T rows t) = rowList t" "rowStates (notifyUpdate T rows t) = rowStates t"
  "backups (notifyUpdate T rows t) = backups t" "pendingEdits (notifyUpdate T rows t) = pendingEdits t"
  "locallyAddedRows (notifyUpdate T rows t) = locallyAddedRows t"
  "loadingRows (notifyUpdate T rows t) = loadingRows t" "scope (notifyUpdate T rows t) = scope t"
  by (simp_all add: notifyUpdate_def)

text \<open>The searches of the operations, as \<open>row_pos\<close> and \<open>row_found\<close>.\<close>

lemma row_search:
  "lower_bound (getId T) (rowList t) i = row_pos T i t"
  "found_at (getId T) (rowList t) i (row_pos T i t) = row_found T i t"
  by (simp_all add: row_pos_def row_found_def)

lemma getRow_view: "table_ok T t \<Longrightarrow> getRow T i t = table_view T t i"
  by (simp add: getRow_def Let_def row_search table_view_lookup)

subsection \<open>deleteRow\<close>

text \<open>The table after the row has gone and before the models hear of it.\<close>

lemma deleteRow_not_found: "\<not> row_found T i t \<Longrightarrow> deleteRow T i t = notifyModels (model_deleteRow i) t"
  by (simp add: deleteRow_def Let_def row_search)

lemma deleteRow_rows:
  assumes "row_found T i t"
  shows "rowList (deleteRow T i t) = remove_at (row_pos T i t) (rowList t)"
    and "rowStates (deleteRow T i t) = remove_at (row_pos T i t) (rowStates t)"
  using assms by (simp_all add: deleteRow_def Let_def row_search)

lemma deleteRow_view:
  assumes "table_ok T t"
  shows "table_view T (deleteRow T i t) = (table_view T t)(i := None)"
proof (cases "row_found T i t")
  case True
  then have "table_view T (deleteRow T i t) = table_view T (erase_row (row_pos T i t) t)"
    by (intro table_view_cong) (simp_all add: deleteRow_rows)
  with row_found_at[OF True] show ?thesis by (simp add: erase_row_view[OF assms])
next
  case False
  with table_view_not_found[OF assms False] show ?thesis by (auto simp: deleteRow_not_found)
qed

lemma deleteRow_ok [ok_intros, simp]:
  assumes "table_ok T t"
  shows "table_ok T (deleteRow T i t)"
proof (cases "row_found T i t")
  case True
  have "table_ok T (erase_row (row_pos T i t) t)"
    using assms row_found_at(1)[OF True] by (rule erase_row_ok)
  then show ?thesis unfolding deleteRow_def Let_def row_search using True
    by (auto intro!: notifyModels_ok model_deleteRow_ok deleteBackupRow_ok)
next
  case False
  with assms show ?thesis
    by (simp add: deleteRow_not_found notifyModels_ok model_deleteRow_ok)
qed

lemma deleteRow_models:
  "models (deleteRow T i t) = map (\<lambda>m. fst (model_deleteRow i m)) (models t)"
  by (simp add: deleteRow_def Let_def)

lemma deleteRow_frame [simp]:
  "locallyAddedRows (deleteRow T i t) = locallyAddedRows t"
  "loadingRows (deleteRow T i t) = loadingRows t" "scope (deleteRow T i t) = scope t"
  by (simp_all add: deleteRow_def Let_def)

text \<open>The states whose deletion also drops the backup.\<close>

definition drops_backup :: "LoadState \<Rightarrow> bool" where
  "drops_backup s \<longleftrightarrow> s = PendingDelete \<or> isDraft s"

lemma deleteRow_backups:
  "backups (deleteRow T i t) =
     (if row_found T i t \<and> drops_backup (rowStates t ! row_pos T i t)
      then snd (backup_remove (getId T) i (backups t)) else backups t)"
  by (auto simp: deleteRow_def Let_def row_search deleteBackupRow_backups drops_backup_def)

subsection \<open>markStale and getNew\<close>

lemma markRowStale_frame [simp]:
  "rowList (markRowStale T now i m t) = rowList t" "rowStates (markRowStale T now i m t) = rowStates t"
  "models (markRowStale T now i m t) = models t" "backups (markRowStale T now i m t) = backups t"
  "locallyAddedRows (markRowStale T now i m t) = locallyAddedRows t"
  "pendingEdits (markRowStale T now i m t) = pendingEdits t" "scope (markRowStale T now i m t) = scope t"
  by (simp_all add: markRowStale_def)

lemma markModelsStale_frame [simp]:
  "rowList (markModelsStale T now i t) = rowList t" "rowStates (markModelsStale T now i t) = rowStates t"
  "models (markModelsStale T now i t) = models t" "backups (markModelsStale T now i t) = backups t"
  "locallyAddedRows (markModelsStale T now i t) = locallyAddedRows t"
  "pendingEdits (markModelsStale T now i t) = pendingEdits t" "scope (markModelsStale T now i t) = scope t"
proof -
  have *: "f (fold (markRowStale T now i) ms t) = f t"
    if "\<And>m t. f (markRowStale T now i m t) = f t" for f :: "('a, 'b, 'c) table \<Rightarrow> 'z" and ms
    using that by (induction ms arbitrary: t) simp_all
  show "rowList (markModelsStale T now i t) = rowList t" "rowStates (markModelsStale T now i t) = rowStates t"
    "models (markModelsStale T now i t) = models t" "backups (markModelsStale T now i t) = backups t"
    "locallyAddedRows (markModelsStale T now i t) = locallyAddedRows t"
    "pendingEdits (markModelsStale T now i t) = pendingEdits t" "scope (markModelsStale T now i t) = scope t"
    unfolding markModelsStale_def by (rule *, simp)+
qed

lemma markModelsStale_ok [simp]: "table_ok T (markModelsStale T' now i t) = table_ok T t"
  by (rule table_ok_cong) simp_all

lemma markModelsStale_view [simp]: "table_view T (markModelsStale T' now i t) = table_view T t"
  by (rule table_view_cong) simp_all

text \<open>The row and state that \<open>markStale\<close> leaves for a row that is there.\<close>

definition stale_entry ::
  "('r \<times> LoadState) option \<Rightarrow> 'r \<times> LoadState \<Rightarrow> 'r \<times> LoadState" where
  "stale_entry bak e =
     (if snd e = PendingEdit \<or> snd e = PendingDelete then e
      else if isDraft (snd e) then (case bak of Some (r, _) \<Rightarrow> (r, Stale) | None \<Rightarrow> (fst e, Stale))
      else (fst e, Stale))"

lemma markStale_spec:
  assumes "table_ok T t"
  shows "table_ok T (markStale T now i t) \<and>
    table_view T (markStale T now i t) =
      (case table_view T t i of
         None \<Rightarrow> table_view T t
       | Some e \<Rightarrow> (table_view T t)(i \<mapsto> stale_entry (backup_view (getId T) (backups t) i) e))"
proof (cases "row_found T i t")
  case False
  with assms table_view_not_found[OF assms False] show ?thesis
    by (simp add: markStale_def Let_def row_search)
next
  case found: True
  define p s r where psr_def: "p = row_pos T i t" "s = rowStates t ! p" "r = rowList t ! p"
  have p: "p < length (rowList t)" "getId T (rowList t ! p) = i"
    using row_found_at[OF found] by (simp_all add: psr_def)
  have look: "table_view T t i = Some (r, s)"
    using found by (simp add: table_view_lookup[OF assms] psr_def)
  show ?thesis
  proof (cases "s = PendingEdit \<or> s = PendingDelete")
    case True
    then have "markStale T now i t = refreshRow T now i t"
      using found by (simp add: markStale_def Let_def row_search psr_def)
    with assms True look show ?thesis by (auto simp: stale_entry_def)
  next
    case ordinary: False
    show ?thesis
    proof (cases "isDraft s")
      case False
      then have "markStale T now i t = markModelsStale T now i (emit (RowStale r) (set_state p Stale t))"
        using found ordinary by (simp add: markStale_def Let_def row_search psr_def)
      with assms False look ordinary p show ?thesis
        by (simp add: stale_entry_def set_state_ok set_state_view psr_def)
    next
      case draft: True
      define t0 where "t0 = snd (deleteBackupRow T i (emit (sigDraftEditInvalidated (variantOfId T i)) t))"
      have t0: "table_ok T t0" "table_view T t0 = table_view T t" "rowList t0 = rowList t" "rowStates t0 = rowStates t"
        using assms by (simp_all add: t0_def)
      have bak: "fst (deleteBackupRow T i (emit (sigDraftEditInvalidated (variantOfId T i)) t)) =
          backup_view (getId T) (backups t) i"
        using assms by (simp add: deleteBackupRow_result)
      define t1 where "t1 = (case backup_view (getId T) (backups t) i of
          Some (r, s) \<Rightarrow> set_state p s (set_row p r t0) | None \<Rightarrow> t0)"
      have f: "found_at (getId T) (rowList t) i p" using found by (simp add: psr_def row_search)
      have eq: "markStale T now i t =
          markModelsStale T now i (emit (RowStale (rowList (set_state p Stale t1) ! p)) (set_state p Stale t1))"
        using f ordinary draft
        by (simp add: markStale_def Let_def row_search(1) psr_def[symmetric] split_beta t0_def[symmetric] bak t1_def[symmetric])
      have step: "table_ok T (set_state p Stale t1) \<and>
          table_view T (set_state p Stale t1) =
            (table_view T t)(i \<mapsto> stale_entry (backup_view (getId T) (backups t) i) (r, s))"
      proof (cases "backup_view (getId T) (backups t) i")
        case None
        with t0 p ordinary draft show ?thesis
          by (simp add: t1_def stale_entry_def set_state_ok set_state_view psr_def)
      next
        case (Some bk)
        obtain br bs where bk: "bk = (br, bs)" by (cases bk)
        have id: "getId T br = i" using backup_view_id[OF table_okD(3)[OF assms]] Some bk by simp
        have t1: "t1 = set_state p bs (set_row p br t0)" using Some bk by (simp add: t1_def)
        have "table_ok T t1" using t0 p id by (simp add: t1 set_state_ok set_row_ok)
        moreover have "table_view T t1 = (table_view T t)(i \<mapsto> (br, bs))"
          using set_row_state_view[OF t0(1), of p br bs] t0 p id by (simp add: t1)
        moreover have "rowList t1 ! p = br" "p < length (rowList t1)" using p t0 by (simp_all add: t1)
        ultimately show ?thesis using Some bk draft ordinary id
          by (simp add: set_state_ok set_state_view stale_entry_def)
      qed
      then show ?thesis using look by (simp add: eq)
    qed
  qed
qed

lemmas markStale_ok = markStale_spec[THEN conjunct1]
lemmas markStale_view = markStale_spec[THEN conjunct2]

end
