(* ===== verification/TableMerge.thy ===== *)
theory TableMerge
  imports TableProofs
begin

text \<open>
  Rows from the node: \<open>checkPendingInsertion\<close>, \<open>checkOverwrittenEdit\<close> and the two ways
  \<open>processRowsResponse\<close> places rows.  The merge loop goes on searching from its last position; the
  first part shows that this finds what a search of the whole table would, even when settling an
  added row took another row out of the table.
\<close>

subsection \<open>The checks on a new row\<close>

text \<open>The draft row that \<open>checkPendingInsertion\<close> settles, by its id.\<close>

definition settled_draft :: "('r, 'i, 'v) row_type \<Rightarrow> 'r \<Rightarrow> ('r, 'i, 'v) table \<Rightarrow> 'i option" where
  "settled_draft T r t =
     (if pendingEdits t \<and> locallyAddedRows t \<noteq> [] then
        map_option (\<lambda>n. idOfVariant T (qm_get (locallyAddedRows t ! n) DraftId))
          (find_index (matchesRow T r) (locallyAddedRows t))
      else None)"

lemma checkPendingInsertion_cases:
  obtains "settled_draft T r t = None" "checkPendingInsertion T r t = t"
  | n d where "settled_draft T r t = Some d" "find_index (matchesRow T r) (locallyAddedRows t) = Some n"
    "d = idOfVariant T (qm_get (locallyAddedRows t ! n) DraftId)"
    "checkPendingInsertion T r t =
       (let t1 = t\<lparr>locallyAddedRows := remove_at n (locallyAddedRows t)\<rparr>;
            t2 = (if d \<noteq> getId T r then deleteRow T d t1 else t1);
            t3 = emit (PendingAddSettled d r) t2;
            t4 = emit (sigPendingEditSettled (qm_remove DraftId (locallyAddedRows t ! n)) (toVariantMap (rowFields T) r)) t3
        in snd (deleteBackupRow T d t4))"
proof (cases "settled_draft T r t")
  case None
  then have "checkPendingInsertion T r t = t"
    by (auto simp: settled_draft_def checkPendingInsertion_def split: if_splits)
  with None that(1) show thesis by blast
next
  case (Some d)
  then obtain n where n: "find_index (matchesRow T r) (locallyAddedRows t) = Some n"
    "d = idOfVariant T (qm_get (locallyAddedRows t ! n) DraftId)" "pendingEdits t" "locallyAddedRows t \<noteq> []"
    by (auto simp: settled_draft_def split: if_splits)
  then show thesis by (intro that(2)[OF Some n(1,2)]) (simp add: checkPendingInsertion_def Let_def)
qed

lemma find_index_Some: "find_index p xs = Some n \<Longrightarrow> n < length xs \<and> p (xs ! n)"
  using nth_length_takeWhile[of "\<lambda>x. \<not> p x" xs] by (auto simp: find_index_def Let_def split: if_splits)

lemma find_index_None: "find_index p xs = None \<longleftrightarrow> (\<forall>x \<in> set xs. \<not> p x)"
proof -
  have "length (takeWhile (\<lambda>x. \<not> p x) xs) < length xs \<longleftrightarrow> (\<exists>x \<in> set xs. p x)"
    by (induction xs) auto
  then show ?thesis by (auto simp: find_index_def Let_def)
qed

lemma local_rows_ok [simp]: "table_ok T (t\<lparr>locallyAddedRows := xs\<rparr>) = table_ok T t"
  by (rule table_ok_cong) simp_all

lemma local_rows_view [simp]: "table_view T (t\<lparr>locallyAddedRows := xs\<rparr>) = table_view T t"
  by (rule table_view_cong) simp_all

lemma checkPendingInsertion_ok [ok_intros, simp]:
  assumes "table_ok T t"
  shows "table_ok T (checkPendingInsertion T r t)"
proof (cases rule: checkPendingInsertion_cases[of T r t])
  case 1
  with assms show ?thesis by simp
next
  case (2 n d)
  show ?thesis unfolding 2(4) Let_def using assms by (simp add: deleteBackupRow_ok)
qed

lemma checkPendingInsertion_view:
  assumes "table_ok T t"
  shows "table_view T (checkPendingInsertion T r t) =
    (case settled_draft T r t of
       Some d \<Rightarrow> if d \<noteq> getId T r then (table_view T t)(d := None) else table_view T t
     | None \<Rightarrow> table_view T t)"
proof (cases rule: checkPendingInsertion_cases[of T r t])
  case 1
  then show ?thesis by simp
next
  case (2 n d)
  show ?thesis unfolding 2(4) Let_def using assms 2(1) by (simp add: deleteRow_view)
qed

lemma checkOverwrittenEdit_frame:
  "rowList (checkOverwrittenEdit T old s new t) = rowList t"
  "rowStates (checkOverwrittenEdit T old s new t) = rowStates t"
  "models (checkOverwrittenEdit T old s new t) = models t"
  by (simp_all add: checkOverwrittenEdit_def Let_def split: option.splits)

lemma checkOverwrittenEdit_backups:
  "backups (checkOverwrittenEdit T old s new t) =
     (if s \<in> {Loaded, Stale} then backups t else snd (backup_remove (getId T) (getId T old) (backups t)))"
  by (cases s) (simp_all add: checkOverwrittenEdit_def Let_def deleteBackupRow_backups split: option.splits)

lemma checkOverwrittenEdit_ok [ok_intros, simp]:
  "table_ok T t \<Longrightarrow> table_ok T (checkOverwrittenEdit T old s new t)"
  by (simp add: table_ok_def checkOverwrittenEdit_frame checkOverwrittenEdit_backups backup_remove_ok)

lemma checkOverwrittenEdit_view [simp]:
  "table_view T (checkOverwrittenEdit T old s new t) = table_view T t"
  by (rule table_view_cong) (simp_all add: checkOverwrittenEdit_frame)

subsection \<open>Positions\<close>

text \<open>All rows before \<open>pos\<close> are at most \<open>k\<close>: the search for a larger id may start there.\<close>

definition before_ok :: "('r, 'i::linorder, 'v) row_type \<Rightarrow> 'i \<Rightarrow> nat \<Rightarrow> 'r list \<Rightarrow> bool" where
  "before_ok T k pos xs \<longleftrightarrow> pos \<le> length xs \<and> (\<forall>j < pos. getId T (xs ! j) \<le> k)"

lemma before_ok_found:
  assumes "keys_sorted (getId T) xs" "found_at (getId T) xs k pos"
  shows "before_ok T k pos xs"
proof -
  have "getId T (xs ! j) \<le> k" if "j < pos" for j
    using assms(2) keys_sorted_nth_less[OF assms(1) that] by (auto simp: found_at_def less_imp_le)
  then show ?thesis using assms(2) by (simp add: before_ok_def found_at_def)
qed

lemma before_ok_remove:
  assumes "keys_sorted (getId T) xs" "found_at (getId T) xs k pos" "q < length xs"
  shows "before_ok T k pos (remove_at q xs)"
proof -
  have "getId T (remove_at q xs ! j) \<le> k" if "j < pos" for j
  proof -
    have pos: "pos < length xs" "getId T (xs ! pos) = k" using assms(2) by (auto simp: found_at_def)
    have "remove_at q xs ! j = xs ! j \<or> remove_at q xs ! j = xs ! Suc j"
      using that pos assms(3) by (auto simp: remove_at_def nth_append min_def)
    moreover have "getId T (xs ! j) \<le> k" "getId T (xs ! Suc j) \<le> k"
      using that pos keys_sorted_nth_less[OF assms(1), of j pos]
        keys_sorted_nth_less[OF assms(1), of "Suc j" pos] by (cases "Suc j = pos"; auto simp: less_imp_le)+
    ultimately show ?thesis by auto
  qed
  moreover have "pos \<le> length (remove_at q xs)" using assms by (auto simp: found_at_def)
  ultimately show ?thesis by (simp add: before_ok_def)
qed

lemma before_ok_search:
  assumes "keys_sorted (getId T) xs" "before_ok T k pos xs" "k < k'"
  shows "lower_bound_from pos (getId T) xs k' = lower_bound (getId T) xs k'"
  using assms by (intro lower_bound_from_eq) (auto simp: before_ok_def)

lemma checkPendingInsertion_before:
  assumes "table_ok T t" "found_at (getId T) (rowList t) (getId T r) pos"
  shows "before_ok T (getId T r) pos (rowList (checkPendingInsertion T r t))"
proof -
  have sorted: "keys_sorted (getId T) (rowList t)" using assms(1) by (rule table_okD)
  have gone: "before_ok T (getId T r) pos (rowList (deleteRow T d t'))" if "rowList t' = rowList t" for d t'
  proof (cases "row_found T d t'")
    case True
    show ?thesis unfolding deleteRow_rows(1)[OF True] that
      using sorted assms(2) row_found_at(1)[OF True] by (intro before_ok_remove) (simp_all add: that)
  next
    case False
    then show ?thesis using sorted assms(2) by (simp add: deleteRow_not_found that before_ok_found)
  qed
  show ?thesis
  proof (cases rule: checkPendingInsertion_cases[of T r t])
    case 1
    with sorted assms(2) show ?thesis by (simp add: before_ok_found)
  next
    case (2 n d)
    have "rowList (checkPendingInsertion T r t) =
        (if d \<noteq> getId T r then rowList (deleteRow T d (t\<lparr>locallyAddedRows := remove_at n (locallyAddedRows t)\<rparr>)) else rowList t)"
      unfolding 2(4) Let_def by simp
    then show ?thesis
      using gone[of "t\<lparr>locallyAddedRows := remove_at n (locallyAddedRows t)\<rparr>" d] sorted assms(2)
      by (simp add: before_ok_found)
  qed
qed

subsection \<open>One row\<close>

text \<open>The table with the row in its place, before the checks.\<close>

definition put_row ::
  "('r, 'i::linorder, 'v) row_type \<Rightarrow> 'r \<Rightarrow> ('r, 'i, 'v) table \<Rightarrow> ('r, 'i, 'v) table" where
  "put_row T r t =
     (let pos = row_pos T (getId T r) t in
      if row_found T (getId T r) t then set_state pos Loaded (set_row pos r t) else insert_row pos r Loaded t)"

lemma put_row_ok: "table_ok T t \<Longrightarrow> table_ok T (put_row T r t)"
  using row_found_at[of T "getId T r" t]
  by (auto simp: put_row_def Let_def set_state_ok set_row_ok insert_row_ok)

lemma put_row_view:
  assumes "table_ok T t"
  shows "table_view T (put_row T r t) = (table_view T t)(getId T r \<mapsto> (r, Loaded))"
  using assms row_found_at[of T "getId T r" t]
  by (auto simp: put_row_def Let_def set_row_state_view insert_row_view)

lemma put_row_found: "found_at (getId T) (rowList (put_row T r t)) (getId T r) (row_pos T (getId T r) t)"
  using row_found_at[of T "getId T r" t]
  by (auto simp: put_row_def Let_def found_at_def le_imp_less_Suc)

lemma put_row_frame [simp]:
  "pendingEdits (put_row T r t) = pendingEdits t" "locallyAddedRows (put_row T r t) = locallyAddedRows t"
  "models (put_row T r t) = models t" "backups (put_row T r t) = backups t"
  by (simp_all add: put_row_def Let_def)

text \<open>Which check the row gets: \<open>None\<close> for \<open>checkPendingInsertion\<close>, else the overwritten row.\<close>

definition overwritten :: "('r, 'i::linorder, 'v) row_type \<Rightarrow> 'r \<Rightarrow> ('r, 'i, 'v) table \<Rightarrow> ('r \<times> LoadState) option" where
  "overwritten T r t =
     (let pos = row_pos T (getId T r) t in
      if row_found T (getId T r) t \<and> rowStates t ! pos \<notin> {PendingAdd, Loading}
      then Some (rowList t ! pos, rowStates t ! pos) else None)"

lemma merge_row_eq:
  "\<exists>ev. merge_row T r (row_pos T (getId T r) t) t =
     (let t1 = (put_row T r t)\<lparr>out := out t @ ev\<rparr> in
      case overwritten T r t of
        Some (old, s) \<Rightarrow> checkOverwrittenEdit T old s r t1
      | None \<Rightarrow> checkPendingInsertion T r t1)"
proof (cases "row_found T (getId T r) t")
  case True
  define s where "s = rowStates t ! row_pos T (getId T r) t"
  define old where "old = rowList t ! row_pos T (getId T r) t"
  show ?thesis
  proof (cases "s = PendingAdd \<or> s = Loading")
    case pend: True
    then have "merge_row T r (row_pos T (getId T r) t) t =
        checkPendingInsertion T r (emit (RowLoaded r) (put_row T r t))"
      using True by (simp add: merge_row_def put_row_def Let_def row_search s_def)
    moreover have "emit (RowLoaded r) (put_row T r t) = (put_row T r t)\<lparr>out := out t @ [RowLoaded r]\<rparr>"
      by (simp add: emit_def put_row_def Let_def set_state_def set_row_def insert_row_def)
    ultimately show ?thesis using pend True
      by (intro exI[of _ "[RowLoaded r]"]) (auto simp: overwritten_def Let_def s_def)
  next
    case over: False
    then have "merge_row T r (row_pos T (getId T r) t) t =
        checkOverwrittenEdit T old s r (emit (RowUpdated old r) (put_row T r t))"
      using True by (simp add: merge_row_def put_row_def Let_def row_search s_def old_def)
    moreover have "emit (RowUpdated old r) (put_row T r t) = (put_row T r t)\<lparr>out := out t @ [RowUpdated old r]\<rparr>"
      by (simp add: emit_def put_row_def Let_def set_state_def set_row_def insert_row_def)
    ultimately show ?thesis using over True
      by (intro exI[of _ "[RowUpdated old r]"]) (auto simp: overwritten_def Let_def s_def old_def)
  qed
next
  case False
  then have "merge_row T r (row_pos T (getId T r) t) t = checkPendingInsertion T r (put_row T r t)"
    by (simp add: merge_row_def put_row_def Let_def row_search)
  with False show ?thesis
    by (intro exI[of _ "[]"])
      (simp add: overwritten_def Let_def put_row_def insert_row_def)
qed

lemma out_ok [simp]: "table_ok T (t\<lparr>out := evs\<rparr>) = table_ok T t" "table_view T (t\<lparr>out := evs\<rparr>) = table_view T t"
  by (simp_all add: table_ok_def table_view_def)

text \<open>No draft row is waiting to be settled by a row from the node.\<close>

definition nothing_to_settle :: "('r, 'i, 'v) table \<Rightarrow> bool" where
  "nothing_to_settle t \<longleftrightarrow> \<not> pendingEdits t \<or> locallyAddedRows t = []"

lemma nothing_settled: "nothing_to_settle t \<Longrightarrow> settled_draft T r t = None"
  by (auto simp: nothing_to_settle_def settled_draft_def)

lemma nothing_to_settle_overwritten:
  "nothing_to_settle t \<Longrightarrow> nothing_to_settle (checkOverwrittenEdit T old s new t)"
  by (auto simp: nothing_to_settle_def checkOverwrittenEdit_def Let_def deleteBackupRow_pending
      find_index_def split: option.splits if_splits)

lemma merge_row_spec:
  fixes r
  assumes "table_ok T t"
  defines "t' \<equiv> merge_row T r (row_pos T (getId T r) t) t"
  shows "table_ok T t'" "before_ok T (getId T r) (row_pos T (getId T r) t) (rowList t')"
    and "nothing_to_settle t \<Longrightarrow> nothing_to_settle t' \<and> table_view T t' = (table_view T t)(getId T r \<mapsto> (r, Loaded))"
    and "table_view T t' (getId T r) = Some (r, Loaded)"
proof -
  obtain ev where eq: "t' = (let t1 = (put_row T r t)\<lparr>out := out t @ ev\<rparr> in
      case overwritten T r t of
        Some (old, s) \<Rightarrow> checkOverwrittenEdit T old s r t1
      | None \<Rightarrow> checkPendingInsertion T r t1)"
    using merge_row_eq[of T r t] by (auto simp: t'_def)
  define t1 where "t1 = (put_row T r t)\<lparr>out := out t @ ev\<rparr>"
  have t1: "table_ok T t1" "table_view T t1 = (table_view T t)(getId T r \<mapsto> (r, Loaded))"
    "found_at (getId T) (rowList t1) (getId T r) (row_pos T (getId T r) t)"
    "pendingEdits t1 = pendingEdits t" "locallyAddedRows t1 = locallyAddedRows t"
    using assms(1) by (simp_all add: t1_def put_row_ok put_row_view put_row_found)
  have "table_ok T t' \<and> before_ok T (getId T r) (row_pos T (getId T r) t) (rowList t') \<and>
      (nothing_to_settle t \<longrightarrow> nothing_to_settle t' \<and> table_view T t' = (table_view T t)(getId T r \<mapsto> (r, Loaded))) \<and>
      table_view T t' (getId T r) = Some (r, Loaded)"
  proof (cases "overwritten T r t")
    case None
    have "t' = checkPendingInsertion T r t1" using None by (simp add: eq t1_def)
    moreover have "checkPendingInsertion T r t1 = t1" if "nothing_to_settle t"
    proof -
      have "settled_draft T r t1 = None" using that t1 by (auto simp: settled_draft_def nothing_to_settle_def)
      then show ?thesis by (cases rule: checkPendingInsertion_cases[of T r t1]) simp_all
    qed
    ultimately show ?thesis using t1 checkPendingInsertion_before[OF t1(1,3)]
      by (auto simp: checkPendingInsertion_view nothing_to_settle_def split: option.splits)
  next
    case (Some os)
    obtain old s where os: "os = (old, s)" by (cases os)
    have "t' = checkOverwrittenEdit T old s r t1" using Some os by (simp add: eq t1_def)
    moreover have "nothing_to_settle t \<Longrightarrow> nothing_to_settle (checkOverwrittenEdit T old s r t1)"
      using t1 by (intro nothing_to_settle_overwritten) (simp add: nothing_to_settle_def)
    ultimately show ?thesis using t1 before_ok_found[OF table_okD(2)[OF t1(1)] t1(3)]
      by (simp add: checkOverwrittenEdit_frame)
  qed
  then show "table_ok T t'" "before_ok T (getId T r) (row_pos T (getId T r) t) (rowList t')"
    and "nothing_to_settle t \<Longrightarrow> nothing_to_settle t' \<and> table_view T t' = (table_view T t)(getId T r \<mapsto> (r, Loaded))"
    and "table_view T t' (getId T r) = Some (r, Loaded)" by auto
qed

subsection \<open>A response\<close>

definition loaded_map :: "('r, 'i, 'v) row_type \<Rightarrow> 'r list \<Rightarrow> 'i \<rightharpoonup> 'r \<times> LoadState" where
  "loaded_map T rs = map_of (map (\<lambda>r. (getId T r, (r, Loaded))) rs)"

lemma merge_rows_spec:
  assumes "table_ok T t" "keys_sorted (getId T) rs" "rs \<noteq> []" "pos = row_pos T (getId T (hd rs)) t"
  shows "table_ok T (merge_rows T rs pos t) \<and>
    (nothing_to_settle t \<longrightarrow> table_view T (merge_rows T rs pos t) = table_view T t ++ loaded_map T rs)"
  using assms
proof (induction T rs pos t rule: merge_rows.induct)
  case (2 T r pos t)
  then show ?case using merge_row_spec[of T t r]
    by (simp add: loaded_map_def fun_eq_iff map_add_def)
next
  case (3 T r r' rs pos t)
  define t1 where "t1 = merge_row T r (row_pos T (getId T r) t) t"
  have pos: "pos = row_pos T (getId T r) t" using 3(5) by simp
  note spec = merge_row_spec[OF 3(2), of r, folded t1_def]
  have less: "getId T r < getId T r'" and sorted: "keys_sorted (getId T) (r' # rs)"
    and fresh: "getId T r \<notin> getId T ` set (r' # rs)"
    using 3(3) by (auto simp: keys_sorted_Cons)
  have next_pos: "lower_bound_from pos (getId T) (rowList t1) (getId T r') = row_pos T (getId T r') t1"
    using before_ok_search[OF table_okD(2)[OF spec(1)] spec(2) less] by (simp add: pos row_pos_def)
  have IH: "table_ok T (merge_rows T (r' # rs) (row_pos T (getId T r') t1) t1) \<and>
      (nothing_to_settle t1 \<longrightarrow> table_view T (merge_rows T (r' # rs) (row_pos T (getId T r') t1) t1) =
        table_view T t1 ++ loaded_map T (r' # rs))"
    using 3(1)[OF refl] spec(1) sorted by (simp add: pos[symmetric] t1_def[folded pos] next_pos[unfolded t1_def pos, folded pos])
  have upd: "loaded_map T (r # r' # rs) = (loaded_map T (r' # rs))(getId T r \<mapsto> (r, Loaded))"
    by (simp add: loaded_map_def)
  have "loaded_map T (r' # rs) (getId T r) = None"
    using fresh by (auto simp: loaded_map_def map_of_eq_None_iff)
  then have "(m(getId T r \<mapsto> (r, Loaded))) ++ loaded_map T (r' # rs) = m ++ loaded_map T (r # r' # rs)" for m
    by (auto simp: upd map_add_def split: option.splits)
  with IH spec(3) show ?case by (simp add: t1_def[folded pos, symmetric] next_pos)
qed simp

lemma append_rows_spec:
  assumes "table_ok T t" "keys_sorted (getId T) rs" "rs \<noteq> []"
    "row_pos T (getId T (hd rs)) t = length (rowList t)"
  shows "table_ok T (append_rows T rs t)"
    and "table_view T (append_rows T rs t) = table_view T t ++ loaded_map T rs"
proof -
  have below: "getId T x < getId T r" if "x \<in> set (rowList t)" "r \<in> set rs" for x r
  proof -
    have "getId T x < getId T (hd rs)"
      using lower_bound_before[OF table_okD(2)[OF assms(1)], of x "getId T (hd rs)"] that assms(4)
      by (simp add: row_pos_def)
    also have "\<dots> \<le> getId T r" using assms(2,3) that(2) by (cases rs) (auto simp: keys_sorted_Cons less_imp_le)
    finally show ?thesis .
  qed
  then show "table_ok T (append_rows T rs t)"
    using assms by (simp add: append_rows_def table_ok_def keys_sorted_append)
  have "zip (map (getId T) rs) (zip rs (replicate (length rs) Loaded)) = map (\<lambda>r. (getId T r, (r, Loaded))) rs"
    by (induction rs) simp_all
  then have "kmap (getId T) rs (replicate (length rs) Loaded) = loaded_map T rs"
    by (simp add: kmap_def loaded_map_def)
  moreover have "getId T ` set (rowList t) \<inter> getId T ` set rs = {}" using below by force
  ultimately show "table_view T (append_rows T rs t) = table_view T t ++ loaded_map T rs"
    using table_okD(1)[OF assms(1)] by (simp add: append_rows_def table_view_def kmap_append)
qed

lemma place_rows_spec:
  assumes "table_ok T t" "keys_sorted (getId T) rs" "rs \<noteq> []"
  shows "table_ok T (place_rows T rs t)"
    and "nothing_to_settle t \<Longrightarrow> table_view T (place_rows T rs t) = table_view T t ++ loaded_map T rs"
  using append_rows_spec[OF assms] merge_rows_spec[OF assms refl] assms(2)
  by (auto simp: place_rows_def Let_def row_search intro!: notifyUpdate_ok)

text \<open>A response in the order of the table's keys keeps the table well-formed.\<close>

definition sorted_response :: "('r, 'i::linorder, 'v) row_type \<Rightarrow> reply \<Rightarrow> bool" where
  "sorted_response T reply \<longleftrightarrow>
     (case parseRows (replyBody reply) of
        Some (rows, _) \<Rightarrow> keys_sorted (getId T) (fromJsonArray (rowFields T) (blankRow T) rows)
      | None \<Rightarrow> True)"

lemma processRowsResponse_ok [ok_intros]:
  "table_ok T t \<Longrightarrow> sorted_response T reply \<Longrightarrow> table_ok T (processRowsResponse T reply n t)"
  by (auto simp: processRowsResponse_def sorted_response_def Let_def fromJsonArray_def
      intro!: place_rows_spec split: option.splits)

lemma processRowsResponse_view:
  assumes "table_ok T t" "\<not> replyFailed reply" "parseRows (replyBody reply) = Some (rows, nextKey)"
    "rs = fromJsonArray (rowFields T) (blankRow T) rows" "keys_sorted (getId T) rs" "nothing_to_settle t"
  shows "table_view T (processRowsResponse T reply n t) = table_view T t ++ loaded_map T rs"
proof (cases "rows = []")
  case True
  with assms show ?thesis by (simp add: processRowsResponse_def fromJsonArray_def loaded_map_def)
next
  case False
  with assms(4) have "rs \<noteq> []" by (simp add: fromJsonArray_def)
  then show ?thesis using False assms place_rows_spec(2)[of T _ rs]
    by (simp add: processRowsResponse_def nothing_to_settle_def)
qed

lemma rowReply_ok [ok_intros]:
  "table_ok T t \<Longrightarrow> sorted_response T reply \<Longrightarrow> table_ok T (rowReply T i reply t)"
  unfolding rowReply_def by (rule processRowsResponse_ok) (simp_all add: table_ok_def)

end
