(* ===== verification/TableEdits.thy ===== *)
theory TableEdits
  imports TableMerge
begin

text \<open>
  The local edits of a table: drafting, marking pending, resetting.  The laws a row type must obey are
  the locale \<open>row_laws\<close>; the theory \<open>Tables\<close> interprets it on the two row types of the program.
\<close>

subsection \<open>Row types that obey the laws\<close>

locale row_laws =
  fixes T :: "('r, 'i::linorder, 'v) row_type"
  assumes get_set_id: "getId T (setId T i r) = i"
    and id_variant: "idOfVariant T (variantOfId T i) = i"
    and members: "reflected (rowFields T)"

text \<open>There is an id left above the ids of the drafts: the numeric ids have not run out.\<close>

definition ids_left :: "('r, 'i::linorder, 'v) row_type \<Rightarrow> ('r, 'i, 'v) table \<Rightarrow> bool" where
  "ids_left T t \<longleftrightarrow>
     (case integralId T of
        None \<Rightarrow> True
      | Some (zero, baseDraftId, succ) \<Rightarrow>
          rowList t = [] \<or> getId T (last (rowList t)) < baseDraftId \<or>
          getId T (last (rowList t)) < succ (getId T (last (rowList t))))"

lemma below_last:
  assumes "keys_sorted key xs" "x \<in> set xs"
  shows "key x \<le> key (last xs)"
proof -
  from assms(2) obtain j where j: "j < length xs" "xs ! j = x" by (auto simp: in_set_conv_nth)
  then have "last xs = xs ! (length xs - 1)" by (intro last_conv_nth) auto
  then show ?thesis
    using j keys_sorted_nth_less[OF assms(1), of j "length xs - 1"] by (cases "j = length xs - 1") (auto simp: less_imp_le)
qed

text \<open>Other fields of the state do not matter to the invariant and the view.\<close>

lemma backups_update_ok:
  "table_ok T t \<Longrightarrow> backup_ok (getId T) b \<Longrightarrow> table_ok T (t\<lparr>backups := b\<rparr>)"
  by (simp add: table_ok_def)

lemma backups_update_view [simp]: "table_view T (t\<lparr>backups := b\<rparr>) = table_view T t"
  by (rule table_view_cong) simp_all

lemma pending_update_ok [simp]:
  "table_ok T (t\<lparr>pendingEdits := p\<rparr>) = table_ok T t" "table_view T (t\<lparr>pendingEdits := p\<rparr>) = table_view T t"
  by (simp_all add: table_ok_def table_view_def)

lemma backups_update_find [simp]:
  "row_pos T i (t\<lparr>backups := b\<rparr>) = row_pos T i t" "row_found T i (t\<lparr>backups := b\<rparr>) = row_found T i t"
  by (simp_all add: row_pos_def row_found_def)

lemma save_ok:
  "table_ok T t \<Longrightarrow> table_ok T (t\<lparr>backups := backup_save (getId T) r s (backups t)\<rparr>)"
  by (simp add: backups_update_ok backup_save_ok table_okD)

subsection \<open>Adding\<close>

lemma draftRow_fresh:
  assumes "row_laws T" "table_ok T t" "draftRow T newRow t = Some r" "ids_left T t"
  shows "\<not> row_found T (getId T r) t"
proof (cases "integralId T")
  case None
  with assms(3) have "getRow T (getId T r) t = None"
    by (cases "getRow T (getId T r) t") (auto simp: draftRow_def split: if_splits)
  then show ?thesis by (auto simp: getRow_def Let_def row_search split: if_splits)
next
  case (Some z)
  obtain zero base succ where z: "z = (zero, base, succ)" by (cases z)
  define i where "i = (if rowList t = [] \<or> getId T (last (rowList t)) < base
      then base else succ (getId T (last (rowList t))))"
  have "getId T r = i"
    using assms(3) Some z by (auto simp: draftRow_def i_def row_laws.get_set_id[OF assms(1)] split: if_splits)
  moreover have "i \<notin> getId T ` set (rowList t)"
  proof
    assume "i \<in> getId T ` set (rowList t)"
    then obtain x where x: "x \<in> set (rowList t)" "getId T x = i" by auto
    then have "i \<le> getId T (last (rowList t))"
      using below_last[OF table_okD(2)[OF assms(2)] x(1)] by simp
    with x assms(4) Some z show False by (auto simp: i_def ids_left_def split: if_splits)
  qed
  ultimately show ?thesis using row_found_iff[OF assms(2)] dom_table_view[OF assms(2)] by simp
qed


text \<open>Adding a draft row puts exactly this row, in state \<open>DraftAdd\<close>, under a new id.\<close>

lemma draftAddRow_spec:
  assumes "row_laws T" "table_ok T t" "ids_left T t" "\<not> pendingEdits t"
    "draftRow T (fst (fromVariantMap (rowFields T) fieldMap (zeroRow T))) t = Some r"
  shows "table_ok T (draftAddRow T fieldMap t)"
    and "table_view T t (getId T r) = None"
    and "table_view T (draftAddRow T fieldMap t) = (table_view T t)(getId T r \<mapsto> (r, DraftAdd))"
    and "backups (draftAddRow T fieldMap t) = backup_save (getId T) r DraftAdd (backups t)"
    and "locallyAddedRows (draftAddRow T fieldMap t) =
      locallyAddedRows t @ [qm_insert DraftId (variantOfId T (getId T r)) fieldMap]"
proof -
  have fresh: "\<not> row_found T (getId T r) t" using assms by (intro draftRow_fresh)
  define t1 where "t1 = insert_row (row_pos T (getId T r) t) r DraftAdd t"
  have t1: "table_ok T t1" "table_view T t1 = (table_view T t)(getId T r \<mapsto> (r, DraftAdd))"
    "backups t1 = backups t" "locallyAddedRows t1 = locallyAddedRows t"
    using assms(2) fresh by (simp_all add: t1_def insert_row_ok insert_row_view)
  have eq: "draftAddRow T fieldMap t = notifyUpdate T [r]
      ((emit (RowDraftAdded r) (t1\<lparr>locallyAddedRows := locallyAddedRows t @
          [qm_insert DraftId (variantOfId T (getId T r)) fieldMap]\<rparr>))
        \<lparr>backups := backup_save (getId T) r DraftAdd (backups t)\<rparr>)"
    using assms(4,5) t1(3,4) by (simp add: draftAddRow_def Let_def row_search t1_def)
  have "backup_ok (getId T) (backup_save (getId T) r DraftAdd (backups t))"
    using assms(2) by (intro backup_save_ok table_okD)
  then show "table_ok T (draftAddRow T fieldMap t)"
    unfolding eq using t1(1) by (intro notifyUpdate_ok backups_update_ok) simp_all
  show "table_view T t (getId T r) = None" using assms(2) fresh by (rule table_view_not_found)
  show "table_view T (draftAddRow T fieldMap t) = (table_view T t)(getId T r \<mapsto> (r, DraftAdd))"
    by (simp add: eq t1)
  show "backups (draftAddRow T fieldMap t) = backup_save (getId T) r DraftAdd (backups t)"
    by (simp add: eq)
  show "locallyAddedRows (draftAddRow T fieldMap t) =
      locallyAddedRows t @ [qm_insert DraftId (variantOfId T (getId T r)) fieldMap]"
    by (simp add: eq)
qed

lemma draftAddRow_refused:
  "pendingEdits t \<or> draftRow T (fst (fromVariantMap (rowFields T) fieldMap (zeroRow T))) t = None \<Longrightarrow>
     draftAddRow T fieldMap t = t"
  by (auto simp: draftAddRow_def)

lemma draftAddRow_ok [ok_intros]:
  assumes "row_laws T" "table_ok T t" "ids_left T t"
  shows "table_ok T (draftAddRow T fieldMap t)"
proof (cases "pendingEdits t \<or> draftRow T (fst (fromVariantMap (rowFields T) fieldMap (zeroRow T))) t = None")
  case True
  with assms show ?thesis by (simp add: draftAddRow_refused)
next
  case False
  then show ?thesis using draftAddRow_spec(1)[OF assms] by auto
qed

subsection \<open>The loop over the keys of an edit\<close>

lemma edit_loop_returns:
  "set keys \<subseteq> fst ` set r \<Longrightarrow> \<exists>r'. edit_loop c keys r = Some r'"
proof (induction keys arbitrary: r)
  case Nil
  then show ?case by (simp add: edit_loop.simps)
next
  case (Cons k keys)
  then have "map_of r k \<noteq> None" by (auto simp: map_of_eq_None_iff)
  moreover have "set keys \<subseteq> fst ` set (qm_insert k (qm_get c k) r)"
    using Cons.prems by (auto simp: qm_insert_keys)
  from Cons.IH[OF this] obtain r' where "edit_loop c keys (qm_insert k (qm_get c k) r) = Some r'" by blast
  ultimately show ?case by (subst edit_loop.simps) (simp add: qm_find_def)
qed

text \<open>A key the record lacks: the loop never returns.\<close>

lemma edit_loop_stuck_result:
  "edit_loop c keys r = Some r' \<Longrightarrow> set keys \<subseteq> fst ` set r"
proof (erule edit_loop.raw_induct[where P = "\<lambda>c keys r r'. set keys \<subseteq> fst ` set r", rotated])
  fix loop :: "qvariant_map \<Rightarrow> string list \<Rightarrow> qvariant_map \<Rightarrow> qvariant_map option"
    and c keys r r'
  assume IH: "\<And>c keys r r'. loop c keys r = Some r' \<Longrightarrow> set keys \<subseteq> fst ` set r"
    and eq: "(if keys = [] then Some r
      else if qm_find r (hd keys) \<noteq> None
      then loop c (tl keys) (qm_insert (hd keys) (qm_get c (hd keys)) r)
      else loop c keys r) = Some r'"
  show "set keys \<subseteq> fst ` set r"
  proof (cases "keys = [] \<or> qm_find r (hd keys) = None")
    case True
    with IH eq show ?thesis by (auto split: if_splits)
  next
    case False
    then have mem: "hd keys \<in> fst ` set r"
      by (metis map_of_eq_None_iff qm_find_def)
    have "set (tl keys) \<subseteq> fst ` set (qm_insert (hd keys) (qm_get c (hd keys)) r)"
      using eq False by (intro IH) simp
    then have "set (tl keys) \<subseteq> fst ` set r" using mem by (auto simp: qm_insert_keys)
    with mem False show ?thesis by (cases keys) auto
  qed
qed

lemma edit_loop_iff: "(\<exists>r'. edit_loop c keys r = Some r') \<longleftrightarrow> set keys \<subseteq> fst ` set r"
  using edit_loop_returns edit_loop_stuck_result by blast

subsection \<open>Editing\<close>

text \<open>The state of a row after a draft edit.\<close>

definition edited_state :: "LoadState \<Rightarrow> LoadState" where
  "edited_state s = (if s = DraftAdd \<or> s = DraftEdit then s else DraftEdit)"

definition edited_row :: "('r, 'i, 'v) row_type \<Rightarrow> qvariant_map \<Rightarrow> 'r \<Rightarrow> 'r" where
  "edited_row T changeMap r = fst (fromVariantMap (rowFields T) changeMap r)"

text \<open>The condition under which a draft edit goes through.\<close>

definition editable ::
  "('r, 'i::linorder, 'v) row_type \<Rightarrow> 'i \<Rightarrow> qvariant_map \<Rightarrow> ('r, 'i, 'v) table \<Rightarrow> bool" where
  "editable T i changeMap t \<longleftrightarrow> \<not> pendingEdits t \<and>
     (case table_view T t i of
        None \<Rightarrow> False
      | Some (r, s) \<Rightarrow> s \<noteq> DraftDelete \<and> getId T (edited_row T changeMap r) = getId T r)"

lemma draftEditRow_locked: "pendingEdits t \<Longrightarrow> draftEditRow T rowId changeMap t = Some t"
  by (simp add: draftEditRow_def)

lemma draftEditRow_spec:
  assumes "table_ok T t" "i = idOfVariant T rowId" "table_view T t i = Some (r, s)" "editable T i changeMap t"
    "draftEditRow T rowId changeMap t = Some t'"
  shows "table_ok T t'"
    and "table_view T t' = (table_view T t)(i \<mapsto> (edited_row T changeMap r, edited_state s))"
    and "backups t' = (if s = DraftAdd \<or> s = DraftEdit then backups t else backup_save (getId T) r s (backups t))"
    and "pendingEdits t' = pendingEdits t"
proof -
  define p where "p = row_pos T i t"
  have found: "row_found T i t" using assms(1,3) by (auto simp: row_found_iff)
  have at_p: "rowList t ! p = r" "rowStates t ! p = s"
    using assms(3) found by (simp_all add: table_view_lookup[OF assms(1)] p_def)
  have p: "p < length (rowList t)" "getId T r = i" using row_found_at[OF found] at_p by (simp_all add: p_def)
  define e where "e = edited_row T changeMap r"
  have e: "getId T e = i" "s \<noteq> DraftDelete" "\<not> pendingEdits t"
    using assms(3,4) p by (simp_all add: editable_def e_def)
  define m where "m = set_row p (movedRow T r) t"
  obtain t2 where t': "t' = notifyUpdate T [e] (emit (RowDraftEdited r e) (set_row p e t2))"
    and t2: "rowList t2 = rowList m" "rowStates t2 = (rowStates t)[p := edited_state s]" "models t2 = models t"
      "backups t2 = (if s = DraftAdd \<or> s = DraftEdit then backups t else backup_save (getId T) r s (backups t))"
      "pendingEdits t2 = pendingEdits t"
  proof -
    have go: "draftEditRow T rowId changeMap t =
      (let edited =
         (if s \<noteq> DraftAdd \<and> s \<noteq> DraftEdit then
            Some (set_state p DraftEdit (m\<lparr>backups := backup_save (getId T) r s (backups m)\<rparr>))
          else if s = DraftAdd then
            (case find_index (isDraftOf T rowId) (locallyAddedRows m) of
               None \<Rightarrow> Some m
             | Some n \<Rightarrow>
                 (case edit_loop changeMap (map fst changeMap) (locallyAddedRows m ! n) of
                    None \<Rightarrow> None
                  | Some record \<Rightarrow> Some (m\<lparr>locallyAddedRows := (locallyAddedRows m)[n := record]\<rparr>)))
          else Some m)
       in (case edited of None \<Rightarrow> None
           | Some t2 \<Rightarrow> Some (notifyUpdate T [e] (emit (RowDraftEdited r e) (set_row p e t2)))))"
      using e found p(2) unfolding draftEditRow_def Let_def assms(2)[symmetric] row_search
        p_def[symmetric] at_p edited_row_def[symmetric] e_def[symmetric] m_def[symmetric]
      by simp
    have state_same: "(rowStates t)[p := s] = rowStates t" using at_p(2) by auto
    consider "s \<noteq> DraftAdd" "s \<noteq> DraftEdit" | "s = DraftAdd" | "s = DraftEdit" by blast
    then show thesis
    proof cases
      case 1
      then show thesis using assms(5) unfolding go
        by (intro that[of "set_state p DraftEdit (m\<lparr>backups := backup_save (getId T) r s (backups m)\<rparr>)"])
          (simp_all add: edited_state_def m_def)
    next
      case 2
      then show thesis using assms(5) that state_same unfolding go
        by (auto simp: edited_state_def m_def split: option.splits)
    next
      case 3
      then show thesis using assms(5) state_same unfolding go
        by (intro that[of m]) (simp_all add: edited_state_def m_def)
    qed
  qed
  have rows: "rowList (set_row p e t2) = rowList (set_row p e t)"
    using t2(1) by (simp add: m_def)
  have sorted: "keys_sorted (getId T) (rowList (set_row p e t))"
    using set_row_ok[OF assms(1) p(1), of e] e(1) p(2) at_p(1) by (simp add: table_ok_def)
  have "table_ok T (set_row p e t2)"
    using assms(1) rows sorted t2 by (auto simp: table_ok_def backup_save_ok)
  then show "table_ok T t'" unfolding t' by (intro notifyUpdate_ok) simp_all
  have "table_view T (set_row p e t2) = table_view T (set_state p (edited_state s) (set_row p e t))"
    using rows t2(2) by (intro table_view_cong) simp_all
  then show "table_view T t' = (table_view T t)(i \<mapsto> (edited_row T changeMap r, edited_state s))"
    using set_row_state_view[OF assms(1) p(1), of e "edited_state s"] e(1) p(2) at_p(1)
    by (simp add: t' e_def)
  show "backups t' = (if s = DraftAdd \<or> s = DraftEdit then backups t else backup_save (getId T) r s (backups t))"
    "pendingEdits t' = pendingEdits t"
    using t2 by (simp_all add: t')
qed

text \<open>When the edit returns, and when it does not: a draft-added row whose record lacks a changed key.\<close>

definition edit_stuck ::
  "('r, 'i::linorder, 'v) row_type \<Rightarrow> qvariant \<Rightarrow> qvariant_map \<Rightarrow> ('r, 'i, 'v) table \<Rightarrow> bool" where
  "edit_stuck T rowId changeMap t \<longleftrightarrow>
     (case find_index (isDraftOf T rowId) (locallyAddedRows t) of
        None \<Rightarrow> False
      | Some n \<Rightarrow> \<not> set (map fst changeMap) \<subseteq> fst ` set (locallyAddedRows t ! n))"

lemma draftEditRow_returns_iff:
  assumes "table_ok T t" "i = idOfVariant T rowId" "table_view T t i = Some (r, DraftAdd)" "editable T i changeMap t"
  shows "draftEditRow T rowId changeMap t = None \<longleftrightarrow> edit_stuck T rowId changeMap t"
proof -
  define p where "p = row_pos T i t"
  have found: "row_found T i t" using assms(1,3) by (auto simp: row_found_iff)
  have at_p: "rowList t ! p = r" "rowStates t ! p = DraftAdd"
    using assms(3) found by (simp_all add: table_view_lookup[OF assms(1)] p_def)
  have e: "getId T (edited_row T changeMap r) = getId T r" "\<not> pendingEdits t"
    using assms(3,4) by (simp_all add: editable_def)
  define m where "m = set_row p (movedRow T r) t"
  have m: "locallyAddedRows m = locallyAddedRows t" by (simp add: m_def)
  have go: "draftEditRow T rowId changeMap t = None \<longleftrightarrow>
      (case find_index (isDraftOf T rowId) (locallyAddedRows m) of
         None \<Rightarrow> Some m
       | Some n \<Rightarrow>
           (case edit_loop changeMap (map fst changeMap) (locallyAddedRows m ! n) of
              None \<Rightarrow> None
            | Some record \<Rightarrow> Some (m\<lparr>locallyAddedRows := (locallyAddedRows m)[n := record]\<rparr>))) = None"
    using e found unfolding draftEditRow_def Let_def assms(2)[symmetric] row_search
      p_def[symmetric] at_p edited_row_def[symmetric] m_def[symmetric]
    by (simp split: option.splits)
  have stuck: "edit_loop changeMap (map fst changeMap) rec = None \<longleftrightarrow>
      \<not> set (map fst changeMap) \<subseteq> fst ` set rec" for rec
    using edit_loop_iff[of changeMap "map fst changeMap" rec]
    by (cases "edit_loop changeMap (map fst changeMap) rec") auto
  have inner: "(case x of None \<Rightarrow> None | Some y \<Rightarrow> Some (f y)) = None \<longleftrightarrow> x = None"
    for x :: "qvariant_map option" and f :: "qvariant_map \<Rightarrow> ('a, 'b, 'c) table"
    by (cases x) auto
  show ?thesis unfolding go m edit_stuck_def
    by (cases "find_index (isDraftOf T rowId) (locallyAddedRows t)") (simp_all add: inner stuck del: set_map)
qed

text \<open>A refused change of the id: the row stays as the move left it.\<close>

lemma draftEditRow_id_change:
  assumes "table_ok T t" "i = idOfVariant T rowId" "table_view T t i = Some (r, s)" "\<not> pendingEdits t"
    "s \<noteq> DraftDelete" "getId T (edited_row T changeMap r) \<noteq> i"
  shows "draftEditRow T rowId changeMap t = Some (set_row (row_pos T i t) (movedRow T r) t)"
proof -
  define p where "p = row_pos T i t"
  have found: "row_found T i t" using assms(1,3) by (auto simp: row_found_iff)
  have at_p: "rowList t ! p = r" "rowStates t ! p = s"
    using assms(3) found by (simp_all add: table_view_lookup[OF assms(1)] p_def)
  have "getId T r = i" using table_view_id[OF assms(1,3)] .
  then show ?thesis
    using found assms(4-6) unfolding draftEditRow_def Let_def assms(2)[symmetric] row_search
      p_def[symmetric] at_p edited_row_def[symmetric]
    by simp
qed

subsection \<open>Deleting\<close>

lemma draftDeleteRow_spec:
  assumes "table_ok T t" "i = idOfVariant T rowId" "table_view T t i = Some (r, s)" "\<not> pendingEdits t" "s \<noteq> DraftAdd"
  shows "table_ok T (draftDeleteRow T rowId t)"
    and "table_view T (draftDeleteRow T rowId t) = (table_view T t)(i \<mapsto> (r, DraftDelete))"
    and "backups (draftDeleteRow T rowId t) = backup_save (getId T) r s (backups t)"
    and "pendingEdits (draftDeleteRow T rowId t) = pendingEdits t"
proof -
  define p where "p = row_pos T i t"
  have found: "row_found T i t" using assms(1,3) by (auto simp: row_found_iff)
  have at_p: "rowList t ! p = r" "rowStates t ! p = s"
    using assms(3) found by (simp_all add: table_view_lookup[OF assms(1)] p_def)
  have p: "p < length (rowList t)" "getId T r = i" using row_found_at[OF found] at_p by (simp_all add: p_def)
  define t1 where "t1 = t\<lparr>backups := backup_save (getId T) r s (backups t)\<rparr>"
  have t1: "table_ok T t1" "table_view T t1 = table_view T t" "rowList t1 = rowList t"
    "backups t1 = backup_save (getId T) r s (backups t)" "pendingEdits t1 = pendingEdits t"
    using save_ok[OF assms(1), of r s] by (simp_all add: t1_def)
  have eq: "draftDeleteRow T rowId t = notifyUpdate T [r] (emit (RowDraftDeleted r) (set_state p DraftDelete t1))"
    using found assms(4,5) unfolding draftDeleteRow_def Let_def assms(2)[symmetric] row_search
      p_def[symmetric] at_p t1_def[symmetric]
    by simp
  show "table_ok T (draftDeleteRow T rowId t)"
    unfolding eq using t1(1) by (intro notifyUpdate_ok) (simp_all add: set_state_ok)
  show "table_view T (draftDeleteRow T rowId t) = (table_view T t)(i \<mapsto> (r, DraftDelete))"
    using t1 p at_p by (simp add: eq set_state_view)
  show "backups (draftDeleteRow T rowId t) = backup_save (getId T) r s (backups t)"
    "pendingEdits (draftDeleteRow T rowId t) = pendingEdits t"
    by (simp_all add: eq t1)
qed

lemma draftDeleteRow_added:
  assumes "table_ok T t" "i = idOfVariant T rowId" "table_view T t i = Some (r, DraftAdd)" "\<not> pendingEdits t"
  shows "table_ok T (draftDeleteRow T rowId t)"
    and "table_view T (draftDeleteRow T rowId t) = (table_view T t)(i := None)"
    and "backup_view (getId T) (backups (draftDeleteRow T rowId t)) = (backup_view (getId T) (backups t))(i := None)"
proof -
  have found: "row_found T i t" using assms(1,3) by (auto simp: row_found_iff)
  have state: "rowStates t ! row_pos T i t = DraftAdd"
    using assms(3) found by (simp add: table_view_lookup[OF assms(1)])
  define t1 where "t1 = t\<lparr>locallyAddedRows := filter (\<lambda>row. \<not> isDraftOf T rowId row) (locallyAddedRows t)\<rparr>"
  have t1: "table_ok T t1" "table_view T t1 = table_view T t" using assms(1) by (simp_all add: t1_def)
  have eq: "draftDeleteRow T rowId t = snd (deleteBackupRow T i (deleteRow T i t1))"
    using found assms(4) state unfolding draftDeleteRow_def Let_def assms(2)[symmetric] row_search
    by (simp add: t1_def)
  show "table_ok T (draftDeleteRow T rowId t)" using t1(1) by (simp add: eq)
  show "table_view T (draftDeleteRow T rowId t) = (table_view T t)(i := None)"
    using t1 by (simp add: eq deleteRow_view)
  have "backup_view (getId T) (backups (deleteRow T i t1)) = (backup_view (getId T) (backups t))(i := None)"
    using found state table_okD(3)[OF assms(1)]
    by (simp add: deleteRow_backups t1_def row_found_def row_pos_def drops_backup_def isDraft_def backup_remove_view)
  then show "backup_view (getId T) (backups (draftDeleteRow T rowId t)) = (backup_view (getId T) (backups t))(i := None)"
    using t1(1) by (simp add: eq deleteBackupRow_backup_view)
qed

lemma draftDeleteRow_refused:
  "table_ok T t \<Longrightarrow> pendingEdits t \<or> table_view T t (idOfVariant T rowId) = None \<Longrightarrow> draftDeleteRow T rowId t = t"
  by (auto simp: draftDeleteRow_def Let_def row_search row_found_iff)

lemma draftDeleteRow_ok [ok_intros]:
  assumes "table_ok T t"
  shows "table_ok T (draftDeleteRow T rowId t)"
proof (cases "pendingEdits t \<or> table_view T t (idOfVariant T rowId) = None")
  case True
  with assms show ?thesis by (simp add: draftDeleteRow_refused)
next
  case False
  then obtain r s where rs: "table_view T t (idOfVariant T rowId) = Some (r, s)" "\<not> pendingEdits t" by auto
  then show ?thesis
    using draftDeleteRow_spec(1)[OF assms refl rs] draftDeleteRow_added(1)[OF assms refl] by (cases "s = DraftAdd") auto
qed

subsection \<open>Loading placeholders\<close>

lemma getNew_spec:
  assumes "row_laws T" "table_ok T t"
  shows "table_ok T (getNew T now i t)"
    and "table_view T (getNew T now i t) =
      (if i \<in> dom (table_view T t) then table_view T t
       else (table_view T t)(i \<mapsto> (setId T i (blankRow T), Loading)))"
proof -
  define t1 where "t1 = refreshRow T now i t"
  have t1: "table_ok T t1" "table_view T t1 = table_view T t" using assms(2) by (simp_all add: t1_def)
  define row where "row = setId T i (blankRow T)"
  have row: "getId T row = i" by (simp add: row_def row_laws.get_set_id[OF assms(1)])
  have eq: "getNew T now i t = (if row_found T i t1 then t1 else
      emit (RowLoading row) (insert_row (row_pos T (getId T row) t1) row Loading t1))"
    by (simp add: getNew_def Let_def row_search t1_def[symmetric] row_def[symmetric] row)
  have found: "row_found T i t1 \<longleftrightarrow> i \<in> dom (table_view T t)" using t1 by (simp add: row_found_iff)
  show "table_ok T (getNew T now i t)"
    using t1(1) row by (auto simp: eq insert_row_ok)
  show "table_view T (getNew T now i t) =
      (if i \<in> dom (table_view T t) then table_view T t
       else (table_view T t)(i \<mapsto> (setId T i (blankRow T), Loading)))"
    using insert_row_view[OF t1(1), where r = row and s = Loading] t1 row found by (simp add: eq row_def)
qed

lemma processEntry_ok: "row_laws T \<Longrightarrow> table_ok T t \<Longrightarrow> table_ok T (processEntry T now e t)"
  by (auto simp: processEntry_def Let_def markStale_ok getNew_spec split: entry_type.splits)

lemma processJournal_ok [ok_intros]:
  "row_laws T \<Longrightarrow> table_ok T t \<Longrightarrow> table_ok T (processJournal T now es t)"
  unfolding processJournal_def by (induction es arbitrary: t) (auto intro: processEntry_ok)

end
