(* ===== verification/TableRequests.thy ===== *)
theory TableRequests
  imports TableEdits
begin

text \<open>
  The row requests a table sends: which operations send none (\<open>quiet\<close>), and that the handling of a
  journal entry leaves its row requested (\<open>refreshes\<close>).
\<close>

definition row_request :: "('r, 'i) event \<Rightarrow> 'i list" where
  "row_request e = (case e of CallApi path body (RowRequest i) \<Rightarrow> [i] | _ \<Rightarrow> [])"

definition sent :: "('r, 'i, 'v) table \<Rightarrow> 'i list" where
  "sent t = concat (map row_request (out t))"

lemma row_request_simps [simp]:
  "row_request (CallApi p b (RowRequest i)) = [i]" "row_request (CallApi p b (RowsRequest n)) = []"
  "row_request (RowsAdded rs) = []" "row_request (RowLoading r) = []" "row_request (RowLoaded r) = []"
  "row_request (RowStale r) = []" "row_request (RowUpdated r r') = []" "row_request (RowDeleted r) = []"
  "row_request (PendingAddSettled i r) = []" "row_request (PendingEditSettled r r') = []"
  "row_request (PendingDeleteSettled r) = []" "row_request (DraftRowInvalidated r r'') = []"
  "row_request (sigDraftEditInvalidated v) = []" "row_request (sigPendingEditSettled m m') = []"
  "row_request (sigHasPendingEditsChanged x) = []" "row_request (ModelSignal k s) = []"
  by (simp_all add: row_request_def)

text \<open>The table sent nothing and settled no request.\<close>

definition quiet :: "('r, 'i, 'v) table \<Rightarrow> ('r, 'i, 'v) table \<Rightarrow> bool" where
  "quiet t t' \<longleftrightarrow> sent t' = sent t \<and> loadingRows t' = loadingRows t \<and> length (models t') = length (models t)"

lemma quiet_refl [simp]: "quiet t t"
  by (simp add: quiet_def)

lemma quiet_trans [trans]: "quiet t t' \<Longrightarrow> quiet t' t'' \<Longrightarrow> quiet t t''"
  by (simp add: quiet_def)

lemma quiet_emit: "row_request e = [] \<Longrightarrow> quiet t' t \<Longrightarrow> quiet t' (emit e t)"
  by (simp add: quiet_def sent_def)

lemma quiet_rows [simp]: "quiet t' (set_row p r t) = quiet t' t" "quiet t' (set_state p s t) = quiet t' t"
  "quiet t' (insert_row p r s t) = quiet t' t" "quiet t' (erase_row p t) = quiet t' t"
  by (simp_all add: quiet_def sent_def)

lemma quiet_fields [simp]: "quiet t' (t\<lparr>locallyAddedRows := xs\<rparr>) = quiet t' t"
  "quiet t' (t\<lparr>pendingEdits := b\<rparr>) = quiet t' t" "quiet t' (t\<lparr>backups := b'\<rparr>) = quiet t' t"
  by (simp_all add: quiet_def sent_def)

lemma quiet_notifyModels: "quiet t' t \<Longrightarrow> quiet t' (notifyModels f t)"
proof -
  have "concat (map row_request (concat (map (\<lambda>m. map (ModelSignal (modelKey m)) (snd (f m))) ms))) = []" for ms
    by (induction ms) (simp_all add: o_def)
  then show "quiet t' t \<Longrightarrow> quiet t' (notifyModels f t)" by (simp add: quiet_def sent_def notifyModels_def)
qed

lemma quiet_deleteBackupRow: "quiet t' t \<Longrightarrow> quiet t' (snd (deleteBackupRow T i t))"
  by (auto simp: deleteBackupRow_def Let_def split_beta intro!: quiet_emit)

lemmas quiet_intros = quiet_emit quiet_notifyModels quiet_deleteBackupRow

lemma quiet_deleteRow: "quiet t (deleteRow T i t)"
  by (auto simp: deleteRow_def Let_def intro!: quiet_intros)

lemma quiet_checkOverwrittenEdit: "quiet t' t \<Longrightarrow> quiet t' (checkOverwrittenEdit T r s r' t)"
  by (auto simp: checkOverwrittenEdit_def Let_def intro!: quiet_intros split: option.splits)

text \<open>A table nobody edits, at least one model shows it.\<close>

definition unedited :: "('r, 'i::linorder, 'v) row_type \<Rightarrow> ('r, 'i, 'v) table \<Rightarrow> bool" where
  "unedited T t \<longleftrightarrow> table_ok T t \<and> \<not> pendingEdits t \<and> models t \<noteq> [] \<and>
     (\<forall>i r s. table_view T t i = Some (r, s) \<longrightarrow> s \<in> {Loaded, Loading, Stale})"

lemma merge_row_unlocked:
  assumes "\<not> pendingEdits t"
  shows "quiet t (merge_row T r pos t) \<and> \<not> pendingEdits (merge_row T r pos t)"
  using assms
  by (auto simp: merge_row_def Let_def checkPendingInsertion_def deleteBackupRow_pending checkOverwrittenEdit_def
      intro!: quiet_intros split: option.splits)

lemma merge_rows_unlocked:
  "\<not> pendingEdits t \<Longrightarrow> quiet t (merge_rows T rs pos t) \<and> \<not> pendingEdits (merge_rows T rs pos t)"
proof (induction T rs pos t rule: merge_rows.induct)
  case (3 T r r' rs pos t)
  from merge_row_unlocked[OF 3(2), of T r pos] 3(1)[OF refl] show ?case
    by (auto simp: Let_def intro: quiet_trans)
qed (simp_all add: merge_row_unlocked)

lemma place_rows_unlocked:
  assumes "\<not> pendingEdits t"
  shows "quiet t (place_rows T rs t) \<and> \<not> pendingEdits (place_rows T rs t)"
  using merge_rows_unlocked[OF assms, of T rs] assms
  by (auto simp: place_rows_def Let_def notifyUpdate_def append_rows_def intro!: quiet_intros)
   (simp add: quiet_def sent_def)

text \<open>Requests for row \<open>i\<close>.\<close>

definition refreshes :: "'i \<Rightarrow> ('r, 'i, 'v) table \<Rightarrow> ('r, 'i, 'v) table \<Rightarrow> bool" where
  "refreshes i t t' \<longleftrightarrow> (\<exists>n. sent t' = sent t @ replicate n i \<and> (n = 0 \<longrightarrow> i \<in> dom (loadingRows t))) \<and>
     dom (loadingRows t') = insert i (dom (loadingRows t)) \<and> length (models t') = length (models t)"

lemma refreshes_refreshRow: "refreshes i t (refreshRow T now i t)"
  by (auto simp: refreshes_def refreshRow_def rowIsLoading_def Let_def sent_def split: option.splits
      intro: exI[of _ 0] exI[of _ 1])

lemma refreshes_trans:
  assumes "refreshes i t t'" "refreshes i t' t''"
  shows "refreshes i t t''"
proof -
  from assms obtain n n' where "sent t' = sent t @ replicate n i" "n = 0 \<longrightarrow> i \<in> dom (loadingRows t)"
    "sent t'' = sent t' @ replicate n' i" "n' = 0 \<longrightarrow> i \<in> dom (loadingRows t')"
    unfolding refreshes_def by blast
  then have "sent t'' = sent t @ replicate (n + n') i" "n + n' = 0 \<longrightarrow> i \<in> dom (loadingRows t)"
    by (simp_all add: replicate_add)
  with assms show ?thesis unfolding refreshes_def by (intro conjI exI[of _ "n + n'"]) simp_all
qed

lemma refreshes_quiet: "refreshes i t t' \<Longrightarrow> quiet t' t'' \<Longrightarrow> refreshes i t t''"
  "quiet t t' \<Longrightarrow> refreshes i t' t'' \<Longrightarrow> refreshes i t t''"
  by (simp_all add: refreshes_def quiet_def)

lemma refreshes_markRowStale: "refreshes i t (markRowStale T now i m t)"
proof -
  have "quiet t (t\<lparr>out := out t @ map (ModelSignal (modelKey m)) (markRowStale_signals i m)\<rparr>)"
    by (simp add: quiet_def sent_def o_def)
  then show ?thesis unfolding markRowStale_def by (rule refreshes_quiet(2)[OF _ refreshes_refreshRow])
qed

lemma refreshes_markModelsStale:
  assumes "models t \<noteq> []"
  shows "refreshes i t (markModelsStale T now i t)"
proof -
  have "refreshes i t (fold (markRowStale T now i) ms t)" if "ms \<noteq> []" for ms
    using that
  proof (induction ms arbitrary: t rule: list_nonempty_induct)
    case (cons m ms)
    show ?case using refreshes_trans[OF refreshes_markRowStale cons(2)] by simp
  qed (simp add: refreshes_markRowStale)
  then show ?thesis using assms by (simp add: markModelsStale_def)
qed

lemma quiet_models: "quiet t t' \<Longrightarrow> models t \<noteq> [] \<Longrightarrow> models t' \<noteq> []"
  by (auto simp: quiet_def)

text \<open>A row that is not pending is marked, and then the models ask for it.\<close>

lemma markStale_models:
  assumes "row_found T i t \<Longrightarrow> rowStates t ! row_pos T i t \<notin> {PendingEdit, PendingDelete}"
  obtains t2 where "markStale T now i t = markModelsStale T now i t2" "quiet t t2"
proof (cases "row_found T i t")
  case False
  show thesis by (rule that[of t]) (simp_all add: markStale_def Let_def row_search False)
next
  case True
  define s where "s = rowStates t ! row_pos T i t"
  define t1 where "t1 = (if isDraft s then
      let (bak, t0) = deleteBackupRow T i (emit (sigDraftEditInvalidated (variantOfId T i)) t) in
      (case bak of Some (r, s) \<Rightarrow> set_state (row_pos T i t) s (set_row (row_pos T i t) r t0) | None \<Rightarrow> t0) else t)"
  have q: "quiet t t1"
    using quiet_deleteBackupRow[OF quiet_emit[of "sigDraftEditInvalidated (variantOfId T i)" t t], of T i]
    by (auto simp: t1_def split: option.splits prod.splits)
  show thesis
  proof (rule that)
    show "markStale T now i t = markModelsStale T now i
        (emit (RowStale (rowList (set_state (row_pos T i t) Stale t1) ! row_pos T i t)) (set_state (row_pos T i t) Stale t1))"
      using assms True by (simp add: markStale_def Let_def row_search t1_def s_def)
    show "quiet t (emit (RowStale (rowList (set_state (row_pos T i t) Stale t1) ! row_pos T i t))
        (set_state (row_pos T i t) Stale t1))"
      using q by (intro quiet_emit) simp_all
  qed
qed

lemma refreshes_markStale:
  assumes "models t \<noteq> []"
  shows "refreshes i t (markStale T now i t)"
proof (cases "row_found T i t \<and> rowStates t ! row_pos T i t \<in> {PendingEdit, PendingDelete}")
  case True
  then show ?thesis using refreshes_refreshRow by (auto simp: markStale_def Let_def row_search)
next
  case False
  then obtain t2 where t2: "markStale T now i t = markModelsStale T now i t2" "quiet t t2"
    using markStale_models[of T i t now] by blast
  show ?thesis
    unfolding t2(1) by (rule refreshes_quiet(2)[OF t2(2) refreshes_markModelsStale[OF quiet_models[OF t2(2) assms]]])
qed

text \<open>One request at most goes out for a row within seven seconds.\<close>

lemma refreshRow_requests:
  "loadingRows t i = None \<Longrightarrow> sent (refreshRow T now i t) = sent t @ [i] \<and> loadingRows (refreshRow T now i t) = (loadingRows t)(i \<mapsto> now)"
  "loadingRows t i = Some st \<Longrightarrow> now - st < 7 \<Longrightarrow> refreshRow T now i t = t"
  by (simp_all add: refreshRow_def rowIsLoading_def sent_def MAX_LOADING_SECONDS_BEFORE_DROPPED_def)

lemma markRowStale_requests:
  "loadingRows t i = None \<Longrightarrow>
     sent (markRowStale T now i m t) = sent t @ [i] \<and> loadingRows (markRowStale T now i m t) = (loadingRows t)(i \<mapsto> now)"
  "loadingRows t i = Some st \<Longrightarrow> now - st < 7 \<Longrightarrow>
     sent (markRowStale T now i m t) = sent t \<and> loadingRows (markRowStale T now i m t) = loadingRows t"
proof -
  define t1 where "t1 = t\<lparr>out := out t @ map (ModelSignal (modelKey m)) (markRowStale_signals i m)\<rparr>"
  have t1: "sent t1 = sent t" "loadingRows t1 = loadingRows t" "markRowStale T now i m t = refreshRow T now i t1"
    by (simp_all add: t1_def sent_def o_def markRowStale_def)
  show "loadingRows t i = None \<Longrightarrow>
     sent (markRowStale T now i m t) = sent t @ [i] \<and> loadingRows (markRowStale T now i m t) = (loadingRows t)(i \<mapsto> now)"
    using refreshRow_requests(1)[of t1 i T now] t1 by simp
  show "loadingRows t i = Some st \<Longrightarrow> now - st < 7 \<Longrightarrow>
     sent (markRowStale T now i m t) = sent t \<and> loadingRows (markRowStale T now i m t) = loadingRows t"
    using refreshRow_requests(2)[of t1 i st now T] t1 by simp
qed

lemma markModelsStale_requests:
  "loadingRows t i = Some st \<Longrightarrow> now - st < 7 \<Longrightarrow>
     sent (markModelsStale T now i t) = sent t \<and> loadingRows (markModelsStale T now i t) = loadingRows t"
  "loadingRows t i = None \<Longrightarrow> models t \<noteq> [] \<Longrightarrow>
     sent (markModelsStale T now i t) = sent t @ [i] \<and> loadingRows (markModelsStale T now i t) = (loadingRows t)(i \<mapsto> now)"
proof -
  have later: "sent (fold (markRowStale T now i) ms t) = sent t \<and> loadingRows (fold (markRowStale T now i) ms t) = loadingRows t"
    if "loadingRows t i = Some st" "now - st < 7" for ms t st
    using that
  proof (induction ms arbitrary: t)
    case (Cons m ms)
    note head = markRowStale_requests(2)[OF Cons.prems, of T m]
    with Cons.IH[of "markRowStale T now i m t"] Cons.prems show ?case by simp
  qed simp
  show "loadingRows t i = Some st \<Longrightarrow> now - st < 7 \<Longrightarrow>
     sent (markModelsStale T now i t) = sent t \<and> loadingRows (markModelsStale T now i t) = loadingRows t"
    unfolding markModelsStale_def by (rule later)
  assume a: "loadingRows t i = None" "models t \<noteq> []"
  then obtain m ms where ms: "models t = m # ms" by (cases "models t") auto
  show "sent (markModelsStale T now i t) = sent t @ [i] \<and> loadingRows (markModelsStale T now i t) = (loadingRows t)(i \<mapsto> now)"
    using markRowStale_requests(1)[OF a(1), of T now m] later[of "markRowStale T now i m t" now ms]
    by (simp add: markModelsStale_def ms)
qed

lemma refreshes_getNew: "refreshes i t (getNew T now i t)"
proof -
  have "quiet (refreshRow T now i t) (getNew T now i t)"
    by (auto simp: getNew_def Let_def intro!: quiet_emit)
  then show ?thesis by (rule refreshes_quiet(1)[OF refreshes_refreshRow])
qed

end
