(* ===== verification/TableReset.thy ===== *)
theory TableReset
  imports TableEdits
begin

text \<open>
  Submitting the edits of a table (\<open>markEditsPending\<close>) and taking them back (\<open>resetEdits\<close>).  Both run
  over the backups.  \<open>resetEdits\<close> is exact for edited and deleted rows; for a draft-added row its loop
  removes one backup too many, which the last section states.
\<close>

subsection \<open>Pending\<close>

definition pending_view ::
  "'i set \<Rightarrow> ('i \<rightharpoonup> 'r \<times> LoadState) \<Rightarrow> ('i \<rightharpoonup> 'r \<times> LoadState)" where
  "pending_view K v = (\<lambda>i. case v i of
     None \<Rightarrow> None
   | Some (r, s) \<Rightarrow> Some (r, if i \<in> K then pending_state s else s))"

lemma pending_step_spec:
  assumes "table_ok T t"
  shows "table_ok T (fst (pending_step T b (t, us)))"
    and "table_view T (fst (pending_step T b (t, us))) = pending_view {getId T b} (table_view T t)"
    and "snd (pending_step T b (t, us)) = us \<or>
      (\<exists>r. getId T r = getId T b \<and> snd (pending_step T b (t, us)) = us @ [r])"
    and "backups (fst (pending_step T b (t, us))) = backups t"
    and "models (fst (pending_step T b (t, us))) = models t"
proof -
  define i where "i = getId T b"
  define p where "p = row_pos T i t"
  have eq: "pending_step T b (t, us) = (if row_found T i t
      then (set_state p (pending_state (rowStates t ! p)) t, us @ [rowList t ! p]) else (t, us))"
    by (simp add: pending_step_def Let_def row_search i_def p_def)
  have look: "table_view T t i = (if row_found T i t then Some (rowList t ! p, rowStates t ! p) else None)"
    by (simp add: table_view_lookup[OF assms] p_def)
  show "table_ok T (fst (pending_step T b (t, us)))" using assms by (simp add: eq set_state_ok)
  show "table_view T (fst (pending_step T b (t, us))) = pending_view {getId T b} (table_view T t)"
  proof (cases "row_found T i t")
    case True
    have "table_view T (set_state p (pending_state (rowStates t ! p)) t) =
        (table_view T t)(i \<mapsto> (rowList t ! p, pending_state (rowStates t ! p)))"
      using set_state_view[OF assms, of p] row_found_at[OF True] by (simp add: p_def)
    with True look show ?thesis
      by (auto simp: eq pending_view_def i_def fun_eq_iff split: option.splits)
  next
    case False
    with look show ?thesis by (auto simp: eq pending_view_def i_def fun_eq_iff split: option.splits)
  qed
  show "snd (pending_step T b (t, us)) = us \<or>
      (\<exists>r. getId T r = getId T b \<and> snd (pending_step T b (t, us)) = us @ [r])"
    using row_found_at(2)[of T i t] by (auto simp: eq p_def i_def)
  show "backups (fst (pending_step T b (t, us))) = backups t"
    "models (fst (pending_step T b (t, us))) = models t" by (simp_all add: eq)
qed

lemma pending_view_Un: "pending_view K (pending_view {k} v) = pending_view (insert k K) v" if "k \<notin> K"
  using that by (auto simp: pending_view_def fun_eq_iff split: option.splits)

lemma pending_view_empty [simp]: "pending_view {} v = v"
  by (auto simp: pending_view_def fun_eq_iff split: option.splits)

lemma pending_fold:
  assumes "table_ok T t" "keys_sorted (getId T) bs" "keys_sorted (getId T) us"
    "\<And>u b. u \<in> set us \<Longrightarrow> b \<in> set bs \<Longrightarrow> getId T u < getId T b"
  shows "table_ok T (fst (fold (pending_step T) bs (t, us))) \<and>
    keys_sorted (getId T) (snd (fold (pending_step T) bs (t, us))) \<and>
    table_view T (fst (fold (pending_step T) bs (t, us))) = pending_view (getId T ` set bs) (table_view T t) \<and>
    backups (fst (fold (pending_step T) bs (t, us))) = backups t"
  using assms
proof (induction bs arbitrary: t us)
  case (Cons b bs)
  define st where "st = pending_step T b (t, us)"
  note step = pending_step_spec[OF Cons.prems(1), of b us, folded st_def]
  have sorted: "keys_sorted (getId T) bs" and less: "\<And>b'. b' \<in> set bs \<Longrightarrow> getId T b < getId T b'"
    using Cons.prems(2) by (auto simp: keys_sorted_Cons)
  have us: "keys_sorted (getId T) (snd st)" "\<And>u b'. u \<in> set (snd st) \<Longrightarrow> b' \<in> set bs \<Longrightarrow> getId T u < getId T b'"
    using step(3) Cons.prems(3,4) less by (auto simp: keys_sorted_append)
  have fresh: "getId T b \<notin> getId T ` set bs" using less by force
  have "fold (pending_step T) (b # bs) (t, us) = fold (pending_step T) bs (fst st, snd st)" by (simp add: st_def)
  with Cons.IH[OF step(1) sorted us] step(2,4) pending_view_Un[OF fresh] show ?case by simp
qed simp

lemma markEditsPending_spec:
  assumes "table_ok T t"
  shows "table_ok T (markEditsPending T t)"
    and "table_view T (markEditsPending T t) = pending_view (getId T ` set (brows (backups t))) (table_view T t)"
    and "backups (markEditsPending T t) = backups t"
    and "pendingEdits (markEditsPending T t) \<longleftrightarrow> pendingEdits t \<or> \<not> backup_isEmpty (backups t)"
proof -
  define f where "f = fold (pending_step T) (brows (backups t)) (t, [])"
  have "keys_sorted (getId T) (brows (backups t))" using table_okD(3)[OF assms] by (simp add: backup_ok_def)
  from pending_fold[OF assms this, of "[]", folded f_def]
  have f: "table_ok T (fst f)" "keys_sorted (getId T) (snd f)"
    "table_view T (fst f) = pending_view (getId T ` set (brows (backups t))) (table_view T t)"
    "backups (fst f) = backups t" by simp_all
  have "pendingEdits (fst (fold (pending_step T) bs (t', us))) = pendingEdits t'" for bs t' us
    by (induction bs arbitrary: t' us) (simp_all add: pending_step_def Let_def)
  then have p: "pendingEdits (fst f) = pendingEdits t" by (simp add: f_def)
  define t2 where "t2 = notifyUpdate T (snd f) (emit DraftChangesPending (fst f))"
  have eq: "markEditsPending T t = (if \<not> backup_isEmpty (backups t)
      then emit (sigHasPendingEditsChanged True) (t2\<lparr>pendingEdits := True\<rparr>) else t2)"
    using f(4) by (simp add: markEditsPending_def Let_def split_beta f_def[symmetric] t2_def)
  have "table_ok T t2" unfolding t2_def using f by (intro notifyUpdate_ok) simp_all
  then show "table_ok T (markEditsPending T t)" by (simp add: eq)
  show "table_view T (markEditsPending T t) = pending_view (getId T ` set (brows (backups t))) (table_view T t)"
    using f(3) by (simp add: eq t2_def)
  show "backups (markEditsPending T t) = backups t"
    using f(4) by (simp add: eq t2_def)
  show "pendingEdits (markEditsPending T t) \<longleftrightarrow> pendingEdits t \<or> \<not> backup_isEmpty (backups t)"
    using p by (simp add: eq t2_def)
qed

subsection \<open>Reset\<close>

text \<open>What resetting makes of a row that has a backup.\<close>

definition restored :: "'r \<times> LoadState \<Rightarrow> 'r \<times> LoadState \<Rightarrow> 'r \<times> LoadState" where
  "restored bak e = (if snd e = DraftEdit \<or> snd e = PendingEdit then fst bak else fst e, snd bak)"

definition restored_view ::
  "('i \<rightharpoonup> 'r \<times> LoadState) \<Rightarrow> ('i \<rightharpoonup> 'r \<times> LoadState) \<Rightarrow> ('i \<rightharpoonup> 'r \<times> LoadState)" where
  "restored_view bak v = (\<lambda>i. case (v i, bak i) of
     (Some e, Some b) \<Rightarrow> Some (restored b e)
   | (e, _) \<Rightarrow> e)"

text \<open>Every backup belongs to a row that is edited or deleted, not added.\<close>

definition no_added_backups :: "('r, 'i::linorder, 'v) row_type \<Rightarrow> nat \<Rightarrow> ('r, 'i, 'v) table \<Rightarrow> bool" where
  "no_added_backups T n t \<longleftrightarrow>
     (\<forall>b \<in> set (drop n (brows (backups t))). \<exists>r s.
        table_view T t (getId T b) = Some (r, s) \<and> s \<noteq> DraftAdd \<and> s \<noteq> PendingAdd)"

lemma reset_step_restores:
  assumes "table_ok T t" "n < length (brows (backups t))" "brows (backups t) ! n = b" "bstates (backups t) ! n = bs"
    "table_view T t (getId T b) = Some (r, s)" "s \<noteq> DraftAdd" "s \<noteq> PendingAdd"
  obtains t' where "reset_step T n t = Inr (Suc n, t')" "table_ok T t'" "backups t' = backups t"
    "table_view T t' = (table_view T t)(getId T b \<mapsto> restored (b, bs) (r, s))"
    "models t' = models t" "pendingEdits t' = pendingEdits t"
proof -
  define i where "i = getId T b"
  define p where "p = row_pos T i t"
  have found: "row_found T i t" using assms(1,5) by (auto simp: row_found_iff i_def)
  have at_p: "rowList t ! p = r" "rowStates t ! p = s"
    using assms(5) found by (simp_all add: table_view_lookup[OF assms(1)] p_def i_def)
  have p: "p < length (rowList t)" "getId T r = i" using row_found_at[OF found] at_p by (simp_all add: p_def)
  define x where "x = fst (restored (b, bs) (r, s))"
  have x: "getId T x = i" using p(2) by (simp add: x_def restored_def i_def)
  define t1 where "t1 = (if s = DraftEdit \<or> s = PendingEdit then set_row p b t else t)"
  have t1: "rowList t1 = rowList (set_row p x t)" "rowStates t1 = rowStates t" "backups t1 = backups t"
    "models t1 = models t" "pendingEdits t1 = pendingEdits t"
    using at_p by (auto simp: t1_def x_def restored_def)
  have step: "reset_step T n t = Inr (Suc n, set_state p bs t1)"
    using found assms(6,7)
    unfolding reset_step_def Let_def assms(3,4) i_def[symmetric] row_search p_def[symmetric] at_p t1_def
    by simp
  have xr: "table_ok T (set_state p bs (set_row p x t))"
    "table_view T (set_state p bs (set_row p x t)) = (table_view T t)(i \<mapsto> (x, bs))"
    using set_row_state_view[OF assms(1) p(1), of x bs] x p at_p assms(1)
    by (simp_all add: set_state_ok set_row_ok)
  have "table_ok T (set_state p bs t1) = table_ok T (set_state p bs (set_row p x t))"
    using t1 by (intro table_ok_cong) simp_all
  moreover have "table_view T (set_state p bs t1) = table_view T (set_state p bs (set_row p x t))"
    using t1 by (intro table_view_cong) simp_all
  ultimately show thesis using that[OF step] xr t1
    by (simp add: i_def x_def restored_def)
qed

lemma reset_loop_restores:
  assumes "table_ok T t" "no_added_backups T n t"
  shows "\<exists>t'. reset_loop T n t = Inr t' \<and> table_ok T t' \<and> backups t' = backups t \<and>
    table_view T t' = restored_view
      (kmap (getId T) (drop n (brows (backups t))) (drop n (bstates (backups t)))) (table_view T t) \<and>
    models t' = models t \<and> pendingEdits t' = pendingEdits t"
  using assms
proof (induction "length (brows (backups t)) - n" arbitrary: n t)
  case 0
  then have "reset_loop T n t = Inr t" by (subst reset_loop.simps) simp
  with 0 show ?case by (auto simp: restored_view_def fun_eq_iff split: option.splits)
next
  case (Suc m)
  then have n: "n < length (brows (backups t))" by simp
  have bok: "length (bstates (backups t)) = length (brows (backups t))" "keys_sorted (getId T) (brows (backups t))"
    using table_okD(3)[OF Suc.prems(1)] by (auto simp: backup_ok_def)
  define b bs where b_bs_def: "b = brows (backups t) ! n" "bs = bstates (backups t) ! n"
  have drops: "drop n (brows (backups t)) = b # drop (Suc n) (brows (backups t))"
    "drop n (bstates (backups t)) = bs # drop (Suc n) (bstates (backups t))"
    using n bok(1) by (simp_all add: b_bs_def Cons_nth_drop_Suc)
  from Suc.prems(2) obtain r s where rs: "table_view T t (getId T b) = Some (r, s)" "s \<noteq> DraftAdd" "s \<noteq> PendingAdd"
    by (auto simp: no_added_backups_def drops)
  from reset_step_restores[OF Suc.prems(1) n b_bs_def[symmetric] rs] obtain t1 where t1:
    "reset_step T n t = Inr (Suc n, t1)" "table_ok T t1" "backups t1 = backups t"
    "table_view T t1 = (table_view T t)(getId T b \<mapsto> restored (b, bs) (r, s))"
    "models t1 = models t" "pendingEdits t1 = pendingEdits t" by blast
  have "keys_sorted (getId T) (take n (brows (backups t)) @ drop n (brows (backups t)))" using bok(2) by simp
  then have "keys_sorted (getId T) (drop n (brows (backups t)))" unfolding keys_sorted_append by simp
  then have fresh: "getId T c \<noteq> getId T b" if "c \<in> set (drop (Suc n) (brows (backups t)))" for c
    using that by (force simp: drops keys_sorted_Cons)
  have rest: "no_added_backups T (Suc n) t1"
    using Suc.prems(2) fresh by (simp add: no_added_backups_def drops t1)
  have len: "m = length (brows (backups t1)) - Suc n" using Suc.hyps(2) t1(3) by simp
  from Suc.hyps(1)[OF len t1(2) rest] obtain t' where t': "reset_loop T (Suc n) t1 = Inr t'" "table_ok T t'"
    "backups t' = backups t1"
    "table_view T t' = restored_view (kmap (getId T) (drop (Suc n) (brows (backups t)))
       (drop (Suc n) (bstates (backups t)))) (table_view T t1)"
    "models t' = models t1" "pendingEdits t' = pendingEdits t1" unfolding t1(3) by blast
  have loop: "reset_loop T n t = Inr t'" using n t1(1) t'(1) by (subst reset_loop.simps) simp
  define k where "k = kmap (getId T) (drop (Suc n) (brows (backups t))) (drop (Suc n) (bstates (backups t)))"
  have "dom k = getId T ` set (drop (Suc n) (brows (backups t)))"
    using bok(1) by (simp add: k_def dom_kmap)
  then have "k (getId T b) = None" using fresh by force
  moreover have "kmap (getId T) (drop n (brows (backups t))) (drop n (bstates (backups t))) = k(getId T b \<mapsto> (b, bs))"
    by (simp add: drops k_def kmap_def)
  ultimately have "table_view T t' = restored_view
      (kmap (getId T) (drop n (brows (backups t))) (drop n (bstates (backups t)))) (table_view T t)"
    using rs(1) unfolding t'(4) t1(4) k_def[symmetric]
    by (auto simp: restored_view_def fun_eq_iff split: option.splits)
  with loop t' t1 show ?case by auto
qed

text \<open>With no added rows, a reset puts every edited or deleted row back and drops the backups.\<close>

lemma resetEdits_restores:
  assumes "table_ok T t" "no_added_backups T 0 t"
  obtains t' where "resetEdits T t = Inr t'" "table_ok T t'" "backups t' = backup_empty" "locallyAddedRows t' = []"
    "table_view T t' = restored_view (backup_view (getId T) (backups t)) (table_view T t)"
    "pendingEdits t' = pendingEdits t"
proof -
  from reset_loop_restores[OF assms] obtain t1 where t1: "reset_loop T 0 t = Inr t1" "table_ok T t1"
    "backups t1 = backups t" "table_view T t1 = restored_view (backup_view (getId T) (backups t)) (table_view T t)"
    "pendingEdits t1 = pendingEdits t"
    by (auto simp: backup_view_def)
  define t3 where "t3 = notifyUpdate T (brows (backups t1)) (emit LocalChangesReset t1)"
  have "table_ok T t3" unfolding t3_def
    using t1(2) table_okD(3)[OF t1(2)] by (intro notifyUpdate_ok) (simp_all add: backup_ok_def)
  then have "table_ok T (t3\<lparr>backups := backup_empty, locallyAddedRows := []\<rparr>)"
    by (simp add: backups_update_ok)
  moreover have "table_view T (t3\<lparr>backups := backup_empty, locallyAddedRows := []\<rparr>) = table_view T t1"
    by (simp add: t3_def)
  moreover have "resetEdits T t = Inr (t3\<lparr>backups := backup_empty, locallyAddedRows := []\<rparr>)"
    by (simp add: resetEdits_def t1(1) Let_def t3_def)
  ultimately show thesis using that t1 by (simp add: t3_def)
qed

text \<open>
  A lone draft-added row: \<open>deleteRow\<close> has already dropped its backup when the loop's \<open>remove\<close> asks for
  the same position again.
\<close>

lemma resetEdits_draft_add:
  assumes "table_ok T t" "brows (backups t) = [b]" "table_view T t (getId T b) = Some (r, DraftAdd)"
  shows "resetEdits T t = Inl (RemoveOutOfRange 0)"
proof -
  define i where "i = getId T b"
  have found: "row_found T i t" using assms(1,3) by (auto simp: row_found_iff i_def)
  have state: "rowStates t ! row_pos T i t = DraftAdd"
    using assms(3) found by (simp add: table_view_lookup[OF assms(1)] i_def)
  have "snd (backup_remove (getId T) i (backups t)) =
      (backups t)\<lparr>brows := [], bstates := remove_at 0 (bstates (backups t))\<rparr>"
  proof -
    have "lower_bound (getId T) [b] i = 0"
      using lower_bound_nth[of "getId T" "[b]" 0] by (simp add: i_def)
    then show ?thesis by (simp add: backup_remove_def Let_def assms(2) found_at_def i_def remove_at_def)
  qed
  then have "brows (backups (deleteRow T i t)) = []"
    using found state by (simp add: deleteRow_backups drops_backup_def isDraft_def)
  then have "remove_backup_at 0 (deleteRow T i t) = Inl (RemoveOutOfRange 0)" by (simp add: remove_backup_at_def)
  then have "reset_step T 0 t = Inl (RemoveOutOfRange 0)"
    using found state by (simp add: reset_step_def Let_def assms(2) row_search i_def[symmetric])
  then have "reset_loop T 0 t = Inl (RemoveOutOfRange 0)"
    using assms(2) by (subst reset_loop.simps) simp
  then show ?thesis by (simp add: resetEdits_def)
qed

subsection \<open>A table is determined by its view\<close>

lemma view_determines:
  assumes "table_ok T t" "table_ok T t'" "table_view T t = table_view T t'"
  shows "rowList t = rowList t' \<and> rowStates t = rowStates t'"
proof -
  have srt: "sorted_wrt (<) (map (getId T) (rowList u))" if "table_ok T u" for u
    using table_okD(2)[OF that] by (simp add: keys_sorted_def)
  have "set (map (getId T) (rowList t)) = set (map (getId T) (rowList t'))"
    using dom_table_view[OF assms(1)] dom_table_view[OF assms(2)] assms(3) by simp
  then have ids: "map (getId T) (rowList t) = map (getId T) (rowList t')"
    using srt[OF assms(1)] srt[OF assms(2)]
    by (metis (no_types) strict_sorted_equal)
  then have len: "length (rowList t) = length (rowList t')" by (metis length_map)
  have nth: "(rowList t ! j, rowStates t ! j) = (rowList t' ! j, rowStates t' ! j)" if "j < length (rowList t)" for j
  proof -
    have at_j: "table_view T u (getId T (rowList u ! j)) = Some (rowList u ! j, rowStates u ! j)"
      if "table_ok T u" "j < length (rowList u)" for u
      using kmap_nth[of "getId T" "rowList u" "rowStates u" j] table_okD[OF that(1)] that(2)
      by (simp add: table_view_def)
    have same: "getId T (rowList t ! j) = getId T (rowList t' ! j)" using ids that len by (metis nth_map)
    have "j < length (rowList t')" using that len by simp
    from at_j[OF assms(2) this] at_j[OF assms(1) that] show ?thesis
      unfolding assms(3) same by (metis option.inject)
  qed
  then show ?thesis
    using len table_okD(1)[OF assms(1)] table_okD(1)[OF assms(2)] by (auto intro!: nth_equalityI)
qed

end
