(* ===== verification/TableMachine.thy ===== *)
theory TableMachine
  imports TableReset
begin

text \<open>
  A table as a state machine: every call the rest of the program, the node's replies and the models
  can make, as an operation; the tables reachable from a new one by any sequence of them; and the two
  invariants of all reachable tables.  What the environment must respect is \<open>op_ok\<close>: the node answers
  in key order, numeric ids have not run out, and an edit that is refused leaves the row its id: for
  polling groups every edit does, for members an edit that names another account does not.
\<close>

subsection \<open>Operations\<close>

datatype 'i op =
    OpJournal int "journal_entry list"
  | OpRowReply 'i reply
  | OpRowsReply nat reply
  | OpFullRefresh
  | OpUpdateScope string
  | OpAllRows int nat
  | OpModelDestroyed nat
  | OpDraftEditRow qvariant qvariant_map
  | OpDraftAddRow qvariant_map
  | OpDraftDeleteRow qvariant
  | OpMarkEditsPending
  | OpResetEdits

datatype op_fault = DoesNotReturn | ResetFault reset_fault

fun apply_op ::
  "('r, 'i::linorder, 'v) row_type \<Rightarrow> 'i op \<Rightarrow> ('r, 'i, 'v) table \<Rightarrow> op_fault + ('r, 'i, 'v) table" where
  "apply_op T (OpJournal now es) t = Inr (processJournal T now es t)"
| "apply_op T (OpRowReply i reply) t = Inr (rowReply T i reply t)"
| "apply_op T (OpRowsReply n reply) t = Inr (rowsReply T n reply t)"
| "apply_op T OpFullRefresh t = Inr (fullRefresh T t)"
| "apply_op T (OpUpdateScope sc) t = Inr (updateScope T sc t)"
| "apply_op T (OpAllRows now k) t = Inr (allRows T now k t)"
| "apply_op T (OpModelDestroyed k) t = Inr (modelDestroyed k t)"
| "apply_op T (OpDraftEditRow rowId changes) t =
     (case draftEditRow T rowId changes t of None \<Rightarrow> Inl DoesNotReturn | Some t' \<Rightarrow> Inr t')"
| "apply_op T (OpDraftAddRow fieldMap) t = Inr (draftAddRow T fieldMap t)"
| "apply_op T (OpDraftDeleteRow rowId) t = Inr (draftDeleteRow T rowId t)"
| "apply_op T OpMarkEditsPending t = Inr (markEditsPending T t)"
| "apply_op T OpResetEdits t = (case resetEdits T t of Inl e \<Rightarrow> Inl (ResetFault e) | Inr t' \<Rightarrow> Inr t')"

text \<open>
  An edit after which the row still has its id: it is refused before the row is touched, it does not
  change the id, or the row has its id even when it was moved out, as an integer has.
\<close>

definition edit_keeps_id ::
  "('r, 'i::linorder, 'v) row_type \<Rightarrow> qvariant \<Rightarrow> qvariant_map \<Rightarrow> ('r, 'i, 'v) table \<Rightarrow> bool" where
  "edit_keeps_id T rowId changes t \<longleftrightarrow>
     (case getRow T (idOfVariant T rowId) t of
        None \<Rightarrow> True
      | Some (r, s) \<Rightarrow> pendingEdits t \<or> s = DraftDelete \<or>
          getId T (edited_row T changes r) = getId T r \<or> getId T (movedRow T r) = getId T r)"

fun op_ok :: "('r, 'i::linorder, 'v) row_type \<Rightarrow> 'i op \<Rightarrow> ('r, 'i, 'v) table \<Rightarrow> bool" where
  "op_ok T (OpRowReply i reply) t = sorted_response T reply"
| "op_ok T (OpRowsReply n reply) t = sorted_response T reply"
| "op_ok T (OpDraftEditRow rowId changes) t = edit_keeps_id T rowId changes t"
| "op_ok T (OpDraftAddRow fieldMap) t = ids_left T t"
| "op_ok T _ t = True"

text \<open>\<open>G\<close> is a further restriction on when an operation is called.\<close>

inductive reachable ::
  "('r, 'i::linorder, 'v) row_type \<Rightarrow> ('i op \<Rightarrow> ('r, 'i, 'v) table \<Rightarrow> bool) \<Rightarrow> string \<Rightarrow> ('r, 'i, 'v) table \<Rightarrow> bool"
  for T G sc where
  created: "reachable T G sc (new_table T sc)"
| step: "reachable T G sc t \<Longrightarrow> op_ok T c t \<Longrightarrow> G c t \<Longrightarrow> apply_op T c t = Inr t' \<Longrightarrow> reachable T G sc t'"

inductive_cases reachableE: "reachable T G sc t"

subsection \<open>New models\<close>

lemma construct_fold:
  fixes m0 T now
  assumes "n \<le> length (rowList t)"
  defines "f \<equiv> fold (construct_step T now) [0..<n] (m0, t)"
  assumes "modelIds m0 = []" "modelVirtualFields m0 = []"
  shows "modelIds (fst f) = map (getId T) (take n (rowList t)) \<and> length (modelVirtualFields (fst f)) = n \<and>
    modelKey (fst f) = modelKey m0 \<and>
    rowList (snd f) = rowList t \<and> rowStates (snd f) = rowStates t \<and> backups (snd f) = backups t \<and>
    models (snd f) = models t \<and> pendingEdits (snd f) = pendingEdits t \<and>
    locallyAddedRows (snd f) = locallyAddedRows t"
  using assms(1) unfolding f_def
proof (induction n)
  case (Suc n)
  define g where "g = fold (construct_step T now) [0..<n] (m0, t)"
  have g: "modelIds (fst g) = map (getId T) (take n (rowList t))" "length (modelVirtualFields (fst g)) = n"
    "modelKey (fst g) = modelKey m0"
    "rowList (snd g) = rowList t" "rowStates (snd g) = rowStates t" "backups (snd g) = backups t"
    "models (snd g) = models t" "pendingEdits (snd g) = pendingEdits t"
    "locallyAddedRows (snd g) = locallyAddedRows t"
    using Suc by (simp_all add: g_def)
  have eq: "fold (construct_step T now) [0..<Suc n] (m0, t) = construct_step T now n (fst g, snd g)"
    by (simp add: g_def)
  show ?case unfolding eq using g Suc.prems
    by (simp add: construct_step_def Let_def split_beta take_Suc_conv_app_nth)
qed (use assms in simp)

lemma allRows_spec:
  assumes "table_ok T t"
  obtains m where "models (allRows T now k t) = models t @ [m]" "model_ok m" "modelKey m = k"
    "modelIds m = map (getId T) (rowList t)"
    "table_ok T (allRows T now k t)" "table_view T (allRows T now k t) = table_view T t"
    "backups (allRows T now k t) = backups t" "pendingEdits (allRows T now k t) = pendingEdits t"
proof -
  define t1 where "t1 = (if models t = [] then fullRefresh T t else t)"
  have t1: "rowList t1 = rowList t" "rowStates t1 = rowStates t" "backups t1 = backups t"
    "models t1 = models t" "pendingEdits t1 = pendingEdits t"
    by (simp_all add: t1_def fullRefresh_def)
  define c where "c = construct_model T now k t1"
  have c: "modelIds (fst c) = map (getId T) (rowList t)" "length (modelVirtualFields (fst c)) = length (rowList t)"
    "modelKey (fst c) = k" "rowList (snd c) = rowList t" "rowStates (snd c) = rowStates t"
    "backups (snd c) = backups t" "models (snd c) = models t" "pendingEdits (snd c) = pendingEdits t"
    using construct_fold[of "length (rowList t1)" t1 "\<lparr>modelKey = k, modelIds = [], modelVirtualFields = []\<rparr>" T now] t1
    by (simp_all add: c_def construct_model_def)
  have eq: "allRows T now k t = (snd c)\<lparr>models := models t @ [fst c]\<rparr>"
    using c by (simp add: allRows_def Let_def split_beta t1_def[symmetric] c_def[symmetric])
  have mok: "model_ok (fst c)"
    using c table_okD(2)[OF assms] by (simp add: model_ok_def keys_sorted_def)
  show thesis
  proof (rule that[of "fst c"])
    show "table_ok T (allRows T now k t)"
      using assms c mok by (auto simp: eq table_ok_def)
    show "table_view T (allRows T now k t) = table_view T t"
      using c by (intro table_view_cong) (simp_all add: eq)
  qed (use c mok in \<open>simp_all add: eq\<close>)
qed

lemma modelDestroyed_ok [ok_intros]: "table_ok T t \<Longrightarrow> table_ok T (modelDestroyed k t)"
  by (simp add: modelDestroyed_def table_ok_def)

subsection \<open>Reset keeps the lists sorted\<close>

lemma remove_backup_at_ok:
  "table_ok T t \<Longrightarrow> remove_backup_at n t = Inr t' \<Longrightarrow> table_ok T t'"
  by (auto simp: remove_backup_at_def table_ok_def backup_ok_def keys_sorted_remove_at split: if_splits)

lemma reset_step_ok:
  assumes "table_ok T t" "reset_step T n t = Inr (n', t')"
  shows "table_ok T t'"
proof -
  define i where "i = getId T (brows (backups t) ! n)"
  define p where "p = row_pos T i t"
  show ?thesis
  proof (cases "row_found T i t")
    case False
    with assms show ?thesis
      by (auto simp: reset_step_def Let_def i_def[symmetric] row_search split: sum.splits dest: remove_backup_at_ok)
  next
    case True
    have p: "p < length (rowList t)" "getId T (rowList t ! p) = i" using row_found_at[OF True] by (simp_all add: p_def)
    show ?thesis
    proof (cases "rowStates t ! p = DraftAdd \<or> rowStates t ! p = PendingAdd")
      case add: True
      with True assms show ?thesis
        by (auto simp: reset_step_def Let_def i_def[symmetric] row_search p_def
            split: sum.splits dest: remove_backup_at_ok[OF deleteRow_ok])
    next
      case False
      define t1 where "t1 = (if rowStates t ! p = DraftEdit \<or> rowStates t ! p = PendingEdit
          then set_row p (brows (backups t) ! n) t else t)"
      have "t' = set_state p (bstates (backups t) ! n) t1"
        using True False assms(2)
        unfolding reset_step_def Let_def i_def[symmetric] row_search p_def[symmetric] t1_def[symmetric]
        by simp
      moreover have "table_ok T t1" using assms(1) p by (simp add: t1_def set_row_ok i_def)
      ultimately show ?thesis by (simp add: set_state_ok)
    qed
  qed
qed

lemma reset_loop_ok: "table_ok T t \<Longrightarrow> reset_loop T n t = Inr t' \<Longrightarrow> table_ok T t'"
proof (induction T n t rule: reset_loop.induct)
  case (1 T n t)
  show ?case
  proof (cases "n < length (brows (backups t))")
    case True
    with 1(3) obtain n1 t1 where step: "reset_step T n t = Inr (n1, t1)" "reset_loop T n1 t1 = Inr t'"
      by (subst (asm) reset_loop.simps) (auto split: sum.splits)
    from 1(1)[OF True step(1) refl reset_step_ok[OF 1(2) step(1)] step(2)] show ?thesis .
  next
    case False
    then have "reset_loop T n t = Inr t" by (subst reset_loop.simps) simp
    with 1(2,3) show ?thesis by simp
  qed
qed

lemma resetEdits_ok [ok_intros]:
  assumes "table_ok T t" "resetEdits T t = Inr t'"
  shows "table_ok T t'"
proof -
  from assms(2) obtain t1 where t1: "reset_loop T 0 t = Inr t1"
    "t' = (notifyUpdate T (brows (backups t1)) (emit LocalChangesReset t1))
            \<lparr>backups := backup_empty, locallyAddedRows := []\<rparr>"
    by (auto simp: resetEdits_def Let_def split: sum.splits)
  have "table_ok T t1" using reset_loop_ok[OF assms(1) t1(1)] .
  then have "table_ok T (notifyUpdate T (brows (backups t1)) (emit LocalChangesReset t1))"
    using table_okD(3) by (intro notifyUpdate_ok) (auto simp: backup_ok_def)
  then show ?thesis by (simp add: t1(2) backups_update_ok)
qed

text \<open>The three outcomes of an edit that keeps the id: nothing, the edit, or the row as the move left it.\<close>

lemma draftEditRow_outcomes:
  assumes ok: "table_ok T t" and keeps: "edit_keeps_id T rowId changes t"
    and edit: "draftEditRow T rowId changes t = Some t'" and i: "i = idOfVariant T rowId"
  obtains "t' = t"
  | r s where "table_view T t i = Some (r, s)" "editable T i changes t"
  | r s where "table_view T t i = Some (r, s)" "table_ok T t'" "table_view T t' = (table_view T t)(i \<mapsto> (movedRow T r, s))"
      "backups t' = backups t" "pendingEdits t' = pendingEdits t" "models t' = models t"
proof (cases "pendingEdits t \<or> (case table_view T t i of None \<Rightarrow> True | Some (r, s) \<Rightarrow> s = DraftDelete)")
  case True
  then have "draftEditRow T rowId changes t = Some t"
    using table_view_lookup[OF ok, of i]
    by (auto simp: draftEditRow_def Let_def i[symmetric] row_search split: if_splits)
  with edit that(1) show thesis by simp
next
  case False
  then obtain r s where rs: "table_view T t i = Some (r, s)" "s \<noteq> DraftDelete" "\<not> pendingEdits t"
    by (auto split: option.splits)
  have id: "getId T r = i" using table_view_id[OF ok rs(1)] .
  show thesis
  proof (cases "getId T (edited_row T changes r) = i")
    case True
    then show thesis using that(2) rs id by (simp add: editable_def)
  next
    case changed: False
    have found: "row_found T i t" using rs(1) by (auto simp: row_found_iff[OF ok])
    have t': "t' = set_row (row_pos T i t) (movedRow T r) t"
      using draftEditRow_id_change[OF ok i rs(1,3,2) changed] edit by simp
    have "getId T (movedRow T r) = i"
      using keeps rs id changed getRow_view[OF ok] by (simp add: edit_keeps_id_def i[symmetric])
    then have "table_ok T t'" "table_view T t' = (table_view T t)(i \<mapsto> (movedRow T r, s))"
      using ok found rs(1) row_found_at[OF found] table_view_lookup[OF ok, of i]
      by (simp_all add: t' set_row_ok set_row_view)
    then show thesis using that(3)[OF rs(1)] by (simp add: t' set_row_def)
  qed
qed

lemma draftEditRow_ok:
  assumes "table_ok T t" "edit_keeps_id T rowId changes t" "draftEditRow T rowId changes t = Some t'"
  shows "table_ok T t'"
  using assms draftEditRow_spec(1)[OF assms(1) refl _ _ assms(3)]
  by (cases rule: draftEditRow_outcomes[OF assms refl]) auto

subsection \<open>Every operation keeps the table well-formed\<close>

lemma apply_op_ok:
  assumes "row_laws T" "table_ok T t" "op_ok T c t" "apply_op T c t = Inr t'"
  shows "table_ok T t'"
proof (cases c)
  case (OpAllRows now k)
  from allRows_spec[OF assms(2), where now = now and k = k] have "table_ok T (allRows T now k t)" by blast
  with OpAllRows assms(4) show ?thesis by simp
next
  case (OpDraftEditRow rowId changes)
  with assms draftEditRow_ok[OF assms(2)] show ?thesis by (auto split: option.splits)
next
  case OpResetEdits
  with assms resetEdits_ok[OF assms(2)] show ?thesis by (auto split: sum.splits)
qed (use assms in \<open>auto simp: rowsReply_def intro: ok_intros markEditsPending_spec\<close>)

lemma reachable_ok: "reachable T G sc t \<Longrightarrow> row_laws T \<Longrightarrow> table_ok T t"
  by (induction rule: reachable.induct) (auto simp: new_table_ok intro: apply_op_ok)

end
