(* ===== verification/TableScope.thy ===== *)
theory TableScope
  imports TableMachine
begin

text \<open>
  No operation of a table but \<open>updateScope\<close> changes its scope: the frame the registry of the
  blockchain interface relies on.
\<close>

named_theorems scope_frame \<open>operations that keep the scope of a table\<close>

lemma scope_notifyUpdate [scope_frame]: "scope (notifyUpdate T rows t) = scope t"
  by (simp add: notifyUpdate_def)

lemma scope_deleteBackupRow [scope_frame]: "scope (snd (deleteBackupRow T i t)) = scope t"
  by (simp add: deleteBackupRow_def Let_def split_beta)

lemma scope_rowIsLoading [scope_frame]: "scope (snd (rowIsLoading now i b t)) = scope t"
  by (simp add: rowIsLoading_def split: option.split)

lemma scope_refreshRow [scope_frame]: "scope (refreshRow T now i t) = scope t"
  using scope_rowIsLoading[of now i True t] by (simp add: refreshRow_def Let_def split_beta)

lemma scope_fullRefresh [scope_frame]: "scope (fullRefresh T t) = scope t"
  by (simp add: fullRefresh_def)

lemma scope_deleteRow [scope_frame]: "scope (deleteRow T i t) = scope t"
  by (simp add: deleteRow_def Let_def scope_frame)

lemma scope_markModelsStale [scope_frame]: "scope (markModelsStale T now i t) = scope t"
proof -
  have "scope (fold (markRowStale T now i) ms t) = scope t" for ms
    by (induction ms arbitrary: t) (simp_all add: markRowStale_def scope_frame)
  then show ?thesis by (simp add: markModelsStale_def)
qed

lemma scope_markStale [scope_frame]: "scope (markStale T now i t) = scope t"
proof -
  define t0 where "t0 = deleteBackupRow T i (emit (sigDraftEditInvalidated (variantOfId T i)) t)"
  have "scope (snd t0) = scope t" by (simp add: t0_def scope_frame)
  then show ?thesis
    by (simp add: markStale_def Let_def split_beta t0_def[symmetric] scope_frame split: option.split)
qed

lemma scope_getNew [scope_frame]: "scope (getNew T now i t) = scope t"
  by (simp add: getNew_def Let_def scope_frame)

lemma scope_processJournal [scope_frame]: "scope (processJournal T now es t) = scope t"
proof -
  have "scope (processEntry T now e t) = scope t" for e t
    by (simp add: processEntry_def Let_def scope_frame split: entry_type.split)
  then have "scope (fold (processEntry T now) es t) = scope t"
    by (induction es arbitrary: t) simp_all
  then show ?thesis by (simp add: processJournal_def)
qed

lemma scope_checkPendingInsertion [scope_frame]: "scope (checkPendingInsertion T r t) = scope t"
  by (simp add: checkPendingInsertion_def Let_def scope_frame split: option.split)

lemma scope_checkOverwrittenEdit [scope_frame]: "scope (checkOverwrittenEdit T r s r' t) = scope t"
  by (simp add: checkOverwrittenEdit_def Let_def scope_frame split: option.split)

lemma scope_merge_row [scope_frame]: "scope (merge_row T r pos t) = scope t"
  by (simp add: merge_row_def Let_def scope_frame)

lemma scope_merge_rows [scope_frame]: "scope (merge_rows T rs pos t) = scope t"
  by (induction T rs pos t rule: merge_rows.induct) (simp_all add: scope_frame Let_def)

lemma scope_processRowsResponse [scope_frame]: "scope (processRowsResponse T reply n t) = scope t"
  by (simp add: processRowsResponse_def place_rows_def append_rows_def Let_def scope_frame
    split: option.split prod.split)

lemma scope_replies [scope_frame]:
  "scope (rowReply T i reply t) = scope t" "scope (rowsReply T n reply t) = scope t"
  by (simp_all add: rowReply_def rowsReply_def scope_frame)

lemma scope_allRows [scope_frame]: "scope (allRows T now k t) = scope t"
proof -
  have step: "scope (snd (construct_step T now n mt)) = scope (snd mt)" for n mt
    by (simp add: construct_step_def Let_def split_beta scope_frame)
  have "scope (snd (fold (construct_step T now) ns mt)) = scope (snd mt)" for ns mt
    by (induction ns arbitrary: mt) (simp_all add: step)
  then show ?thesis
    by (simp add: allRows_def construct_model_def Let_def split_beta scope_frame)
qed

lemma scope_draftEditRow [scope_frame]: "draftEditRow T i m t = Some t' \<Longrightarrow> scope t' = scope t"
  by (auto simp: draftEditRow_def Let_def scope_frame split: if_splits option.splits)

lemma scope_drafts [scope_frame]:
  "scope (draftAddRow T m t) = scope t" "scope (draftDeleteRow T i t) = scope t"
  by (simp_all add: draftAddRow_def draftDeleteRow_def Let_def scope_frame split: option.split)

lemma scope_markEditsPending [scope_frame]: "scope (markEditsPending T t) = scope t"
proof -
  have step: "scope (fst (pending_step T b tu)) = scope (fst tu)" for b tu
    by (simp add: pending_step_def Let_def split_beta)
  have "scope (fst (fold (pending_step T) bs tu)) = scope (fst tu)" for bs tu
    by (induction bs arbitrary: tu) (simp_all add: step)
  then show ?thesis
    by (simp add: markEditsPending_def Let_def split_beta scope_frame)
qed

lemma scope_reset_step:
  "reset_step T n t = Inr (n', t') \<Longrightarrow> scope t' = scope t"
  by (auto simp: reset_step_def remove_backup_at_def Let_def scope_frame split: if_splits sum.splits)

lemma scope_reset_loop: "reset_loop T n t = Inr t' \<Longrightarrow> scope t' = scope t"
proof (induction T n t rule: reset_loop.induct)
  case (1 T n t)
  show ?case
  proof (cases "n < length (brows (backups t))")
    case True
    with 1(2) obtain n1 t1 where s: "reset_step T n t = Inr (n1, t1)" "reset_loop T n1 t1 = Inr t'"
      by (simp add: reset_loop.simps[of T n t] split: sum.splits prod.splits)
    then show ?thesis using 1(1)[OF True s(1) refl s(2)] scope_reset_step[OF s(1)] by simp
  next
    case False
    then show ?thesis using 1(2) by (simp add: reset_loop.simps[of T n t])
  qed
qed

lemma scope_resetEdits [scope_frame]: "resetEdits T t = Inr t' \<Longrightarrow> scope t' = scope t"
  by (auto simp: resetEdits_def Let_def scope_frame split: sum.splits dest: scope_reset_loop)

lemma apply_op_scope:
  assumes "apply_op T c t = Inr t'" "c \<notin> range OpUpdateScope"
  shows "scope t' = scope t"
proof (cases c)
  case (OpUpdateScope sc)
  then show ?thesis using assms(2) by simp
next
  case (OpDraftEditRow rowId changes)
  then show ?thesis using assms(1) by (auto simp: scope_frame split: option.splits)
next
  case OpResetEdits
  then show ?thesis using assms(1) by (auto simp: scope_frame split: sum.splits)
next
  case (OpModelDestroyed k)
  then show ?thesis using assms(1) by (auto simp: modelDestroyed_def)
qed (use assms(1) in \<open>auto simp: scope_frame\<close>)

lemma scope_updateScope: "scope (updateScope T sc t) = sc"
  by (simp add: updateScope_def Let_def scope_frame)

end
