(* ===== verification/Replica.thy ===== *)
theory Replica
  imports TableRequests TableScope
begin

text \<open>
  A table next to the node it copies.  The node changes rows and writes a journal entry for each
  change; the client polls the entries one after the other (\<open>processEntry\<close>), its requests for rows
  reach the node later, and the answers are under way until they are delivered (\<open>rowReply\<close>).  All of
  these happen in any order.  The node is modelled by what the contract and the API document: every
  change of a row is journaled, and a request with a lower bound and limit 1 is answered with the first
  row from the bound on.

  \<open>in_step\<close> is the invariant that makes the table a copy of the node's rows up to the entries not yet
  polled; it needs that no entry is polled while an answer with its row is under way (\<open>strict\<close>).
\<close>

subsection \<open>The node\<close>

text \<open>The rows a successful reply carries, and the answer to a request for row \<open>i\<close>.\<close>

definition carries :: "('r, 'i, 'v) row_type \<Rightarrow> reply \<Rightarrow> 'r list \<Rightarrow> bool" where
  "carries T reply rs \<longleftrightarrow> \<not> replyFailed reply \<and>
     (case parseRows (replyBody reply) of
        None \<Rightarrow> False
      | Some (rows, nextKey) \<Rightarrow> fromJsonArray (rowFields T) (blankRow T) rows = rs \<and> (rows = [] \<longrightarrow> nextKey = JNull))"

definition first_from :: "('r, 'i::linorder, 'v) row_type \<Rightarrow> ('i \<rightharpoonup> 'r) \<Rightarrow> 'i \<Rightarrow> 'r list \<Rightarrow> bool" where
  "first_from T db i rs \<longleftrightarrow>
     rs = [] \<and> (\<forall>j \<ge> i. db j = None) \<or>
     (\<exists>r. rs = [r] \<and> db (getId T r) = Some r \<and> i \<le> getId T r \<and> (\<forall>j. i \<le> j \<and> j < getId T r \<longrightarrow> db j = None))"

text \<open>A journal entry for this table.\<close>

definition entry_for ::
  "('r, 'i, 'v) row_type \<Rightarrow> ('r, 'i, 'v) table \<Rightarrow> entry_type \<Rightarrow> 'i \<Rightarrow> journal_entry \<Rightarrow> bool" where
  "entry_for T t k i e \<longleftrightarrow> entryTable e = rowTableName T \<and> number (unat (entryScope e)) = scope t \<and>
     entryType e = k \<and> keyOfJournal T (entryKey e) = i"

text \<open>The node's rows, the entries not yet polled, requests not yet answered, answers under way, the table.\<close>

record ('r, 'i, 'v) replica =
  rpNode :: "'i \<rightharpoonup> 'r"
  rpJournal :: "(entry_type \<times> 'i) list"
  rpAsked :: "'i list"
  rpWire :: "('i \<times> 'r list) list"
  rpTable :: "('r, 'i, 'v) table"

text \<open>No answer under way was asked for row \<open>i\<close> or carries it.\<close>

definition off_wire :: "('r, 'i, 'v) row_type \<Rightarrow> 'i \<Rightarrow> ('r, 'i, 'v) replica \<Rightarrow> bool" where
  "off_wire T i s \<longleftrightarrow> (\<forall>(k, rs) \<in> set (rpWire s). k \<noteq> i \<and> i \<notin> getId T ` set rs)"

inductive replica_step ::
  "('r, 'i::linorder, 'v) row_type \<Rightarrow> bool \<Rightarrow> ('r, 'i, 'v) replica \<Rightarrow> ('r, 'i, 'v) replica \<Rightarrow> bool"
  for T strict where
  put: "replica_step T strict s (s\<lparr>rpNode := (rpNode s)(getId T r \<mapsto> r),
     rpJournal := rpJournal s @ [(if rpNode s (getId T r) = None then AddRow else ModifyRow, getId T r)]\<rparr>)"
| drop_row: "rpNode s i \<noteq> None \<Longrightarrow>
     replica_step T strict s (s\<lparr>rpNode := (rpNode s)(i := None), rpJournal := rpJournal s @ [(DeleteRow, i)]\<rparr>)"
| poll: "rpJournal s = (k, i) # es \<Longrightarrow> (strict \<longrightarrow> off_wire T i s) \<Longrightarrow> entry_for T (rpTable s) k i e \<Longrightarrow>
     t' = processEntry T now e (rpTable s) \<Longrightarrow>
     replica_step T strict s (s\<lparr>rpJournal := es, rpTable := t',
       rpAsked := rpAsked s @ drop (length (sent (rpTable s))) (sent t')\<rparr>)"
| answer: "rpAsked s = xs @ i # ys \<Longrightarrow> first_from T (rpNode s) i rs \<Longrightarrow>
     replica_step T strict s (s\<lparr>rpAsked := xs @ ys, rpWire := rpWire s @ [(i, rs)]\<rparr>)"
| deliver: "rpWire s = xs @ (i, rs) # ys \<Longrightarrow> carries T reply rs \<Longrightarrow>
     replica_step T strict s (s\<lparr>rpWire := xs @ ys, rpTable := rowReply T i reply (rpTable s)\<rparr>)"

subsection \<open>The invariant\<close>

definition kinds :: "'i \<Rightarrow> (entry_type \<times> 'i) list \<Rightarrow> entry_type list" where
  "kinds i es = map fst (filter (\<lambda>(k, j). j = i) es)"

text \<open>The entries lead from a row being known (or not) to it being there (or not).\<close>

fun leads :: "bool \<Rightarrow> entry_type list \<Rightarrow> bool \<Rightarrow> bool" where
  "leads p [] q \<longleftrightarrow> p = q"
| "leads p (AddRow # ks) q \<longleftrightarrow> leads True ks q"
| "leads p (DeleteRow # ks) q \<longleftrightarrow> leads False ks q"
| "leads p (ModifyRow # ks) q \<longleftrightarrow> p \<and> leads True ks q"
| "leads p (OtherEntry n # ks) q \<longleftrightarrow> False"

lemma kinds_simps [simp]:
  "kinds i [] = []" "kinds i ((k, j) # es) = (if j = i then k # kinds i es else kinds i es)"
  "kinds i (es @ es') = kinds i es @ kinds i es'"
  by (simp_all add: kinds_def)

lemma leads_append: "leads p (ks @ ks') q \<longleftrightarrow> (\<exists>m. leads p ks m \<and> leads m ks' q)"
  by (induction p ks q rule: leads.induct) auto

lemma leads_known: "leads False ks q \<Longrightarrow> ks \<noteq> [] \<Longrightarrow> leads True ks q"
  by (cases ks rule: leads.cases[of "(True, ks, q)" for ks]) auto

text \<open>Entries that do not touch what is already known of a row.\<close>

definition untouched :: "entry_type list \<Rightarrow> bool" where
  "untouched ks \<longleftrightarrow> set ks \<subseteq> {AddRow}"

lemma untouched_simps [simp]: "untouched []" "untouched (k # ks) \<longleftrightarrow> k = AddRow \<and> untouched ks"
  "untouched (ks @ ks') \<longleftrightarrow> untouched ks \<and> untouched ks'"
  by (auto simp: untouched_def)

definition in_step :: "('r, 'i::linorder, 'v) row_type \<Rightarrow> ('r, 'i, 'v) replica \<Rightarrow> bool" where
  "in_step T s \<longleftrightarrow> unedited T (rpTable s) \<and>
     (\<forall>i. leads (i \<in> dom (table_view T (rpTable s))) (kinds i (rpJournal s)) (i \<in> dom (rpNode s))) \<and>
     (\<forall>i r. table_view T (rpTable s) i = Some (r, Loaded) \<longrightarrow> untouched (kinds i (rpJournal s)) \<longrightarrow> rpNode s i = Some r) \<and>
     (\<forall>k rs. (k, rs) \<in> set (rpWire s) \<longrightarrow> keys_sorted (getId T) rs) \<and>
     (\<forall>k rs r. (k, rs) \<in> set (rpWire s) \<longrightarrow> r \<in> set rs \<longrightarrow> untouched (kinds (getId T r) (rpJournal s)) \<longrightarrow>
        rpNode s (getId T r) = Some r) \<and>
     (\<forall>k rs. (k, rs) \<in> set (rpWire s) \<longrightarrow> kinds k (rpJournal s) = [] \<longrightarrow> rpNode s k \<noteq> None \<longrightarrow>
        k \<in> getId T ` set rs) \<and>
     (\<forall>i r x. table_view T (rpTable s) i = Some (r, x) \<longrightarrow> x \<noteq> Loaded \<longrightarrow> kinds i (rpJournal s) = [] \<longrightarrow>
        i \<in> set (rpAsked s) \<union> fst ` set (rpWire s)) \<and>
     (\<forall>i. i \<in> dom (loadingRows (rpTable s)) \<longrightarrow> i \<in> set (rpAsked s) \<union> fst ` set (rpWire s))"

lemma in_stepI:
  assumes "unedited T (rpTable s)"
    and "\<And>i. leads (i \<in> dom (table_view T (rpTable s))) (kinds i (rpJournal s)) (i \<in> dom (rpNode s))"
    and "\<And>i r. table_view T (rpTable s) i = Some (r, Loaded) \<Longrightarrow> untouched (kinds i (rpJournal s)) \<Longrightarrow> rpNode s i = Some r"
    and "\<And>k rs. (k, rs) \<in> set (rpWire s) \<Longrightarrow> keys_sorted (getId T) rs"
    and "\<And>k rs r. (k, rs) \<in> set (rpWire s) \<Longrightarrow> r \<in> set rs \<Longrightarrow> untouched (kinds (getId T r) (rpJournal s)) \<Longrightarrow>
           rpNode s (getId T r) = Some r"
    and "\<And>k rs. (k, rs) \<in> set (rpWire s) \<Longrightarrow> kinds k (rpJournal s) = [] \<Longrightarrow> rpNode s k \<noteq> None \<Longrightarrow>
           k \<in> getId T ` set rs"
    and "\<And>i r x. table_view T (rpTable s) i = Some (r, x) \<Longrightarrow> x \<noteq> Loaded \<Longrightarrow> kinds i (rpJournal s) = [] \<Longrightarrow>
           i \<in> set (rpAsked s) \<union> fst ` set (rpWire s)"
    and "\<And>i. i \<in> dom (loadingRows (rpTable s)) \<Longrightarrow> i \<in> set (rpAsked s) \<union> fst ` set (rpWire s)"
  shows "in_step T s"
  unfolding in_step_def using assms by (intro conjI allI impI)

lemma in_stepD:
  assumes "in_step T s"
  shows "unedited T (rpTable s)"
    and "leads (i \<in> dom (table_view T (rpTable s))) (kinds i (rpJournal s)) (i \<in> dom (rpNode s))"
    and "table_view T (rpTable s) i = Some (r, Loaded) \<Longrightarrow> untouched (kinds i (rpJournal s)) \<Longrightarrow> rpNode s i = Some r"
    and "(k, rs) \<in> set (rpWire s) \<Longrightarrow> keys_sorted (getId T) rs"
    and "(k, rs) \<in> set (rpWire s) \<Longrightarrow> r \<in> set rs \<Longrightarrow> untouched (kinds (getId T r) (rpJournal s)) \<Longrightarrow>
           rpNode s (getId T r) = Some r"
    and "(k, rs) \<in> set (rpWire s) \<Longrightarrow> kinds k (rpJournal s) = [] \<Longrightarrow> rpNode s k \<noteq> None \<Longrightarrow> k \<in> getId T ` set rs"
    and "table_view T (rpTable s) i = Some (r, x) \<Longrightarrow> x \<noteq> Loaded \<Longrightarrow> kinds i (rpJournal s) = [] \<Longrightarrow>
           i \<in> set (rpAsked s) \<union> fst ` set (rpWire s)"
    and "i \<in> dom (loadingRows (rpTable s)) \<Longrightarrow> i \<in> set (rpAsked s) \<union> fst ` set (rpWire s)"
  using assms unfolding in_step_def by blast+

subsection \<open>What the client's steps do to an unedited table\<close>

definition entry_view ::
  "('r, 'i, 'v) row_type \<Rightarrow> entry_type \<Rightarrow> 'i \<Rightarrow> ('i \<rightharpoonup> 'r \<times> LoadState) \<Rightarrow> ('i \<rightharpoonup> 'r \<times> LoadState)" where
  "entry_view T k i V = (case k of
     DeleteRow \<Rightarrow> V(i := None)
   | ModifyRow \<Rightarrow> (case V i of None \<Rightarrow> V | Some (r, x) \<Rightarrow> V(i \<mapsto> (r, Stale)))
   | AddRow \<Rightarrow> (if i \<in> dom V then V else V(i \<mapsto> (setId T i (blankRow T), Loading)))
   | OtherEntry n \<Rightarrow> V)"

lemma processEntry_unedited:
  fixes now
  assumes "row_laws T" "unedited T t" "entry_for T t k i e"
  defines "t' \<equiv> processEntry T now e t"
  shows "unedited T t'" "table_view T t' = entry_view T k i (table_view T t)"
    "k = DeleteRow \<Longrightarrow> quiet t t'" "k = ModifyRow \<or> k = AddRow \<Longrightarrow> refreshes i t t'"
proof -
  have t: "table_ok T t" "\<not> pendingEdits t" "models t \<noteq> []"
    "\<And>i r s. table_view T t i = Some (r, s) \<Longrightarrow> s = Loaded \<or> s = Loading \<or> s = Stale"
    using assms(2) by (auto simp: unedited_def)
  have t': "t' = (case k of DeleteRow \<Rightarrow> deleteRow T i t | ModifyRow \<Rightarrow> markStale T now i t
      | AddRow \<Rightarrow> getNew T now i t | OtherEntry n \<Rightarrow> t)"
    using assms(3) by (simp add: t'_def processEntry_def entry_for_def Let_def)
  show view: "table_view T t' = entry_view T k i (table_view T t)"
    using t(4)[of i] markStale_view[OF t(1), of now i] getNew_spec(2)[OF assms(1) t(1), of now i] deleteRow_view[OF t(1), of i]
    by (auto simp: t' entry_view_def stale_entry_def isDraft_def split: entry_type.split option.split)
  show q: "k = DeleteRow \<Longrightarrow> quiet t t'" by (simp add: t' quiet_deleteRow)
  show f: "k = ModifyRow \<or> k = AddRow \<Longrightarrow> refreshes i t t'"
    using refreshes_markStale[OF t(3)] refreshes_getNew by (auto simp: t')
  have "length (models t') = length (models t)"
    using q f by (cases k) (auto simp: quiet_def refreshes_def t')
  moreover have "table_ok T t'" unfolding t'_def by (rule processEntry_ok[OF assms(1) t(1)])
  moreover have "\<not> pendingEdits t'"
    using t(2) by (auto simp: t' getNew_def Let_def markStale_def deleteRow_def deleteBackupRow_pending split_beta split: entry_type.split option.split)
  ultimately show "unedited T t'"
    using t(3,4) by (auto simp: unedited_def view entry_view_def split: entry_type.splits option.splits if_splits)
qed

lemma rowReply_unedited:
  fixes reply i
  assumes "unedited T t" "carries T reply rs" "keys_sorted (getId T) rs"
  defines "t' \<equiv> rowReply T i reply t"
  shows "unedited T t'" "table_view T t' = table_view T t ++ loaded_map T rs" "sent t' = sent t"
    "loadingRows t' = (loadingRows t)(i := None)"
proof -
  define t1 where "t1 = t\<lparr>loadingRows := (loadingRows t)(i := None)\<rparr>"
  obtain rows nk where reply: "\<not> replyFailed reply" "parseRows (replyBody reply) = Some (rows, nk)"
    "fromJsonArray (rowFields T) (blankRow T) rows = rs" "rows = [] \<longrightarrow> nk = JNull"
    using assms(2) by (auto simp: carries_def split: option.splits)
  have t1: "table_ok T t1" "table_view T t1 = table_view T t" "\<not> pendingEdits t1" "models t1 = models t" "sent t1 = sent t"
    using assms(1) by (simp_all add: t1_def unedited_def table_ok_def table_view_def sent_def)
  have eq: "t' = (if rows = [] then t1 else place_rows T rs t1)"
    using reply by (cases rows) (auto simp: t'_def rowReply_def processRowsResponse_def t1_def[symmetric])
  show view: "table_view T t' = table_view T t ++ loaded_map T rs"
    using processRowsResponse_view[OF t1(1) reply(1,2) reply(3)[symmetric] assms(3), of 1] t1(2,3)
    by (simp add: t'_def rowReply_def t1_def[symmetric] nothing_to_settle_def)
  have q: "quiet t1 t' \<and> \<not> pendingEdits t'" using place_rows_unlocked[OF t1(3)] t1(3) by (simp add: eq)
  then show "sent t' = sent t" "loadingRows t' = (loadingRows t)(i := None)"
    using t1(5) by (simp_all add: quiet_def) (simp add: t1_def)
  have "sorted_response T reply" using reply(2,3) assms(3) by (simp add: sorted_response_def)
  then have "table_ok T t'" unfolding t'_def by (rule rowReply_ok[rotated]) (use assms(1) in \<open>simp add: unedited_def\<close>)
  then show "unedited T t'"
    using assms(1) q t1(4) by (auto simp: unedited_def quiet_def view loaded_map_def map_add_def split: option.splits dest!: map_of_SomeD)
qed


subsection \<open>Every step keeps it\<close>

lemma in_step_put:
  assumes "in_step T s" "q = getId T r"
  shows "in_step T (s\<lparr>rpNode := (rpNode s)(q \<mapsto> r),
    rpJournal := rpJournal s @ [(if rpNode s q = None then AddRow else ModifyRow, q)]\<rparr>)"
  using in_stepD[OF assms(1)] unfolding assms(2)
  by (intro in_stepI) (auto simp: leads_append dom_def split: if_splits)

lemma in_step_drop:
  assumes "in_step T s"
  shows "in_step T (s\<lparr>rpNode := (rpNode s)(i := None), rpJournal := rpJournal s @ [(DeleteRow, i)]\<rparr>)"
  using in_stepD[OF assms]
  by (intro in_stepI) (auto simp: leads_append dom_def split: if_splits)

lemma first_from_facts:
  assumes "first_from T db i rs"
  shows "keys_sorted (getId T) rs" "r \<in> set rs \<Longrightarrow> db (getId T r) = Some r" "db i \<noteq> None \<Longrightarrow> i \<in> getId T ` set rs"
  using assms by (fastforce simp: first_from_def less_le)+

lemma in_step_answer:
  assumes "in_step T s" "rpAsked s = xs @ i # ys" "first_from T (rpNode s) i rs"
  shows "in_step T (s\<lparr>rpAsked := xs @ ys, rpWire := rpWire s @ [(i, rs)]\<rparr>)"
  using in_stepD[OF assms(1)] first_from_facts[OF assms(3)] assms(2)
  by (intro in_stepI) auto

lemma in_step_deliver:
  assumes "in_step T s" "rpWire s = xs @ (k, rs) # ys" "carries T reply rs"
  shows "in_step T (s\<lparr>rpWire := xs @ ys, rpTable := rowReply T k reply (rpTable s)\<rparr>)" (is "in_step T ?s")
proof -
  note inv = in_stepD[OF assms(1)]
  have here: "(k, rs) \<in> set (rpWire s)" using assms(2) by simp
  note reply = rowReply_unedited[OF inv(1) assms(3) inv(4)[OF here], of k]
  define V where "V = table_view T (rpTable s)"
  define L where "L = loaded_map T rs"
  have L: "L i = Some (r, x) \<Longrightarrow> x = Loaded \<and> r \<in> set rs \<and> getId T r = i" for i r x
    by (auto simp: L_def loaded_map_def dest!: map_of_SomeD)
  have domL: "dom L = getId T ` set rs"
    by (simp add: L_def loaded_map_def dom_map_of_conv_image_fst image_image)
  have view: "table_view T (rpTable ?s) = V ++ L" by (simp add: reply V_def L_def)
  have wire: "set (rpWire ?s) \<subseteq> set (rpWire s)" using assms(2) by auto
  show ?thesis
  proof (rule in_stepI)
    fix i
    have "leads (i \<in> dom L \<or> i \<in> dom V) (kinds i (rpJournal s)) (i \<in> dom (rpNode s))"
    proof (cases "i \<in> dom V \<or> i \<notin> dom L")
      case True
      then have "(i \<in> dom L \<or> i \<in> dom V) = (i \<in> dom V)" by blast
      then show ?thesis using inv(2)[of i] by (simp add: V_def)
    next
      case False
      then obtain r where "r \<in> set rs" "getId T r = i" using domL by auto
      then show ?thesis using False inv(2)[of i] inv(5)[OF here, of r] leads_known[of "kinds i (rpJournal s)"]
        by (cases "kinds i (rpJournal s) = []") (auto simp: V_def)
    qed
    then show "leads (i \<in> dom (table_view T (rpTable ?s))) (kinds i (rpJournal ?s)) (i \<in> dom (rpNode ?s))"
      unfolding view by simp
  next
    fix i r assume "table_view T (rpTable ?s) i = Some (r, Loaded)" "untouched (kinds i (rpJournal ?s))"
    then show "rpNode ?s i = Some r"
      unfolding view using inv(3)[of i r] inv(5)[OF here, of r] L[of i r] by (auto simp: V_def)
  next
    fix i r x assume "table_view T (rpTable ?s) i = Some (r, x)" "x \<noteq> Loaded" "kinds i (rpJournal ?s) = []"
    then have a: "(V ++ L) i = Some (r, x)" "x \<noteq> Loaded" "kinds i (rpJournal s) = []" unfolding view by simp_all
    then have V: "L i = None" "V i = Some (r, x)" using L by (auto simp: map_add_Some_iff)
    have "i \<noteq> k"
    proof
      assume "i = k"
      then have "i \<in> dom (rpNode s)" using inv(2)[of i] V a(3) by (auto simp: V_def)
      then show False using inv(6)[OF here] \<open>i = k\<close> a(3) V(1) domL by auto
    qed
    then show "i \<in> set (rpAsked ?s) \<union> fst ` set (rpWire ?s)"
      using inv(7)[of i r x] V a assms(2) by (auto simp: V_def)
  next
    fix i assume "i \<in> dom (loadingRows (rpTable ?s))"
    then have "i \<in> dom (loadingRows (rpTable s))" "i \<noteq> k" by (auto simp: reply split: if_splits)
    then show "i \<in> set (rpAsked ?s) \<union> fst ` set (rpWire ?s)"
      using inv(8)[of i] assms(2) by auto
  qed (use wire reply(1) inv(4,5,6) in \<open>simp_all, blast+\<close>)
qed

lemma in_step_poll:
  assumes "in_step T s" "row_laws T" "rpJournal s = (k, i) # es" "off_wire T i s" "entry_for T (rpTable s) k i e"
    and "t' = processEntry T now e (rpTable s)"
  shows "in_step T (s\<lparr>rpJournal := es, rpTable := t',
    rpAsked := rpAsked s @ drop (length (sent (rpTable s))) (sent t')\<rparr>)" (is "in_step T ?s")
proof -
  note inv = in_stepD[OF assms(1)]
  note entry = processEntry_unedited[OF assms(2) inv(1) assms(5), of now, folded assms(6)]
  define V where "V = table_view T (rpTable s)"
  have k: "k = AddRow \<or> k = ModifyRow \<or> k = DeleteRow"
    using inv(2)[of i] assms(3) by (cases k) auto
  have asked: "i \<in> set (drop (length (sent (rpTable s))) (sent t')) \<or> i \<in> dom (loadingRows (rpTable s))"
    if "k \<noteq> DeleteRow"
    using entry(4) k that by (auto simp: refreshes_def)
  have loading: "j \<in> dom (loadingRows t') \<Longrightarrow> j = i \<and> k \<noteq> DeleteRow \<or> j \<in> dom (loadingRows (rpTable s))" for j
    using entry(3,4) k by (auto simp: refreshes_def quiet_def)
  have off: "(j, rs) \<in> set (rpWire s) \<Longrightarrow> j \<noteq> i \<and> i \<notin> getId T ` set rs" for j rs
    using assms(4) by (auto simp: off_wire_def)
  have J: "kinds j (rpJournal s) = (if j = i then k # kinds j es else kinds j es)" for j
    using assms(3) by simp
  have other: "j \<noteq> i \<Longrightarrow> table_view T t' j = V j" for j
    using k by (auto simp: entry(2) entry_view_def V_def split: option.splits)
  have this_row: "table_view T t' i = Some (r, x) \<Longrightarrow> k \<noteq> DeleteRow \<and> (x = Loaded \<longrightarrow> k = AddRow \<and> V i = Some (r, x))" for r x
    using k by (auto simp: entry(2) entry_view_def V_def split: option.splits if_splits)
  have here: "leads (i \<in> dom (table_view T t')) (kinds i es) (i \<in> dom (rpNode s))"
  proof -
    have "i \<in> dom (table_view T t') \<longleftrightarrow> (if k = AddRow then True else if k = DeleteRow then False else i \<in> dom V)"
      using k by (auto simp: entry(2) entry_view_def V_def split: option.splits)
    then show ?thesis using inv(2)[of i] k assms(3) by (auto simp: V_def)
  qed
  show ?thesis
  proof (rule in_stepI)
    fix j
    show "leads (j \<in> dom (table_view T (rpTable ?s))) (kinds j (rpJournal ?s)) (j \<in> dom (rpNode ?s))"
      using here inv(2)[of j] J[of j] other[of j] by (cases "j = i") (simp_all add: V_def domIff)
  next
    fix j r assume "table_view T (rpTable ?s) j = Some (r, Loaded)" "untouched (kinds j (rpJournal ?s))"
    then show "rpNode ?s j = Some r" 
      using inv(3)[of j r] J[of j] other[of j] this_row[of r Loaded] by (cases "j = i") (simp_all add: V_def)
  next
    fix j r x assume "table_view T (rpTable ?s) j = Some (r, x)" "x \<noteq> Loaded" "kinds j (rpJournal ?s) = []"
    then show "j \<in> set (rpAsked ?s) \<union> fst ` set (rpWire ?s)"
      using inv(7)[of j r x] J[of j] other[of j] this_row[of r x] asked inv(8)[of i] by (cases "j = i") (auto simp: V_def)
  next
    fix j assume "j \<in> dom (loadingRows (rpTable ?s))"
    then show "j \<in> set (rpAsked ?s) \<union> fst ` set (rpWire ?s)"
      using loading[of j] asked inv(8)[of j] by auto
  next
    fix j rs r assume a: "(j, rs) \<in> set (rpWire ?s)" "r \<in> set rs" "untouched (kinds (getId T r) (rpJournal ?s))"
    then have "getId T r \<noteq> i" using off[of j rs] by auto
    then show "rpNode ?s (getId T r) = Some r" using inv(5)[of j rs r] J[of "getId T r"] a by simp
  next
    fix j rs assume a: "(j, rs) \<in> set (rpWire ?s)" "kinds j (rpJournal ?s) = []" "rpNode ?s j \<noteq> None"
    then show "j \<in> getId T ` set rs" using off[of j rs] inv(6)[of j rs] J[of j] by simp
  qed (use inv(4) entry(1) in simp_all)
qed

lemma replica_step_in_step:
  assumes "replica_step T True s s'" "row_laws T" "in_step T s"
  shows "in_step T s'"
  using assms
proof cases
  case (put r)
  then show ?thesis using in_step_put[OF assms(3) refl, of r] by (simp only:)
next
  case (drop_row i)
  then show ?thesis using in_step_drop[OF assms(3), of i] by (simp only:)
next
  case (poll k i es e t' now)
  then show ?thesis using in_step_poll[OF assms(3,2) poll(2)] by blast
next
  case (answer xs i ys rs)
  then show ?thesis using in_step_answer[OF assms(3)] by blast
next
  case (deliver xs i rs ys reply)
  then show ?thesis using in_step_deliver[OF assms(3)] by blast
qed

definition quiescent :: "('r, 'i, 'v) replica \<Rightarrow> bool" where
  "quiescent s \<longleftrightarrow> rpJournal s = [] \<and> rpAsked s = [] \<and> rpWire s = []"

lemma quiescent_copy:
  assumes "in_step T s" "quiescent s"
  shows "table_view T (rpTable s) = map_option (\<lambda>r. (r, Loaded)) \<circ> rpNode s"
proof
  fix i
  note inv = in_stepD[OF assms(1)] and q = assms(2)[unfolded quiescent_def]
  show "table_view T (rpTable s) i = (map_option (\<lambda>r. (r, Loaded)) \<circ> rpNode s) i"
  proof (cases "table_view T (rpTable s) i")
    case None
    then show ?thesis using inv(2)[of i] q by (auto simp: domIff)
  next
    case (Some e)
    then show ?thesis using inv(3)[of i "fst e"] inv(7)[of i "fst e" "snd e"] q
      by (cases e; cases "snd e = Loaded") simp_all
  qed
qed

inductive replica_steps ::
  "('r, 'i::linorder, 'v) row_type \<Rightarrow> bool \<Rightarrow> ('r, 'i, 'v) replica \<Rightarrow> ('r, 'i, 'v) replica \<Rightarrow> bool"
  for T strict where
  replica_done: "replica_steps T strict s s"
| replica_more: "replica_step T strict s s' \<Longrightarrow> replica_steps T strict s' s'' \<Longrightarrow> replica_steps T strict s s''"

lemma replica_steps_in_step: "replica_steps T True s s' \<Longrightarrow> row_laws T \<Longrightarrow> in_step T s \<Longrightarrow> in_step T s'"
  by (induction rule: replica_steps.induct) (auto intro: replica_step_in_step)

text \<open>A table that shows the node's rows and waits for nothing.\<close>

definition start_replica :: "('i \<rightharpoonup> 'r) \<Rightarrow> ('r, 'i, 'v) table \<Rightarrow> ('r, 'i, 'v) replica" where
  "start_replica db t = \<lparr>rpNode = db, rpJournal = [], rpAsked = [], rpWire = [], rpTable = t\<rparr>"

lemma start_in_step:
  assumes "unedited T t" "loadingRows t = Map.empty" "table_view T t = map_option (\<lambda>r. (r, Loaded)) \<circ> db"
  shows "in_step T (start_replica db t)"
  using assms by (auto simp: in_step_def start_replica_def domIff)

end
