(* ===== verification/TablePhase.thy ===== *)
theory TablePhase
  imports TableMachine
begin

text \<open>
  The life cycle of local edits.  A row in a draft or pending state always has a backup; while edits
  are pending no row is in a draft state; when none are pending no row is in a pending state.  The
  invariant is kept by every operation except a reset that meets added rows or pending edits, which
  the theory \<open>TableReset\<close> shows to be faulty.
\<close>

definition isPending :: "LoadState \<Rightarrow> bool" where
  "isPending s \<longleftrightarrow> s = PendingEdit \<or> s = PendingAdd \<or> s = PendingDelete"

definition plain :: "LoadState \<Rightarrow> bool" where
  "plain s \<longleftrightarrow> \<not> isDraft s \<and> \<not> isPending s"

lemma plain_iff: "plain s \<longleftrightarrow> s \<in> {Loaded, Loading, Stale}"
  by (cases s) (simp_all add: plain_def isDraft_def isPending_def)

text \<open>The invariant on the rows \<open>v\<close>, the backups \<open>b\<close> and the flag \<open>p\<close> (\<open>pendingEdits\<close>).\<close>

definition phase ::
  "('i \<rightharpoonup> 'r \<times> LoadState) \<Rightarrow> ('i \<rightharpoonup> 'r \<times> LoadState) \<Rightarrow> bool \<Rightarrow> bool" where
  "phase v b p \<longleftrightarrow>
     (\<forall>i r s. v i = Some (r, s) \<longrightarrow> \<not> plain s \<longrightarrow> i \<in> dom b) \<and>
     (p \<longrightarrow> b \<noteq> Map.empty) \<and>
     (\<forall>i r s. v i = Some (r, s) \<longrightarrow> (if p then \<not> isDraft s else \<not> isPending s))"

lemma phase_new: "phase Map.empty Map.empty False"
  by (simp add: phase_def)

lemma phase_row_gone: "phase v b p \<Longrightarrow> phase (v(i := None)) b p"
  by (auto simp: phase_def)

lemma phase_row_plain: "phase v b p \<Longrightarrow> plain s \<Longrightarrow> phase (v(i \<mapsto> (r, s))) b p"
  by (auto simp: phase_def plain_def)

lemma phase_same_state: "phase v b p \<Longrightarrow> v i = Some (r, s) \<Longrightarrow> phase (v(i \<mapsto> (r', s))) b p"
  unfolding phase_def by (auto split: if_splits)

lemma phase_backup_gone:
  assumes "phase v b p" "\<And>r s. v i = Some (r, s) \<Longrightarrow> plain s"
  shows "phase v (b(i := None)) (p \<and> b(i := None) \<noteq> Map.empty)"
proof -
  have dom: "j \<in> dom (b(i := None))" if "v j = Some (r, s)" "\<not> plain s" for j r s
    using that assms by (auto simp: phase_def)
  have "\<not> isPending s" if "v j = Some (r, s)" "b(i := None) = Map.empty" for j r s
  proof (cases "plain s")
    case False
    from dom[OF that(1) False] that(2) show ?thesis by simp
  qed (simp add: plain_def)
  moreover have "\<not> isDraft s" if "v j = Some (r, s)" "p" for j r s
    using assms(1) that by (simp add: phase_def)
  moreover have "\<not> isPending s" if "v j = Some (r, s)" "\<not> p" for j r s
    using assms(1) that by (simp add: phase_def)
  ultimately show ?thesis using dom unfolding phase_def by meson
qed

lemma phase_draft:
  assumes "phase v b False" "isDraft s" "dom b' = insert i (dom b)"
  shows "phase (v(i \<mapsto> (r, s))) b' False"
  using assms by (auto simp: phase_def isDraft_def isPending_def plain_def)

lemma pending_state_draft: "isDraft s \<Longrightarrow> isPending (pending_state s)"
  by (cases s) (simp_all add: isDraft_def isPending_def)

lemma pending_state_other: "\<not> isDraft s \<Longrightarrow> pending_state s = s"
  by (cases s) (simp_all add: isDraft_def)

lemma phase_pending:
  assumes "phase v b p"
  shows "phase (pending_view (dom b) v) b (p \<or> b \<noteq> Map.empty)"
proof -
  have "(\<not> plain s \<longrightarrow> i \<in> dom b) \<and> (if p \<or> b \<noteq> Map.empty then \<not> isDraft s else \<not> isPending s)"
    if row: "pending_view (dom b) v i = Some (r, s)" for i r s
  proof -
    from row obtain s0 where s0: "v i = Some (r, s0)" "s = (if i \<in> dom b then pending_state s0 else s0)"
      by (auto simp: pending_view_def split: option.splits)
    have old: "\<not> plain s0 \<Longrightarrow> i \<in> dom b" "p \<Longrightarrow> \<not> isDraft s0" "\<not> p \<Longrightarrow> \<not> isPending s0"
      using assms s0(1) unfolding phase_def by meson+
    show ?thesis
    proof (cases "isDraft s0")
      case True
      then have "i \<in> dom b" using old by (simp add: plain_def)
      then have "b \<noteq> Map.empty" by auto
      with True \<open>i \<in> dom b\<close> s0(2) pending_state_draft[OF True] show ?thesis
        by (auto simp: isDraft_def isPending_def)
    next
      case False
      then have "s = s0" using s0(2) by (simp add: pending_state_other)
      with False old show ?thesis by auto
    qed
  qed
  moreover have "p \<Longrightarrow> b \<noteq> Map.empty" using assms by (simp add: phase_def)
  ultimately show ?thesis unfolding phase_def by blast
qed

lemma phase_restored:
  assumes "phase v b False" "\<And>i r s. b i = Some (r, s) \<Longrightarrow> plain s"
  shows "phase (restored_view b v) Map.empty False"
proof -
  have "plain s" if "restored_view b v i = Some (r, s)" for i r s
  proof (cases "b i")
    case None
    with that have "v i = Some (r, s)" by (auto simp: restored_view_def split: option.splits)
    with None assms(1) show ?thesis by (auto simp: phase_def)
  next
    case (Some e)
    obtain br bs where e: "e = (br, bs)" by (cases e)
    with that Some have "s = bs" by (auto simp: restored_view_def restored_def split: option.splits)
    with assms(2)[of i br bs] Some e show ?thesis by simp
  qed
  then show ?thesis by (auto simp: phase_def plain_def)
qed

subsection \<open>The operations\<close>

definition phase_ok :: "('r, 'i::linorder, 'v) row_type \<Rightarrow> ('r, 'i, 'v) table \<Rightarrow> bool" where
  "phase_ok T t \<longleftrightarrow> phase (table_view T t) (backup_view (getId T) (backups t)) (pendingEdits t)"

lemma phase_ok_cong:
  "table_view T t' = table_view T t \<Longrightarrow> backups t' = backups t \<Longrightarrow> pendingEdits t' = pendingEdits t \<Longrightarrow>
     phase_ok T t' = phase_ok T t"
  by (simp add: phase_ok_def)

lemma emit_phase [simp]: "phase_ok T (emit e t) = phase_ok T t"
  by (rule phase_ok_cong) simp_all

lemma backup_isEmpty_iff:
  "table_ok T t \<Longrightarrow> backup_isEmpty (backups t) \<longleftrightarrow> backup_view (getId T) (backups t) = Map.empty"
  by (simp add: backup_isEmpty_view table_okD)

lemma deleteBackupRow_phase:
  assumes "table_ok T t" "phase_ok T t" "\<And>r s. table_view T t i = Some (r, s) \<Longrightarrow> plain s"
  shows "phase_ok T (snd (deleteBackupRow T i t))"
  using phase_backup_gone[OF assms(2)[unfolded phase_ok_def] assms(3)] deleteBackupRow_ok[OF assms(1), of i]
  by (simp add: phase_ok_def deleteBackupRow_backup_view[OF assms(1)] deleteBackupRow_pending backup_isEmpty_iff)

lemma deleteRow_pending:
  "pendingEdits (deleteRow T i t) \<longleftrightarrow>
     pendingEdits t \<and> (row_found T i t \<and> drops_backup (rowStates t ! row_pos T i t)
       \<longrightarrow> \<not> backup_isEmpty (snd (backup_remove (getId T) i (backups t))))"
  by (auto simp: deleteRow_def Let_def row_search deleteBackupRow_pending deleteBackupRow_backups drops_backup_def)

lemma deleteRow_phase:
  assumes "table_ok T t" "phase_ok T t"
  shows "phase_ok T (deleteRow T i t)"
proof (cases "row_found T i t \<and> drops_backup (rowStates t ! row_pos T i t)")
  case False
  then show ?thesis
    using phase_row_gone[OF assms(2)[unfolded phase_ok_def], of i]
    by (auto simp: phase_ok_def deleteRow_view[OF assms(1)] deleteRow_backups deleteRow_pending)
next
  case True
  define b where "b = snd (backup_remove (getId T) i (backups t))"
  have b: "backup_ok (getId T) b" "backup_view (getId T) b = (backup_view (getId T) (backups t))(i := None)"
    using table_okD(3)[OF assms(1)] by (simp_all add: b_def backup_remove_ok backup_remove_view)
  have "phase ((table_view T t)(i := None)) ((backup_view (getId T) (backups t))(i := None))
      (pendingEdits t \<and> (backup_view (getId T) (backups t))(i := None) \<noteq> Map.empty)"
    by (rule phase_backup_gone[OF phase_row_gone[OF assms(2)[unfolded phase_ok_def]]]) simp
  then show ?thesis using True b
    by (simp add: phase_ok_def deleteRow_view[OF assms(1)] deleteRow_backups deleteRow_pending
        b_def[symmetric] backup_isEmpty_view)
qed

lemma refreshRow_phase [simp]: "phase_ok T (refreshRow T' now i t) = phase_ok T t"
  by (rule phase_ok_cong) simp_all

lemma markStale_phase:
  assumes "table_ok T t" "phase_ok T t"
  shows "phase_ok T (markStale T now i t)"
proof (cases "table_view T t i")
  case None
  then have "\<not> row_found T i t" by (simp add: row_found_iff[OF assms(1)] domIff)
  then have eq: "markStale T now i t = markModelsStale T now i t"
    by (simp add: markStale_def Let_def row_search)
  show ?thesis unfolding eq using assms(2) by (simp add: phase_ok_def)
next
  case (Some e)
  obtain r s where e: "e = (r, s)" by (cases e)
  have found: "row_found T i t" using Some by (auto simp: row_found_iff[OF assms(1)])
  have st: "rowStates t ! row_pos T i t = s"
    using Some found e by (simp add: table_view_lookup[OF assms(1)])
  define s' where "s' = stale_entry (backup_view (getId T) (backups t) i) (r, s)"
  have view: "table_view T (markStale T now i t) = (table_view T t)(i \<mapsto> s')"
    using markStale_view[OF assms(1), where now = now and i = i] Some e by (simp add: s'_def)
  consider "s = PendingEdit \<or> s = PendingDelete" | "isDraft s" "s \<noteq> PendingEdit" "s \<noteq> PendingDelete"
    | "\<not> isDraft s" "s \<noteq> PendingEdit" "s \<noteq> PendingDelete" by blast
  then show ?thesis
  proof cases
    case 1
    then have "markStale T now i t = refreshRow T now i t"
      using found st by (auto simp: markStale_def Let_def row_search)
    with assms(2) show ?thesis by simp
  next
    case 2
    define t0 where "t0 = snd (deleteBackupRow T i (emit (sigDraftEditInvalidated (variantOfId T i)) t))"
    have b: "backups (markStale T now i t) = backups t0"
      "pendingEdits (markStale T now i t) = pendingEdits t0"
      using 2 found st
      by (simp_all add: markStale_def Let_def row_search split_beta t0_def[symmetric] split: option.splits)
    have bv: "backup_view (getId T) (backups t0) = (backup_view (getId T) (backups t))(i := None)"
      using assms(1) by (simp add: t0_def deleteBackupRow_backup_view)
    have t0: "table_ok T t0" using assms(1) by (simp add: t0_def)
    have p: "pendingEdits t0 \<longleftrightarrow> pendingEdits t \<and> (backup_view (getId T) (backups t))(i := None) \<noteq> Map.empty"
      using backup_isEmpty_iff[OF t0] bv by (simp add: t0_def deleteBackupRow_pending)
    have "plain (snd s')" using 2 by (simp add: s'_def stale_entry_def plain_iff split: option.splits)
    then have "phase ((table_view T t)(i \<mapsto> s')) (backup_view (getId T) (backups t)) (pendingEdits t)"
      using phase_row_plain[OF assms(2)[unfolded phase_ok_def], of "snd s'" i "fst s'"] by simp
    then have "phase ((table_view T t)(i \<mapsto> s')) ((backup_view (getId T) (backups t))(i := None))
        (pendingEdits t \<and> (backup_view (getId T) (backups t))(i := None) \<noteq> Map.empty)"
      by (rule phase_backup_gone) (use \<open>plain (snd s')\<close> in auto)
    then show ?thesis by (simp add: phase_ok_def view b bv p)
  next
    case 3
    then have eq: "markStale T now i t = markModelsStale T now i
        (emit (RowStale (rowList t ! row_pos T i t)) (set_state (row_pos T i t) Stale t))"
      using found st by (simp add: markStale_def Let_def row_search)
    have b: "backups (markStale T now i t) = backups t" "pendingEdits (markStale T now i t) = pendingEdits t"
      by (simp_all add: eq)
    have "s' = (r, Stale)" using 3 by (simp add: s'_def stale_entry_def)
    then show ?thesis using phase_row_plain[OF assms(2)[unfolded phase_ok_def], of Stale i r]
      by (simp add: phase_ok_def view b plain_iff)
  qed
qed

lemma getNew_phase:
  assumes "row_laws T" "table_ok T t" "phase_ok T t"
  shows "phase_ok T (getNew T now i t)"
proof -
  have "backups (getNew T now i t) = backups t" "pendingEdits (getNew T now i t) = pendingEdits t"
    by (simp_all add: getNew_def Let_def)
  then show ?thesis
    using phase_row_plain[OF assms(3)[unfolded phase_ok_def], of Loading i] assms(3)
    by (simp add: phase_ok_def getNew_spec(2)[OF assms(1,2)] plain_iff)
qed

lemma processEntry_phase:
  "row_laws T \<Longrightarrow> table_ok T t \<Longrightarrow> phase_ok T t \<Longrightarrow> phase_ok T (processEntry T now e t)"
  by (auto simp: processEntry_def Let_def deleteRow_phase markStale_phase getNew_phase split: entry_type.splits)

lemma processJournal_phase:
  "row_laws T \<Longrightarrow> table_ok T t \<Longrightarrow> phase_ok T t \<Longrightarrow> phase_ok T (processJournal T now es t)"
  unfolding processJournal_def
  by (induction es arbitrary: t) (auto intro: processEntry_ok processEntry_phase)

lemma checkPendingInsertion_phase:
  assumes "table_ok T t" "phase_ok T t" "table_view T t (getId T r) = Some (r, Loaded)"
  shows "phase_ok T (checkPendingInsertion T r t)"
proof (cases rule: checkPendingInsertion_cases[of T r t])
  case 1
  with assms show ?thesis by simp
next
  case (2 n d)
  define t1 where "t1 = t\<lparr>locallyAddedRows := remove_at n (locallyAddedRows t)\<rparr>"
  have t1: "table_ok T t1" "phase_ok T t1" "table_view T t1 = table_view T t"
    using assms by (simp_all add: t1_def phase_ok_def)
  define t2 where "t2 = (if d \<noteq> getId T r then deleteRow T d t1 else t1)"
  have t2: "table_ok T t2" "phase_ok T t2" using t1 by (simp_all add: t2_def deleteRow_phase)
  have "plain s" if "table_view T t2 d = Some (x, s)" for x s
    using that assms(3) t1 by (auto simp: t2_def deleteRow_view plain_iff split: if_splits)
  with t2 show ?thesis unfolding 2(4) Let_def t1_def[symmetric] t2_def[symmetric]
    by (intro deleteBackupRow_phase) simp_all
qed

lemma checkOverwrittenEdit_phase:
  assumes "table_ok T t" "phase_ok T t" "table_view T t (getId T old) = Some (r, Loaded)"
  shows "phase_ok T (checkOverwrittenEdit T old s r t)"
proof (cases "s \<in> {Loaded, Stale}")
  case True
  then have "checkOverwrittenEdit T old s r t = t" by (auto simp: checkOverwrittenEdit_def)
  with assms show ?thesis by simp
next
  case False
  have *: "\<exists>t1. checkOverwrittenEdit T old s r t = snd (deleteBackupRow T (getId T old) t1) \<and>
      table_view T t1 = table_view T t \<and> backups t1 = backups t \<and> pendingEdits t1 = pendingEdits t \<and>
      (table_ok T t1 = table_ok T t)"
  proof -
    have eq: "checkOverwrittenEdit T old s r t = snd (deleteBackupRow T (getId T old) t1)"
      if "t1 = (let i = getId T old in if s = DraftAdd then
                       let t0 = emit (sigDraftEditInvalidated (variantOfId T i))
                                  (emit (DraftRowInvalidated old (Some r)) t) in
                       (case find_index (\<lambda>row. idOfVariant T (qm_get row DraftId) = i) (locallyAddedRows t0) of
                          Some n \<Rightarrow> t0\<lparr>locallyAddedRows := remove_at n (locallyAddedRows t0)\<rparr>
                        | None \<Rightarrow> t0)
                     else if s = DraftEdit then
                       emit (sigDraftEditInvalidated (variantOfId T i))
                         (emit (DraftRowInvalidated old (Some r)) t)
                     else if s = PendingEdit then
                       emit (sigPendingEditSettled (toVariantMap (rowFields T) old) (toVariantMap (rowFields T) r))
                         (emit (PendingEditSettled old r) t)
                     else if s = DraftDelete \<or> s = PendingDelete then
                       emit (sigDraftEditInvalidated (variantOfId T i))
                         (emit (DraftRowInvalidated old (Some r)) t)
                     else t)" for t1
    proof -
      have "s \<in> {Loading, DraftAdd, DraftEdit, DraftDelete, PendingAdd, PendingEdit, PendingDelete}"
        using False by (cases s) simp_all
      then show ?thesis unfolding that checkOverwrittenEdit_def Let_def by simp
    qed
    show ?thesis
      by (rule exI, rule conjI, rule eq[OF refl]) (simp add: Let_def split: option.splits)
  qed
  then obtain t1 where t1: "checkOverwrittenEdit T old s r t = snd (deleteBackupRow T (getId T old) t1)"
    "table_view T t1 = table_view T t" "backups t1 = backups t" "pendingEdits t1 = pendingEdits t"
    "table_ok T t1 = table_ok T t" by blast
  show ?thesis unfolding t1(1)
    using assms t1 by (intro deleteBackupRow_phase) (auto simp: phase_ok_def plain_iff)
qed

lemma out_phase [simp]: "phase_ok T (t\<lparr>out := evs\<rparr>) = phase_ok T t"
  by (simp add: phase_ok_def)

lemma merge_row_phase:
  assumes "table_ok T t" "phase_ok T t"
  shows "phase_ok T (merge_row T r (row_pos T (getId T r) t) t)"
proof -
  obtain ev where eq: "merge_row T r (row_pos T (getId T r) t) t =
     (let t1 = (put_row T r t)\<lparr>out := out t @ ev\<rparr> in
      case overwritten T r t of
        Some (old, s) \<Rightarrow> checkOverwrittenEdit T old s r t1
      | None \<Rightarrow> checkPendingInsertion T r t1)"
    using merge_row_eq[of T r t] by blast
  define t1 where "t1 = (put_row T r t)\<lparr>out := out t @ ev\<rparr>"
  have t1: "table_ok T t1" "table_view T t1 (getId T r) = Some (r, Loaded)"
    using assms(1) by (simp_all add: t1_def put_row_ok put_row_view)
  have ph: "phase_ok T t1"
    using phase_row_plain[OF assms(2)[unfolded phase_ok_def], of Loaded "getId T r" r] assms(1)
    by (simp add: t1_def phase_ok_def put_row_view plain_iff)
  show ?thesis
  proof (cases "overwritten T r t")
    case None
    with t1 ph show ?thesis by (simp add: eq t1_def[symmetric] checkPendingInsertion_phase)
  next
    case (Some os)
    obtain old s where os: "os = (old, s)" by (cases os)
    have "getId T old = getId T r"
      using Some os row_found_at(2)[of T "getId T r" t] by (auto simp: overwritten_def Let_def split: if_splits)
    with Some os t1 ph show ?thesis by (simp add: eq t1_def[symmetric] checkOverwrittenEdit_phase)
  qed
qed

lemma merge_rows_phase:
  assumes "table_ok T t" "phase_ok T t" "keys_sorted (getId T) rs" "rs \<noteq> []" "pos = row_pos T (getId T (hd rs)) t"
  shows "phase_ok T (merge_rows T rs pos t)"
  using assms
proof (induction T rs pos t rule: merge_rows.induct)
  case (2 T r pos t)
  then show ?case using merge_row_phase[of T t r] by simp
next
  case (3 T r r' rs pos t)
  define t1 where "t1 = merge_row T r pos t"
  have pos: "pos = row_pos T (getId T r) t" using 3(6) by simp
  note spec = merge_row_spec(1,2)[OF 3(2), of r, folded pos, folded t1_def]
  have less: "getId T r < getId T r'" and sorted: "keys_sorted (getId T) (r' # rs)"
    using 3(4) by (auto simp: keys_sorted_Cons)
  have next_pos: "lower_bound_from pos (getId T) (rowList t1) (getId T r') = row_pos T (getId T r') t1"
    using before_ok_search[OF table_okD(2)[OF spec(1)] spec(2) less] by (simp add: row_pos_def)
  have "phase_ok T t1" using merge_row_phase[OF 3(2,3), of r] by (simp add: t1_def pos)
  then have "phase_ok T (merge_rows T (r' # rs) (lower_bound_from pos (getId T) (rowList t1) (getId T r')) t1)"
    using spec(1) sorted next_pos by (intro 3(1)[OF t1_def]) simp_all
  then show ?case by (simp add: t1_def[symmetric])
qed simp

lemma append_rows_phase:
  assumes "table_ok T t" "phase_ok T t" "keys_sorted (getId T) rs" "rs \<noteq> []"
    "row_pos T (getId T (hd rs)) t = length (rowList t)"
  shows "phase_ok T (append_rows T rs t)"
proof -
  have "phase (v ++ loaded_map T rs) b p" if "phase v b p" for v b p
  proof -
    have loaded: "plain Loaded" "\<not> isDraft Loaded" "\<not> isPending Loaded"
      by (simp_all add: plain_iff isDraft_def isPending_def)
    have "(\<not> plain s \<longrightarrow> i \<in> dom b) \<and> (if p then \<not> isDraft s else \<not> isPending s)"
      if row: "(v ++ loaded_map T rs) i = Some (r, s)" for i r s
    proof -
      from row have "v i = Some (r, s) \<or> s = Loaded"
        by (auto simp: loaded_map_def map_add_Some_iff dest!: map_of_SomeD)
      then show ?thesis
      proof
        assume "v i = Some (r, s)"
        with \<open>phase v b p\<close> show ?thesis unfolding phase_def by meson
      next
        assume "s = Loaded"
        with loaded show ?thesis by simp
      qed
    qed
    moreover have "p \<longrightarrow> b \<noteq> Map.empty" using that by (simp add: phase_def)
    ultimately show ?thesis unfolding phase_def by meson
  qed
  then show ?thesis
    using append_rows_spec(2)[OF assms(1,3,4,5)] assms(2) by (simp add: phase_ok_def append_rows_def)
qed

lemma notifyUpdate_phase [simp]: "phase_ok T (notifyUpdate T' rows t) = phase_ok T t"
  by (rule phase_ok_cong) (simp_all add: notifyUpdate_def)

lemma place_rows_phase:
  assumes "table_ok T t" "phase_ok T t" "keys_sorted (getId T) rs" "rs \<noteq> []"
  shows "phase_ok T (place_rows T rs t)"
  using append_rows_phase[OF assms] merge_rows_phase[OF assms refl]
  by (simp add: place_rows_def Let_def row_search)

lemma processRowsResponse_phase:
  assumes "table_ok T t" "phase_ok T t" "sorted_response T reply"
  shows "phase_ok T (processRowsResponse T reply n t)"
proof (cases "replyFailed reply \<or> parseRows (replyBody reply) = None")
  case True
  with assms show ?thesis by (auto simp: processRowsResponse_def)
next
  case False
  then obtain rows nextKey where rows: "parseRows (replyBody reply) = Some (rows, nextKey)" by auto
  show ?thesis
  proof (cases "rows = []")
    case True
    with False rows assms show ?thesis by (simp add: processRowsResponse_def)
  next
    case ne: False
    then have "fromJsonArray (rowFields T) (blankRow T) rows \<noteq> []" by (simp add: fromJsonArray_def)
    moreover have "keys_sorted (getId T) (fromJsonArray (rowFields T) (blankRow T) rows)"
      using assms(3) rows by (simp add: sorted_response_def)
    ultimately have "phase_ok T (place_rows T (fromJsonArray (rowFields T) (blankRow T) rows) t1)"
      if "table_ok T t1" "phase_ok T t1" for t1 using that by (intro place_rows_phase)
    with False rows ne assms show ?thesis by (simp add: processRowsResponse_def)
  qed
qed

lemma draftAddRow_phase:
  assumes "row_laws T" "table_ok T t" "phase_ok T t" "ids_left T t"
  shows "phase_ok T (draftAddRow T fieldMap t)"
proof (cases "pendingEdits t \<or> draftRow T (fst (fromVariantMap (rowFields T) fieldMap (zeroRow T))) t = None")
  case True
  with assms show ?thesis by (simp add: draftAddRow_refused)
next
  case False
  then obtain r where r: "\<not> pendingEdits t" "draftRow T (fst (fromVariantMap (rowFields T) fieldMap (zeroRow T))) t = Some r"
    by auto
  note spec = draftAddRow_spec[OF assms(1,2,4) r]
  have p: "pendingEdits (draftAddRow T fieldMap t) = False"
    using r by (simp add: draftAddRow_def Let_def)
  have "dom (backup_view (getId T) (backup_save (getId T) r DraftAdd (backups t))) =
      insert (getId T r) (dom (backup_view (getId T) (backups t)))"
    using table_okD(3)[OF assms(2)] by (auto simp: backup_save_view split: if_splits)
  moreover have "phase (table_view T t) (backup_view (getId T) (backups t)) False"
    using assms(3) r by (simp add: phase_ok_def)
  ultimately show ?thesis
    by (simp add: phase_ok_def spec p phase_draft isDraft_def)
qed

lemma save_dom:
  "table_ok T t \<Longrightarrow> getId T r = i \<Longrightarrow>
     dom (backup_view (getId T) (backup_save (getId T) r s (backups t))) =
     insert i (dom (backup_view (getId T) (backups t)))"
  using table_okD(3)[of T t] by (auto simp: backup_save_view split: if_splits)

lemma draftEditRow_phase:
  assumes "table_ok T t" "phase_ok T t" "edit_keeps_id T rowId changes t" "draftEditRow T rowId changes t = Some t'"
  shows "phase_ok T t'"
proof (cases rule: draftEditRow_outcomes[OF assms(1,3,4) refl])
  case 1
  with assms(2) show ?thesis by simp
next
  case (2 r s)
  define i where "i = idOfVariant T rowId"
  have rs: "table_view T t i = Some (r, s)" "\<not> pendingEdits t" using 2 by (simp_all add: i_def editable_def)
  note spec = draftEditRow_spec[OF assms(1) i_def rs(1) 2(2)[folded i_def] assms(4)]
  have ph: "phase (table_view T t) (backup_view (getId T) (backups t)) False"
    using assms(2) rs(2) by (simp add: phase_ok_def)
  have draft: "isDraft (edited_state s)" by (auto simp: edited_state_def isDraft_def)
  have i: "getId T r = i" using table_view_id[OF assms(1) rs(1)] .
  have "dom (backup_view (getId T) (backups t')) = insert i (dom (backup_view (getId T) (backups t)))"
  proof (cases "s = DraftAdd \<or> s = DraftEdit")
    case True
    then have "i \<in> dom (backup_view (getId T) (backups t))"
      using ph rs(1) by (auto simp: phase_def plain_def isDraft_def)
    with True spec(3) show ?thesis by auto
  next
    case False
    with spec(3) save_dom[OF assms(1) i] show ?thesis by auto
  qed
  from phase_draft[OF ph draft this] show ?thesis
    using rs(2) by (simp add: phase_ok_def spec)
next
  case (3 r s)
  then show ?thesis using phase_same_state[OF assms(2)[unfolded phase_ok_def] 3(1)] by (simp add: phase_ok_def)
qed

lemma draftDeleteRow_phase:
  assumes "table_ok T t" "phase_ok T t"
  shows "phase_ok T (draftDeleteRow T rowId t)"
proof (cases "pendingEdits t \<or> table_view T t (idOfVariant T rowId) = None")
  case True
  with assms show ?thesis by (simp add: draftDeleteRow_refused)
next
  case False
  define i where "i = idOfVariant T rowId"
  from False obtain r s where rs: "table_view T t i = Some (r, s)" "\<not> pendingEdits t" by (auto simp: i_def)
  show ?thesis
  proof (cases "s = DraftAdd")
    case True
    have found: "row_found T i t" using rs(1) by (auto simp: row_found_iff[OF assms(1)])
    have st: "rowStates t ! row_pos T i t = DraftAdd"
      using rs(1) found True by (simp add: table_view_lookup[OF assms(1)])
    define t1 where "t1 = t\<lparr>locallyAddedRows := filter (\<lambda>row. \<not> isDraftOf T rowId row) (locallyAddedRows t)\<rparr>"
    have t1: "table_ok T t1" "phase_ok T t1" using assms by (simp_all add: t1_def phase_ok_def)
    have eq: "draftDeleteRow T rowId t = snd (deleteBackupRow T i (deleteRow T i t1))"
      using found rs(2) st unfolding draftDeleteRow_def Let_def i_def[symmetric] row_search by (simp add: t1_def)
    show ?thesis unfolding eq
      using t1 by (intro deleteBackupRow_phase) (simp_all add: deleteRow_phase deleteRow_view)
  next
    case other: False
    note spec = draftDeleteRow_spec[OF assms(1) i_def rs other]
    have "phase (table_view T t) (backup_view (getId T) (backups t)) False"
      using assms(2) rs(2) by (simp add: phase_ok_def)
    from phase_draft[OF this, of DraftDelete, OF _ save_dom[OF assms(1) table_view_id[OF assms(1) rs(1)], of s]]
    show ?thesis using rs(2) by (simp add: phase_ok_def spec isDraft_def)
  qed
qed

lemma markEditsPending_phase:
  assumes "table_ok T t" "phase_ok T t"
  shows "phase_ok T (markEditsPending T t)"
proof -
  have "getId T ` set (brows (backups t)) = dom (backup_view (getId T) (backups t))"
    using table_okD(3)[OF assms(1)] by (simp add: backup_dom)
  then show ?thesis
    using phase_pending[OF assms(2)[unfolded phase_ok_def]] backup_isEmpty_iff[OF assms(1)]
    by (simp add: phase_ok_def markEditsPending_spec[OF assms(1)])
qed

text \<open>A reset is safe when nothing is pending, no backup belongs to an added row, and none is orphaned.\<close>

definition reset_safe :: "('r, 'i::linorder, 'v) row_type \<Rightarrow> 'i op \<Rightarrow> ('r, 'i, 'v) table \<Rightarrow> bool" where
  "reset_safe T c t \<longleftrightarrow>
     (c = OpResetEdits \<longrightarrow> \<not> pendingEdits t \<and> no_added_backups T 0 t \<and> list_all plain (bstates (backups t)))"

lemma resetEdits_phase:
  assumes "table_ok T t" "phase_ok T t" "reset_safe T OpResetEdits t" "resetEdits T t = Inr t'"
  shows "phase_ok T t'"
proof -
  have safe: "\<not> pendingEdits t" "no_added_backups T 0 t" "list_all plain (bstates (backups t))"
    using assms(3) by (simp_all add: reset_safe_def)
  from resetEdits_restores[OF assms(1) safe(2)] assms(4)
  have t': "backups t' = backup_empty" "pendingEdits t' = pendingEdits t"
    "table_view T t' = restored_view (backup_view (getId T) (backups t)) (table_view T t)" by auto
  have "plain s" if "backup_view (getId T) (backups t) i = Some (r, s)" for i r s
  proof -
    have len: "length (brows (backups t)) = length (bstates (backups t))"
      using table_okD(3)[OF assms(1)] by (simp add: backup_ok_def)
    from that have "kmap (getId T) (brows (backups t)) (bstates (backups t)) i = Some (r, s)"
      by (simp add: backup_view_def)
    from len this obtain n where "n < length (brows (backups t))" "bstates (backups t) ! n = s"
      by (rule kmap_eq_SomeD)
    with safe(3) len show ?thesis by (auto simp: list_all_length)
  qed
  from phase_restored[OF _ this] assms(2) safe(1) show ?thesis
    by (simp add: phase_ok_def t')
qed

lemma new_table_phase: "phase_ok T (new_table T sc)"
  using phase_new by (simp add: phase_ok_def table_view_new) (simp add: new_table_def)

lemma apply_op_phase:
  assumes "row_laws T" "table_ok T t" "phase_ok T t" "op_ok T c t" "reset_safe T c t" "apply_op T c t = Inr t'"
  shows "phase_ok T t'"
proof (cases c)
  case (OpAllRows now k)
  from allRows_spec[OF assms(2), where now = now and k = k]
  have "table_view T (allRows T now k t) = table_view T t \<and> backups (allRows T now k t) = backups t \<and>
      pendingEdits (allRows T now k t) = pendingEdits t" by blast
  with OpAllRows assms show ?thesis by (auto simp: phase_ok_def)
next
  case (OpDraftEditRow rowId changes)
  with assms draftEditRow_phase[OF assms(2,3)] show ?thesis by (auto split: option.splits)
next
  case OpResetEdits
  with assms resetEdits_phase[OF assms(2,3)] show ?thesis by (auto split: sum.splits)
next
  case (OpRowReply i reply)
  have "table_ok T (t\<lparr>loadingRows := f\<rparr>)" "phase_ok T (t\<lparr>loadingRows := f\<rparr>)" for f
    using assms(2,3) by (simp_all add: table_ok_def phase_ok_def table_view_def)
  with OpRowReply assms show ?thesis by (auto simp: rowReply_def processRowsResponse_phase)
next
  case (OpUpdateScope sc)
  with assms show ?thesis
    by (auto simp: updateScope_def Let_def fullRefresh_def phase_ok_def table_view_def)
next
  case (OpModelDestroyed k)
  with assms show ?thesis by (auto simp: modelDestroyed_def phase_ok_def table_view_def)
qed (use assms in \<open>auto simp: rowsReply_def fullRefresh_def
      processJournal_phase processRowsResponse_phase draftAddRow_phase draftDeleteRow_phase markEditsPending_phase\<close>)

lemma reachable_phase: "reachable T (reset_safe T) sc t \<Longrightarrow> row_laws T \<Longrightarrow> phase_ok T t"
  by (induction rule: reachable.induct) (auto simp: new_table_phase intro: apply_op_phase reachable_ok)

subsection \<open>For every row type that obeys the laws\<close>

context row_laws
begin

lemma always_ok: "reachable T G sc t \<Longrightarrow> table_ok T t"
  using row_laws_axioms by (blast intro: reachable_ok)

lemma always_phase_ok: "reachable T (reset_safe T) sc t \<Longrightarrow> phase_ok T t"
  using row_laws_axioms by (blast intro: reachable_phase)

text \<open>A row pending in the table has its backup, and its table is locked.\<close>

lemma pending_row_locked:
  assumes "reachable T (reset_safe T) sc t" "table_view T t i = Some (r, s)" "isPending s"
  shows "pendingEdits t \<and> i \<in> dom (backup_view (getId T) (backups t))"
proof -
  have "phase (table_view T t) (backup_view (getId T) (backups t)) (pendingEdits t)"
    using always_phase_ok[OF assms(1)] by (simp add: phase_ok_def)
  then have "\<not> plain s \<longrightarrow> i \<in> dom (backup_view (getId T) (backups t))"
    and "if pendingEdits t then \<not> isDraft s else \<not> isPending s"
    using assms(2) unfolding phase_def by blast+
  then show ?thesis using assms(3) by (auto simp: plain_def split: if_splits)
qed

end

end
