(* ===== verification/Tables.thy ===== *)
theory Tables
  imports TablePhase
begin

text \<open>
  The two tables of the program, \<open>cpp/Tables.hpp\<close>: the members of a group (\<open>GroupMember\<close>, keyed by
  account name) and the polling groups (\<open>PollingGroup\<close>, keyed by a 64-bit id, with the virtual field
  \<open>groupSize\<close>).  Both row types obey the laws of \<open>reflected\<close> and \<open>row_laws\<close>.
\<close>

subsection \<open>Group members\<close>

record GroupMember =
  account :: string
  weight :: uint32
  tags :: "string list"

definition group_member_fields :: "qt \<Rightarrow> GroupMember field list" where
  "group_member_fields Q = reflect_members
     [\<lparr>fname = ''account'', fget = (\<lambda>r. QStr (account r)), fset = (\<lambda>v r. r\<lparr>account := as_string Q v\<rparr>)\<rparr>,
      \<lparr>fname = ''weight'', fget = (\<lambda>r. QUInt (weight r)), fset = (\<lambda>v r. r\<lparr>weight := as_uint Q v\<rparr>)\<rparr>,
      \<lparr>fname = ''tags'', fget = (\<lambda>r. QStrList (tags r)), fset = (\<lambda>v r. r\<lparr>tags := as_string_list Q v\<rparr>)\<rparr>]"

text \<open>\<open>w\<close> is what the uninitialised \<open>weight\<close> of \<open>Row row;\<close> happens to hold.\<close>

definition group_member_row :: "qt \<Rightarrow> uint32 \<Rightarrow> (GroupMember, string, unit) row_type" where
  "group_member_row Q w = \<lparr>
     conversions = Q,
     rowTableName = GroupAccts,
     getId = account,
     setId = (\<lambda>i r. r\<lparr>account := i\<rparr>),
     blankRow = \<lparr>account = [], weight = w, tags = []\<rparr>,
     zeroRow = \<lparr>account = [], weight = 0, tags = []\<rparr>,
     movedRow = (\<lambda>r. \<lparr>account = [], weight = weight r, tags = []\<rparr>),
     rowFields = group_member_fields Q,
     virtualFields = [],
     idOfVariant = as_string Q,
     variantOfId = QStr,
     keyOfJournal = name_to_string,
     boundText = quoted,
     integralId = None\<rparr>"

subsection \<open>Polling groups\<close>

definition BASE_DRAFT_ID :: uint64 where
  "BASE_DRAFT_ID = 1000000000000"

record PollingGroup =
  groupId :: uint64
  groupName :: string
  groupTags :: "string list"

definition polling_group_fields :: "qt \<Rightarrow> PollingGroup field list" where
  "polling_group_fields Q = reflect_members
     [\<lparr>fname = ''id'', fget = (\<lambda>r. QULong (groupId r)), fset = (\<lambda>v r. r\<lparr>groupId := as_ulong Q v\<rparr>)\<rparr>,
      \<lparr>fname = ''name'', fget = (\<lambda>r. QStr (groupName r)), fset = (\<lambda>v r. r\<lparr>groupName := as_string Q v\<rparr>)\<rparr>,
      \<lparr>fname = ''tags'', fget = (\<lambda>r. QStrList (groupTags r)), fset = (\<lambda>v r. r\<lparr>groupTags := as_string_list Q v\<rparr>)\<rparr>]"

text \<open>
  \<open>PollingGroupSizeField\<close>: the cached size and whether it is connected to a model of the group's
  members.  \<open>members g\<close> is the row count of the model that \<open>getGroupMembersTable(g)->allRows()\<close>
  gives, \<open>None\<close> where the cast of the table fails.
\<close>

record size_field =
  sizeValue :: int
  sizeConnected :: bool

definition size_new :: size_field where
  "size_new = \<lparr>sizeValue = -1, sizeConnected = False\<rparr>"

definition size_onChanged :: "nat \<Rightarrow> size_field \<Rightarrow> size_field \<times> nat" where
  "size_onChanged count f = (f\<lparr>sizeValue := int count\<rparr>, 1)"

definition size_rowChanged ::
  "(uint64 \<Rightarrow> nat option) \<Rightarrow> PollingGroup \<Rightarrow> LoadState \<Rightarrow> size_field \<Rightarrow> size_field \<times> nat" where
  "size_rowChanged members g groupState f =
     (if sizeConnected f then (f, 0)
      else if groupState = Loading then (f, 0)
      else (case members (groupId g) of
        None \<Rightarrow> (f, 0)
      | Some count \<Rightarrow> size_onChanged count (f\<lparr>sizeConnected := True\<rparr>)))"

definition size_get :: "PollingGroup \<Rightarrow> LoadState \<Rightarrow> size_field \<Rightarrow> qvariant \<times> LoadState" where
  "size_get g groupState f =
     (if groupState = Loading \<or> \<not> sizeConnected f then (QInvalid, Loading)
      else (QLong (sizeValue f), groupState))"

definition group_size_field :: "(uint64 \<Rightarrow> nat option) \<Rightarrow> (PollingGroup, size_field) virtual_field" where
  "group_size_field members =
     \<lparr>vrole = ''groupSize'', vnew = size_new, vchanged = size_rowChanged members, vget = size_get\<rparr>"

text \<open>\<open>w\<close> is what the uninitialised \<open>id\<close> of \<open>Row row;\<close> happens to hold.\<close>

definition polling_group_row ::
  "qt \<Rightarrow> uint64 \<Rightarrow> (uint64 \<Rightarrow> nat option) \<Rightarrow> (PollingGroup, uint64, size_field) row_type" where
  "polling_group_row Q w members = \<lparr>
     conversions = Q,
     rowTableName = PollGroups,
     getId = groupId,
     setId = (\<lambda>i r. r\<lparr>groupId := i\<rparr>),
     blankRow = \<lparr>groupId = w, groupName = [], groupTags = []\<rparr>,
     zeroRow = \<lparr>groupId = 0, groupName = [], groupTags = []\<rparr>,
     movedRow = (\<lambda>r. \<lparr>groupId = groupId r, groupName = [], groupTags = []\<rparr>),
     rowFields = polling_group_fields Q,
     virtualFields = [group_size_field members],
     idOfVariant = as_ulong Q,
     variantOfId = QULong,
     keyOfJournal = (\<lambda>k. k),
     boundText = (\<lambda>i. number (unat i)),
     integralId = Some (0, BASE_DRAFT_ID, \<lambda>i. i + 1)\<rparr>"

text \<open>The hook \<open>PendingAddSettled\<close> of polling groups: the members table to rescope, if any.\<close>

definition group_settled :: "uint64 \<Rightarrow> PollingGroup \<Rightarrow> (uint64 \<times> uint64) option" where
  "group_settled draftId row = (if draftId \<ge> BASE_DRAFT_ID then Some (draftId, groupId row) else None)"

subsection \<open>The laws\<close>

lemma row_type_simps [simp]:
  "getId (group_member_row Q w) = account" "getId (polling_group_row Q w' f) = groupId"
  "rowFields (group_member_row Q w) = group_member_fields Q"
  "rowFields (polling_group_row Q w' f) = polling_group_fields Q"
  "integralId (group_member_row Q w) = None"
  "integralId (polling_group_row Q w' f) = Some (0, BASE_DRAFT_ID, \<lambda>i. i + 1)"
  "idOfVariant (group_member_row Q w) = as_string Q" "idOfVariant (polling_group_row Q w' f) = as_ulong Q"
  "variantOfId (group_member_row Q w) = QStr" "variantOfId (polling_group_row Q w' f) = QULong"
  "conversions (group_member_row Q w) = Q" "conversions (polling_group_row Q w' f) = Q"
  by (simp_all add: group_member_row_def polling_group_row_def)

lemma group_member_reflected: "reflected (group_member_fields Q)"
proof
  fix r r' :: GroupMember
  assume "\<And>m. m \<in> set (group_member_fields Q) \<Longrightarrow> fget m r = fget m r'"
  then have "\<forall>m \<in> set (group_member_fields Q). fget m r = fget m r'" by blast
  then have "account r = account r'" "weight r = weight r'" "tags r = tags r'"
    by (simp_all add: group_member_fields_def)
  then show "r = r'" by simp
qed (auto simp: group_member_fields_def)

lemma polling_group_reflected: "reflected (polling_group_fields Q)"
proof
  fix r r' :: PollingGroup
  assume "\<And>m. m \<in> set (polling_group_fields Q) \<Longrightarrow> fget m r = fget m r'"
  then have "\<forall>m \<in> set (polling_group_fields Q). fget m r = fget m r'" by blast
  then have "groupId r = groupId r'" "groupName r = groupName r'" "groupTags r = groupTags r'"
    by (simp_all add: polling_group_fields_def)
  then show "r = r'" by simp
qed (auto simp: polling_group_fields_def)

interpretation member_fields: reflected "group_member_fields Q" for Q
  by (rule group_member_reflected)

interpretation group_fields: reflected "polling_group_fields Q" for Q
  by (rule polling_group_reflected)

lemma group_member_laws: "row_laws (group_member_row Q w)"
  by (rule row_laws.intro) (simp_all add: group_member_row_def group_member_reflected)

lemma polling_group_laws: "row_laws (polling_group_row Q w f)"
  by (rule row_laws.intro) (simp_all add: polling_group_row_def polling_group_reflected)

interpretation member_rows: row_laws "group_member_row Q w" for Q w
  by (rule group_member_laws)

interpretation group_rows: row_laws "polling_group_row Q w f" for Q w f
  by (rule polling_group_laws)

end
