(* ===== verification/TableProperties.thy ===== *)
theory TableProperties
  imports Tables
begin

text \<open>
  The properties of the tables, each after the claim it proves, with the concrete tables that show
  their hypotheses can hold.  \<open>plain_qt\<close> is a concrete choice of Qt's conversions for these tables:
  it reads numbers from JSON numbers and converts nothing else.
\<close>

definition plain_qt :: qt where
  "plain_qt = \<lparr>cvULong = (\<lambda>v. case v of QLong n \<Rightarrow> of_int n | _ \<Rightarrow> 0),
     cvUInt = (\<lambda>v. case v of QLong n \<Rightarrow> of_int n | _ \<Rightarrow> 0),
     cvStr = (\<lambda>_. []), cvStrList = (\<lambda>_. []), cvEq = (\<lambda>_ _. False), cvJson = (\<lambda>_. JNull)\<rparr>"

abbreviation "members_T \<equiv> group_member_row plain_qt 0"
abbreviation "groups_T \<equiv> polling_group_row plain_qt 0 (\<lambda>_. Some 2)"

text \<open>A table of one polling group as a response brings it, and the same with a draft row.\<close>

definition group7_json :: json where
  "group7_json = JObj [(''rows'', JArr [JObj [(''id'', JNum 7), (''name'', JStr ''red''), (''tags'', JArr [])]]),
     (''more'', JBool False)]"

definition groups7 :: "(PollingGroup, uint64, size_field) table" where
  "groups7 = rowsReply groups_T 0 \<lparr>replyFailed = False, replyBody = group7_json\<rparr> (new_table groups_T ''1'')"

definition groups7_draft :: "(PollingGroup, uint64, size_field) table" where
  "groups7_draft = draftAddRow groups_T [(''name'', QStr ''blue'')] groups7"

definition members_bob :: "(GroupMember, string, unit) table" where
  "members_bob = (new_table members_T ''7'')
     \<lparr>rowList := [\<lparr>account = ''bob'', weight = 3, tags = [''x'']\<rparr>], rowStates := [Loaded]\<rparr>"

lemma groups7_rows: "rowList groups7 = [\<lparr>groupId = 7, groupName = ''red'', groupTags = []\<rparr>]"
  "rowStates groups7 = [Loaded]" "pendingEdits groups7 = False" "brows (backups groups7) = []"
  "bstates (backups groups7) = []" "models groups7 = []" "locallyAddedRows groups7 = []"
  by code_simp+

lemma sorted7: "sorted_response groups_T \<lparr>replyFailed = False, replyBody = group7_json\<rparr>"
  by code_simp

lemma groups7_reachable: "reachable groups_T G ''1'' groups7" if "\<And>c t. c \<noteq> OpResetEdits \<Longrightarrow> G c t"
  unfolding groups7_def
  by (rule reachable.step[OF reachable.created, of _ "OpRowsReply 0 \<lparr>replyFailed = False, replyBody = group7_json\<rparr>"])
    (use that sorted7 in simp_all)

lemma groups7_ok: "table_ok groups_T groups7"
  by (simp add: table_ok_def groups7_rows backup_ok_def)

lemma groups7_draft_reachable: "reachable groups_T G ''1'' groups7_draft" if "\<And>c t. c \<noteq> OpResetEdits \<Longrightarrow> G c t"
  unfolding groups7_draft_def
  by (rule reachable.step[OF groups7_reachable, of _ "OpDraftAddRow [(''name'', QStr ''blue'')]"])
    (use that in \<open>simp_all add: ids_left_def groups7_rows BASE_DRAFT_ID_def\<close>)

lemma groups7_draft_ok: "table_ok groups_T groups7_draft"
  by (rule group_rows.always_ok, rule groups7_draft_reachable[where G = "\<lambda>_ _. True"]) simp

lemma groups7_view: "table_view groups_T groups7 = [7 \<mapsto> (\<lparr>groupId = 7, groupName = ''red'', groupTags = []\<rparr>, Loaded)]"
  by (simp add: table_view_def groups7_rows kmap_def)

lemma members_bob_ok: "table_ok members_T members_bob"
  by (simp add: table_ok_def members_bob_def new_table_def)

lemma members_bob_view: "table_view members_T members_bob = [''bob'' \<mapsto> (\<lparr>account = ''bob'', weight = 3, tags = [''x'']\<rparr>, Loaded)]"
  by (simp add: table_view_def members_bob_def kmap_def)

subsection \<open>Invariants of every table\<close>

text \<open>The id of a polling group is an integer, which a move leaves as it is.\<close>

lemma group_edits_keep_id: "edit_keeps_id (polling_group_row Q w f) rowId changes t"
  by (simp add: edit_keeps_id_def polling_group_row_def split: option.split)

text \<open>
  C1. Journal entries, replies, local edits, resets and model requests in any sequence keep the rows of
  a table sorted by id without duplicates, parallel to their load states, and so its backups and the
  ids of every model, for both row types of the program, as long as \<open>op_ok\<close> holds of every operation:
  replies bring their rows in key order, the numeric draft ids have not run out, and no edit of a group
  member names another account (such an edit is refused, but leaves the row without its account, see
  \<open>refused_edit_empties_row\<close>).  No edit of a polling group is excluded.
\<close>

theorem tables_stay_sorted:
  "(reachable (group_member_row Q w) G sc t \<longrightarrow> table_ok (group_member_row Q w) t) \<and>
   (reachable (polling_group_row Q w' f) G' sc' t' \<longrightarrow> table_ok (polling_group_row Q w' f) t') \<and>
   edit_keeps_id (polling_group_row Q w' f) rowId changes t''"
  using group_edits_keep_id by (blast intro: member_rows.always_ok group_rows.always_ok)

theorem tables_stay_sorted_witness: "table_ok groups_T groups7_draft"
  using tables_stay_sorted[where Q = plain_qt and f = "\<lambda>_. Some 2" and w' = 0 and t' = groups7_draft and sc' = "''1''"
      and G' = "\<lambda>_ _. True"] groups7_draft_reachable[of "\<lambda>_ _. True"]
  by simp

text \<open>
  C2. The life cycle of local edits, for every row type that obeys the laws, as members and polling
  groups do: in every table reached by operations that are \<open>op_ok\<close> (replies in key order, draft ids left,
  no edit that empties the row's id) and resets that are \<open>reset_safe\<close> (nothing pending, no backup of an
  added row), a row in a draft or pending state has a backup, edits are pending only while there are
  backups, and the lock and the states agree (locked: no draft row; unlocked: no pending row).
\<close>

theorem edits_keep_their_phase:
  assumes "row_laws T" "reachable T (reset_safe T) sc t"
  shows "(\<forall>i r s. table_view T t i = Some (r, s) \<longrightarrow> isDraft s \<or> isPending s \<longrightarrow>
      i \<in> dom (backup_view (getId T) (backups t))) \<and>
    (pendingEdits t \<longrightarrow> backup_view (getId T) (backups t) \<noteq> Map.empty) \<and>
    (\<forall>i r s. table_view T t i = Some (r, s) \<longrightarrow> (if pendingEdits t then \<not> isDraft s else \<not> isPending s))"
  using reachable_phase[OF assms(2,1)] unfolding phase_ok_def phase_def plain_def by blast

theorem edits_keep_their_phase_witness:
  "BASE_DRAFT_ID \<in> dom (backup_view groupId (backups groups7_draft))"
proof -
  have "table_view groups_T groups7_draft BASE_DRAFT_ID = Some (\<lparr>groupId = BASE_DRAFT_ID, groupName = ''blue'', groupTags = []\<rparr>, DraftAdd)"
    by code_simp
  moreover have "reachable groups_T (reset_safe groups_T) ''1'' groups7_draft"
    by (rule groups7_draft_reachable) (simp add: reset_safe_def)
  ultimately show ?thesis
    using edits_keep_their_phase[OF polling_group_laws] by (fastforce simp: isDraft_def)
qed

subsection \<open>Rows from the node\<close>

text \<open>
  C9. As long as no pending addition waits to be settled, a response in key order overwrites the
  table's map: every row it brings is there and loaded, every other row is as it was.  The merge loop,
  which searches on from its last position, computes exactly this.
\<close>

theorem response_overrides_rows:
  assumes "table_ok T t" "nothing_to_settle t" "\<not> replyFailed reply"
    "parseRows (replyBody reply) = Some (rows, nextKey)"
    "keys_sorted (getId T) (fromJsonArray (rowFields T) (blankRow T) rows)"
  shows "table_view T (processRowsResponse T reply n t) =
    table_view T t ++ loaded_map T (fromJsonArray (rowFields T) (blankRow T) rows)"
  using assms by (intro processRowsResponse_view) simp_all

lemma group7_parse: "parseRows group7_json = Some ([JObj [(''id'', JNum 7), (''name'', JStr ''red''), (''tags'', JArr [])]], JNull)"
  by code_simp

lemma group7_row: "fromJsonArray (rowFields groups_T) (blankRow groups_T)
    [JObj [(''id'', JNum 7), (''name'', JStr ''red''), (''tags'', JArr [])]] =
    [\<lparr>groupId = 7, groupName = ''red'', groupTags = []\<rparr>]"
  by code_simp

theorem response_overrides_rows_witness:
  "table_view groups_T (processRowsResponse groups_T \<lparr>replyFailed = False, replyBody = group7_json\<rparr> 0 groups7) 7 =
     Some (\<lparr>groupId = 7, groupName = ''red'', groupTags = []\<rparr>, Loaded)"
proof -
  have "table_view groups_T (processRowsResponse groups_T \<lparr>replyFailed = False, replyBody = group7_json\<rparr> 0 groups7) =
      table_view groups_T groups7 ++ loaded_map groups_T (fromJsonArray (rowFields groups_T) (blankRow groups_T)
        [JObj [(''id'', JNum 7), (''name'', JStr ''red''), (''tags'', JArr [])]])"
    by (rule response_overrides_rows[OF groups7_ok _ _ _ ])
      (simp_all add: nothing_to_settle_def groups7_rows group7_parse group7_row[simplified])
  then show ?thesis by (simp add: group7_row[simplified] loaded_map_def)
qed

text \<open>
  A new row from the node is loaded in its place; if it matches a pending addition under another
  draft id, the draft row leaves the table, the addition's backup is dropped, and the lock is released
  as soon as no backup is left.
\<close>

lemma merge_settles_addition:
  assumes "table_ok T t" "settled_draft T r t = Some d" "overwritten T r t = None" "d \<noteq> getId T r"
    "t' = merge_row T r (row_pos T (getId T r) t) t"
  shows "table_view T t' = (table_view T t)(getId T r \<mapsto> (r, Loaded), d := None) \<and>
    backup_view (getId T) (backups t') d = None \<and>
    (pendingEdits t' \<longleftrightarrow> \<not> backup_isEmpty (backups t'))"
proof -
  obtain ev where t': "t' = checkPendingInsertion T r ((put_row T r t)\<lparr>out := out t @ ev\<rparr>)"
    using merge_row_eq[of T r t] assms(3,5) by (auto simp: Let_def)
  define t1 where "t1 = (put_row T r t)\<lparr>out := out t @ ev\<rparr>"
  have t1: "table_ok T t1" "table_view T t1 = (table_view T t)(getId T r \<mapsto> (r, Loaded))"
    "settled_draft T r t1 = Some d" "pendingEdits t1"
    using assms(1,2) by (auto simp: t1_def put_row_ok put_row_view settled_draft_def split: if_splits)
  have view: "table_view T t' = (table_view T t)(getId T r \<mapsto> (r, Loaded), d := None)"
    using t1 assms(4) by (simp add: t' t1_def[symmetric] checkPendingInsertion_view)
  obtain t2 where t2: "t' = snd (deleteBackupRow T d t2)" "table_ok T t2"
    "pendingEdits t2 \<or> backup_isEmpty (backups t2)"
  proof (cases rule: checkPendingInsertion_cases[of T r t1])
    case 1
    with t1 show thesis by simp
  next
    case (2 n d')
    define t0 where "t0 = t1\<lparr>locallyAddedRows := remove_at n (locallyAddedRows t1)\<rparr>"
    have t0: "table_ok T (deleteRow T d t0)" using t1 by (simp add: t0_def)
    have lock: "pendingEdits (deleteRow T d t0) \<or> backup_isEmpty (backups (deleteRow T d t0))"
      using t1(4) by (auto simp: deleteRow_pending deleteRow_backups t0_def)
    have d': "d' = d" using 2(1) t1(3) by simp
    show thesis
      by (rule that[OF _ _ _, of "emit (sigPendingEditSettled (qm_remove DraftId (locallyAddedRows t1 ! n))
            (toVariantMap (rowFields T) r)) (emit (PendingAddSettled d r) (deleteRow T d t0))"])
        (use 2(4) t0 lock assms(4) in \<open>simp_all add: t' t1_def[symmetric] Let_def d' t0_def[symmetric]\<close>)
  qed
  have "backup_view (getId T) (backups t') d = None"
    using t2 by (simp add: deleteBackupRow_backup_view)
  moreover have "pendingEdits t' \<longleftrightarrow> \<not> backup_isEmpty (backups t')"
    using t2(3) unfolding t2(1) deleteBackupRow_pending
    by (auto simp: deleteBackupRow_backups backup_isEmpty_def backup_remove_def Let_def found_at_def)
  ultimately show ?thesis using view by blast
qed

text \<open>A table whose only edit is a pending polling group, and the group the node made of it.\<close>

definition groups7_pending :: "(PollingGroup, uint64, size_field) table" where
  "groups7_pending = markEditsPending groups_T groups7_draft"

lemma groups7_pending_ok: "table_ok groups_T groups7_pending"
  unfolding groups7_pending_def by (rule markEditsPending_spec(1)[OF groups7_draft_ok])

lemma groups7_pending_settles:
  "settled_draft groups_T \<lparr>groupId = 8, groupName = ''blue'', groupTags = []\<rparr> groups7_pending = Some 1000000000000"
  "overwritten groups_T \<lparr>groupId = 8, groupName = ''blue'', groupTags = []\<rparr> groups7_pending = None"
  by code_simp+

lemma merge_settles_addition_witness:
  "table_view groups_T (merge_row groups_T \<lparr>groupId = 8, groupName = ''blue'', groupTags = []\<rparr>
     (row_pos groups_T 8 groups7_pending) groups7_pending) 1000000000000 = None"
  using merge_settles_addition[OF groups7_pending_ok groups7_pending_settles _ refl] by simp

subsection \<open>The journal\<close>

text \<open>
  C18. A journal entry that deletes a row of this table and scope takes exactly that row out of the
  table and its id out of every model; every other row keeps its contents and state.
\<close>

theorem journal_deletes_row:
  assumes "table_ok T t" "entryTable e = rowTableName T" "number (unat (entryScope e)) = scope t"
    "entryType e = DeleteRow"
  shows "table_view T (processEntry T now e t) = (table_view T t)(keyOfJournal T (entryKey e) := None) \<and>
    map (\<lambda>m. set (modelIds m)) (models (processEntry T now e t)) =
      map (\<lambda>m. set (modelIds m) - {keyOfJournal T (entryKey e)}) (models t)"
proof -
  have eq: "processEntry T now e t = deleteRow T (keyOfJournal T (entryKey e)) t"
    using assms by (simp add: processEntry_def Let_def)
  have "map (\<lambda>m. set (modelIds m)) (models (deleteRow T i t)) = map (\<lambda>m. set (modelIds m) - {i}) (models t)" for i
    using table_okD(4)[OF assms(1)] by (auto simp: deleteRow_models model_deleteRow_ok)
  then show ?thesis using assms(1) by (simp add: eq deleteRow_view)
qed

definition entry7 :: "entry_type \<Rightarrow> journal_entry" where
  "entry7 ty = \<lparr>entryId = 1, entryTime = Some 0, entryTable = ''poll.groups'', entryScope = 1, entryKey = 7, entryType = ty\<rparr>"

lemma entry7_here: "entryTable (entry7 ty) = rowTableName groups_T" "entryType (entry7 ty) = ty"
  "keyOfJournal groups_T (entryKey (entry7 ty)) = 7"
  "number (unat (entryScope (entry7 ty))) = scope groups7"
proof -
  show "number (unat (entryScope (entry7 ty))) = scope groups7"
    unfolding entry7_def by code_simp
qed (simp_all add: entry7_def polling_group_row_def PollGroups_def)

theorem journal_deletes_row_witness: "table_view groups_T (processEntry groups_T 0 (entry7 DeleteRow) groups7) 7 = None"
  using journal_deletes_row[OF groups7_ok, of "entry7 DeleteRow"] by (simp add: entry7_here)

text \<open>
  A journal entry that modifies a row marks it stale, keeping its contents; a draft edit of it is
  thrown away in favour of the backup; a row pending an edit or deletion is left alone.  No other row
  changes.
\<close>

lemma journal_marks_stale:
  assumes "table_ok T t" "entryTable e = rowTableName T" "number (unat (entryScope e)) = scope t"
    "entryType e = ModifyRow" "i = keyOfJournal T (entryKey e)" "table_view T t i = Some (r, s)"
  shows "table_view T (processEntry T now e t) = (table_view T t)(i \<mapsto>
    (if s = PendingEdit \<or> s = PendingDelete then (r, s)
     else if isDraft s then (case backup_view (getId T) (backups t) i of Some (b, _) \<Rightarrow> (b, Stale) | None \<Rightarrow> (r, Stale))
     else (r, Stale)))"
  using assms markStale_view[OF assms(1), of now i]
  by (auto simp: processEntry_def Let_def stale_entry_def cong: option.case_cong)

lemma journal_marks_stale_witness:
  "table_view groups_T (processEntry groups_T 0 (entry7 ModifyRow) groups7) 7 =
     Some (\<lparr>groupId = 7, groupName = ''red'', groupTags = []\<rparr>, Stale)"
  using journal_marks_stale[OF groups7_ok, of "entry7 ModifyRow" 7 "\<lparr>groupId = 7, groupName = ''red'', groupTags = []\<rparr>" Loaded 0]
  by (simp add: entry7_here groups7_view isDraft_def)

subsection \<open>Local edits and their reset\<close>

text \<open>The state and the backups of a table right after one edit of an unedited row.\<close>

lemma one_edit:
  assumes "table_ok T t" "backup_isEmpty (backups t)" "i = idOfVariant T rowId" "table_view T t i = Some (r, s)"
    "plain s" "editable T i changes t"
  obtains t1 where "draftEditRow T rowId changes t = Some t1" "table_ok T t1"
    "table_view T t1 = (table_view T t)(i \<mapsto> (edited_row T changes r, DraftEdit))"
    "backup_view (getId T) (backups t1) = [i \<mapsto> (r, s)]" "brows (backups t1) = [r]" "pendingEdits t1 = pendingEdits t"
proof -
  have s: "s \<noteq> DraftAdd" "s \<noteq> DraftEdit" "s \<noteq> DraftDelete" using assms(5) by (auto simp: plain_def isDraft_def)
  have row: "row_found T i t" "rowStates t ! row_pos T i t = s" "rowList t ! row_pos T i t = r"
    using assms(4) by (auto simp: table_view_lookup[OF assms(1)] split: if_splits)
  have "draftEditRow T rowId changes t \<noteq> None"
    using row s assms(4,6) table_view_id[OF assms(1,4)]
    by (simp add: draftEditRow_def Let_def assms(3)[symmetric] row_search editable_def)
  then obtain t1 where t1: "draftEditRow T rowId changes t = Some t1" by blast
  note spec = draftEditRow_spec[OF assms(1,3,4,6) t1]
  have b: "brows (backups t) = []" "bstates (backups t) = []"
    using assms(2) table_okD(3)[OF assms(1)] by (simp_all add: backup_isEmpty_def backup_ok_def)
  have "backups t1 = backup_save (getId T) r s (backups t)" using spec(3) s by simp
  then have saved: "brows (backups t1) = [r]" "bstates (backups t1) = [s]"
    using b by (simp_all add: backup_save_def found_at_def lower_bound_def lower_bound_from_def lb_loop.simps insert_at_def)
  show thesis
    by (rule that[OF t1 spec(1)])
      (use spec(2,4) s saved table_view_id[OF assms(1,4)] in
        \<open>simp_all add: edited_state_def backup_view_def kmap_def\<close>)
qed

lemma single_backup_safe:
  "brows (backups t) = [b] \<Longrightarrow> table_view T t (getId T b) = Some (r, s) \<Longrightarrow> s \<noteq> DraftAdd \<Longrightarrow> s \<noteq> PendingAdd \<Longrightarrow>
     no_added_backups T 0 t"
  by (simp add: no_added_backups_def)

text \<open>
  C17. Editing a row of a table without edits and resetting brings the table back exactly: the same
  rows with the same contents, in the same states, and no backup.
\<close>

theorem edit_reset_roundtrip:
  assumes "table_ok T t" "backup_isEmpty (backups t)" "i = idOfVariant T rowId" "table_view T t i = Some (r, s)"
    "plain s" "editable T i changes t"
  shows "\<exists>t1 t2. draftEditRow T rowId changes t = Some t1 \<and> resetEdits T t1 = Inr t2 \<and>
    table_view T t1 i = Some (edited_row T changes r, DraftEdit) \<and>
    rowList t2 = rowList t \<and> rowStates t2 = rowStates t \<and> backups t2 = backup_empty"
proof -
  obtain t1 where t1: "draftEditRow T rowId changes t = Some t1" "table_ok T t1"
    "table_view T t1 = (table_view T t)(i \<mapsto> (edited_row T changes r, DraftEdit))"
    "backup_view (getId T) (backups t1) = [i \<mapsto> (r, s)]" "brows (backups t1) = [r]"
    using one_edit[OF assms] by blast
  have "no_added_backups T 0 t1"
    using single_backup_safe[OF t1(5), of T "edited_row T changes r" DraftEdit] t1(3) table_view_id[OF assms(1,4)] by simp
  from resetEdits_restores[OF t1(2) this] obtain t2 where t2: "resetEdits T t1 = Inr t2" "table_ok T t2"
    "backups t2 = backup_empty" "table_view T t2 = restored_view [i \<mapsto> (r, s)] (table_view T t1)"
    unfolding t1(4) by blast
  have "table_view T t2 = table_view T t"
    using assms(4) by (auto simp: t2(4) t1(3) restored_view_def restored_def fun_eq_iff split: option.splits)
  from view_determines[OF t2(2) assms(1) this] t1 t2 show ?thesis by auto
qed

lemma groups7_edit: "editable groups_T 7 [(''name'', QStr ''blue'')] groups7"
  "edited_row groups_T [(''name'', QStr ''blue'')] \<lparr>groupId = 7, groupName = ''red'', groupTags = []\<rparr> =
     \<lparr>groupId = 7, groupName = ''blue'', groupTags = []\<rparr>"
  by code_simp+

theorem edit_reset_roundtrip_witness:
  "\<exists>t1 t2. draftEditRow groups_T (QULong 7) [(''name'', QStr ''blue'')] groups7 = Some t1 \<and>
     resetEdits groups_T t1 = Inr t2 \<and>
     table_view groups_T t1 7 = Some (\<lparr>groupId = 7, groupName = ''blue'', groupTags = []\<rparr>, DraftEdit) \<and>
     rowList t2 = rowList groups7 \<and> rowStates t2 = rowStates groups7 \<and> backups t2 = backup_empty"
  using edit_reset_roundtrip[OF groups7_ok _ _ _ _ groups7_edit(1), of "QULong 7" _ Loaded]
  by (simp add: groups7_view groups7_edit groups7_rows backup_isEmpty_def plain_iff)

text \<open>
  Drafting the deletion of a row of a table without edits keeps the row, marked as deleted, and a
  reset brings the table back exactly.
\<close>

lemma delete_reset_roundtrip:
  assumes "table_ok T t" "backup_isEmpty (backups t)" "\<not> pendingEdits t" "i = idOfVariant T rowId"
    "table_view T t i = Some (r, s)" "plain s"
  shows "table_view T (draftDeleteRow T rowId t) i = Some (r, DraftDelete) \<and>
    (\<exists>t2. resetEdits T (draftDeleteRow T rowId t) = Inr t2 \<and>
      rowList t2 = rowList t \<and> rowStates t2 = rowStates t \<and> backups t2 = backup_empty)"
proof -
  define t1 where "t1 = draftDeleteRow T rowId t"
  have s: "s \<noteq> DraftAdd" using assms(6) by (auto simp: plain_def isDraft_def)
  note spec = draftDeleteRow_spec[OF assms(1,4,5,3) s, folded t1_def]
  have b: "brows (backups t) = []" "bstates (backups t) = []"
    using assms(2) table_okD(3)[OF assms(1)] by (simp_all add: backup_isEmpty_def backup_ok_def)
  then have saved: "brows (backups t1) = [r]" "bstates (backups t1) = [s]"
    by (simp_all add: spec(3) backup_save_def found_at_def lower_bound_def lower_bound_from_def lb_loop.simps insert_at_def)
  have id: "getId T r = i" using table_view_id[OF assms(1,5)] .
  have bv: "backup_view (getId T) (backups t1) = [i \<mapsto> (r, s)]"
    by (simp add: backup_view_def saved kmap_def id)
  have "no_added_backups T 0 t1"
    using single_backup_safe[OF saved(1), of T r DraftDelete] spec(2) id by simp
  from resetEdits_restores[OF spec(1) this] obtain t2 where t2: "resetEdits T t1 = Inr t2" "table_ok T t2"
    "backups t2 = backup_empty" "table_view T t2 = restored_view [i \<mapsto> (r, s)] (table_view T t1)"
    unfolding bv by blast
  have "table_view T t2 = table_view T t"
    using assms(5) by (auto simp: t2(4) spec(2) restored_view_def restored_def fun_eq_iff split: option.splits)
  from view_determines[OF t2(2) assms(1) this] spec(2) t2 show ?thesis by (simp add: t1_def)
qed

lemma delete_reset_roundtrip_witness:
  "table_view groups_T (draftDeleteRow groups_T (QULong 7) groups7) 7 =
     Some (\<lparr>groupId = 7, groupName = ''red'', groupTags = []\<rparr>, DraftDelete)"
  using delete_reset_roundtrip[OF groups7_ok, of 7 "QULong 7" _ Loaded]
  by (simp add: groups7_view groups7_rows backup_isEmpty_def plain_iff)

text \<open>
  C25. Editing a row and then drafting its deletion is not undone by a reset: the row keeps the edited
  contents, in the state it had before the edit, so unsaved contents pass for loaded ones.
\<close>

theorem edit_then_delete_survives_reset:
  assumes "table_ok T t" "backup_isEmpty (backups t)" "i = idOfVariant T rowId" "table_view T t i = Some (r, s)"
    "plain s" "editable T i changes t"
  shows "\<exists>t1 t2. draftEditRow T rowId changes t = Some t1 \<and> resetEdits T (draftDeleteRow T rowId t1) = Inr t2 \<and>
    table_view T t2 = (table_view T t)(i \<mapsto> (edited_row T changes r, s))"
proof -
  define e where "e = edited_row T changes r"
  obtain t1 where t1: "draftEditRow T rowId changes t = Some t1" "table_ok T t1"
    "table_view T t1 = (table_view T t)(i \<mapsto> (e, DraftEdit))"
    "backup_view (getId T) (backups t1) = [i \<mapsto> (r, s)]" "brows (backups t1) = [r]" "pendingEdits t1 = pendingEdits t"
    using one_edit[OF assms] unfolding e_def by blast
  have unlocked: "\<not> pendingEdits t1" using assms(6) t1(6) by (simp add: editable_def)
  have at_i: "table_view T t1 i = Some (e, DraftEdit)" by (simp add: t1(3))
  define t2 where "t2 = draftDeleteRow T rowId t1"
  note spec = draftDeleteRow_spec[OF t1(2) assms(3) at_i unlocked, folded t2_def]
  have ids: "getId T r = i" "getId T e = i" using table_view_id[OF assms(1,4)] table_view_id[OF t1(2) at_i] by auto
  have kept: "backups t2 = backups t1"
    using spec(3) t1(5) ids
    by (simp add: backup_save_def found_at_def lower_bound_def lower_bound_from_def lb_loop.simps Let_def)
  have view2: "table_view T t2 = (table_view T t)(i \<mapsto> (e, DraftDelete))" using spec(2) by (simp add: t1(3))
  have "no_added_backups T 0 t2"
    using single_backup_safe[of t2 r T e DraftDelete] t1(5) ids view2 by (simp add: kept)
  from resetEdits_restores[OF spec(1)[simplified] this] obtain t3 where t3: "resetEdits T t2 = Inr t3"
    "table_view T t3 = restored_view [i \<mapsto> (r, s)] (table_view T t2)"
    unfolding kept t1(4) by blast
  have "table_view T t3 = (table_view T t)(i \<mapsto> (e, s))"
    by (auto simp: t3(2) view2 restored_view_def restored_def fun_eq_iff split: option.splits)
  then show ?thesis using t1(1) t3(1) unfolding t2_def e_def by blast
qed

theorem edit_then_delete_survives_reset_witness:
  "\<exists>t1 t2. draftEditRow groups_T (QULong 7) [(''name'', QStr ''blue'')] groups7 = Some t1 \<and>
     resetEdits groups_T (draftDeleteRow groups_T (QULong 7) t1) = Inr t2 \<and>
     table_view groups_T t2 7 = Some (\<lparr>groupId = 7, groupName = ''blue'', groupTags = []\<rparr>, Loaded)"
proof -
  have "\<exists>t1 t2. draftEditRow groups_T (QULong 7) [(''name'', QStr ''blue'')] groups7 = Some t1 \<and>
     resetEdits groups_T (draftDeleteRow groups_T (QULong 7) t1) = Inr t2 \<and>
     table_view groups_T t2 = (table_view groups_T groups7)(7 \<mapsto> (edited_row groups_T [(''name'', QStr ''blue'')]
       \<lparr>groupId = 7, groupName = ''red'', groupTags = []\<rparr>, Loaded))"
    by (rule edit_then_delete_survives_reset[OF groups7_ok _ _ _ _ groups7_edit(1)])
      (simp_all add: groups7_view groups7_rows backup_isEmpty_def plain_iff)
  then show ?thesis by (auto simp: groups7_edit)
qed

text \<open>
  C26. Resetting a table whose only edit is a draft-added row breaks the precondition of
  \<open>QList::removeAt\<close>: \<open>deleteRow\<close> has dropped the backup before the loop's \<open>remove\<close> asks for it.
\<close>

theorem reset_of_added_row_faults:
  assumes "row_laws T" "table_ok T t" "ids_left T t" "backup_isEmpty (backups t)" "\<not> pendingEdits t"
    "draftRow T (fst (fromVariantMap (rowFields T) fieldMap (zeroRow T))) t = Some r"
  shows "resetEdits T (draftAddRow T fieldMap t) = Inl (RemoveOutOfRange 0)"
proof -
  note spec = draftAddRow_spec[OF assms(1,2,3,5,6)]
  have b: "brows (backups t) = []" using assms(4) by (simp add: backup_isEmpty_def)
  have "brows (backups (draftAddRow T fieldMap t)) = [r]"
    by (simp add: spec(4) b backup_save_def found_at_def lower_bound_def lower_bound_from_def lb_loop.simps insert_at_def)
  then show ?thesis
    by (rule resetEdits_draft_add[OF spec(1)]) (simp add: spec(3))
qed

lemma groups7_blue: "draftRow groups_T (fst (fromVariantMap (rowFields groups_T) [(''name'', QStr ''blue'')] (zeroRow groups_T))) groups7 =
    Some \<lparr>groupId = 1000000000000, groupName = ''blue'', groupTags = []\<rparr>"
  by code_simp

theorem reset_of_added_row_faults_witness: "resetEdits groups_T groups7_draft = Inl (RemoveOutOfRange 0)"
  unfolding groups7_draft_def
  by (rule reset_of_added_row_faults[OF polling_group_laws groups7_ok _ _ _ groups7_blue])
    (simp_all add: ids_left_def groups7_rows BASE_DRAFT_ID_def backup_isEmpty_def)

text \<open>
  A drafted polling group gets an id no row has: at least the base of the draft ids and above
  every id of the table, unless the 64-bit ids have run out; it enters the table in state \<open>DraftAdd\<close>,
  and no other row changes.
\<close>

lemma drafted_group_gets_fresh_id:
  assumes "T = polling_group_row Q w f" "table_ok T t" "\<not> pendingEdits t" "ids_left T t"
    "fst (fromVariantMap (rowFields T) fieldMap (zeroRow T)) = g" "groupId g = 0"
  shows "\<exists>i. BASE_DRAFT_ID \<le> i \<and> (\<forall>r \<in> set (rowList t). groupId r < i) \<and>
    table_view T (draftAddRow T fieldMap t) = (table_view T t)(i \<mapsto> (g\<lparr>groupId := i\<rparr>, DraftAdd))"
proof -
  define i where "i = (if rowList t = [] \<or> groupId (last (rowList t)) < BASE_DRAFT_ID
      then BASE_DRAFT_ID else groupId (last (rowList t)) + 1)"
  have row: "draftRow T g t = Some (g\<lparr>groupId := i\<rparr>)"
    using assms(6) by (simp add: draftRow_def assms(1) i_def) (simp add: polling_group_row_def)
  have view: "table_view T (draftAddRow T fieldMap t) = (table_view T t)(i \<mapsto> (g\<lparr>groupId := i\<rparr>, DraftAdd))"
    using draftAddRow_spec(3)[OF _ assms(2,4,3), of fieldMap "g\<lparr>groupId := i\<rparr>"] row assms(1,5)
    by (simp add: polling_group_laws)
  have above: "groupId r < i" if "r \<in> set (rowList t)" for r
  proof -
    have "groupId r \<le> groupId (last (rowList t))"
      using below_last[OF _ that, of groupId] table_okD(2)[OF assms(2)] assms(1) by simp
    moreover have "rowList t \<noteq> []" using that by auto
    ultimately show ?thesis using assms(1,4) by (auto simp: i_def ids_left_def)
  qed
  have "BASE_DRAFT_ID \<le> i"
  proof (cases "rowList t = [] \<or> groupId (last (rowList t)) < BASE_DRAFT_ID")
    case False
    then have "BASE_DRAFT_ID \<le> groupId (last (rowList t))" by auto
    also have "\<dots> < i" using False by (intro above) simp
    finally show ?thesis by simp
  qed (simp add: i_def)
  with above view show ?thesis by blast
qed

lemma drafted_group_gets_fresh_id_witness:
  "\<exists>i. BASE_DRAFT_ID \<le> i \<and> (\<forall>r \<in> set (rowList groups7). groupId r < i) \<and>
    table_view groups_T groups7_draft = (table_view groups_T groups7)
      (i \<mapsto> (\<lparr>groupId = i, groupName = ''blue'', groupTags = []\<rparr>, DraftAdd))"
proof -
  have g: "fst (fromVariantMap (rowFields groups_T) [(''name'', QStr ''blue'')] (zeroRow groups_T)) =
      \<lparr>groupId = 0, groupName = ''blue'', groupTags = []\<rparr>" by code_simp
  show ?thesis
    using drafted_group_gets_fresh_id[OF refl groups7_ok _ _ g]
    by (simp add: groups7_draft_def ids_left_def groups7_rows BASE_DRAFT_ID_def)
qed

text \<open>
  C27. Editing a draft-added row returns exactly when every changed key is already in the record of the
  added row; otherwise the loop over the keys never ends.
\<close>

theorem edit_of_added_row_may_hang:
  assumes "table_ok T t" "i = idOfVariant T rowId" "table_view T t i = Some (r, DraftAdd)" "editable T i changes t"
  shows "draftEditRow T rowId changes t = None \<longleftrightarrow>
    (\<exists>n. find_index (isDraftOf T rowId) (locallyAddedRows t) = Some n \<and>
      (\<exists>k \<in> set (map fst changes). k \<notin> set (map fst (locallyAddedRows t ! n))))"
  using draftEditRow_returns_iff[OF assms]
  by (auto simp: edit_stuck_def subset_iff image_iff split: option.splits)

theorem edit_of_added_row_may_hang_witness:
  "draftEditRow groups_T (QULong 1000000000000) [(''tags'', QStrList [''x''])] groups7_draft = None"
proof -
  have row: "table_view groups_T groups7_draft 1000000000000 =
      Some (\<lparr>groupId = 1000000000000, groupName = ''blue'', groupTags = []\<rparr>, DraftAdd)"
    "editable groups_T 1000000000000 [(''tags'', QStrList [''x''])] groups7_draft"
    "find_index (isDraftOf groups_T (QULong 1000000000000)) (locallyAddedRows groups7_draft) = Some 0"
    "''tags'' \<notin> fst ` set (locallyAddedRows groups7_draft ! 0)"
    by code_simp+
  show ?thesis
    using edit_of_added_row_may_hang[OF groups7_draft_ok _ row(1,2), of "QULong 1000000000000"] row(3,4) by simp
qed

text \<open>
  An edit that would change the id of a group member is refused, but only after the row was moved
  out of the table: the account name and the tags of the row are gone.
\<close>

lemma refused_edit_empties_row:
  assumes "T = group_member_row Q w" "table_ok T t" "\<not> pendingEdits t"
    "table_view T t (as_string Q rowId) = Some (r, s)" "s \<noteq> DraftDelete"
    "account (edited_row T changes r) \<noteq> as_string Q rowId"
  shows "draftEditRow T rowId changes t = Some (t\<lparr>rowList :=
    (rowList t)[row_pos T (as_string Q rowId) t := \<lparr>account = [], weight = weight r, tags = []\<rparr>]\<rparr>)"
proof -
  have moved: "movedRow T r = \<lparr>account = [], weight = weight r, tags = []\<rparr>"
    by (simp add: assms(1) group_member_row_def)
  show ?thesis
    using draftEditRow_id_change[OF assms(2) _ assms(4,3,5), of rowId changes] assms(1,6)
    by (simp add: moved[unfolded assms(1)] set_row_def)
qed

lemma refused_edit_empties_row_witness:
  "\<exists>t. draftEditRow members_T (QStr ''bob'') [(''account'', QStr ''rob'')] members_bob = Some t \<and>
     rowList t = [\<lparr>account = [], weight = 3, tags = []\<rparr>]"
proof -
  have new: "account (edited_row members_T [(''account'', QStr ''rob'')] \<lparr>account = ''bob'', weight = 3, tags = [''x'']\<rparr>) \<noteq> ''bob''"
    by code_simp
  have pos: "row_pos members_T ''bob'' members_bob = 0" by code_simp
  show ?thesis
    using refused_edit_empties_row[OF refl members_bob_ok, of "QStr ''bob''" _ Loaded "[(''account'', QStr ''rob'')]"] new pos
    by (simp add: members_bob_view) (simp add: members_bob_def new_table_def)
qed

text \<open>
  While edits are pending the table is locked: no draft edit, addition or deletion changes it in
  any way.
\<close>

lemma pending_edits_lock_table:
  assumes "pendingEdits t"
  shows "draftEditRow T rowId changes t = Some t \<and> draftAddRow T fieldMap t = t \<and> draftDeleteRow T rowId' t = t"
  using assms by (simp add: draftEditRow_def draftAddRow_def draftDeleteRow_def)

lemma groups7_pending_locked: "pendingEdits groups7_pending"
  by code_simp

lemma pending_edits_lock_table_witness: "draftAddRow groups_T [] groups7_pending = groups7_pending"
  using pending_edits_lock_table[OF groups7_pending_locked, of groups_T] by blast

subsection \<open>Conversions, loading, models\<close>

text \<open>
  A row written into a variant map and read back over any other row is the same row, and no key is
  reported as unused; for both row types.
\<close>

lemma rows_survive_variant_maps:
  "fromVariantMap (group_member_fields Q) (toVariantMap (group_member_fields Q) m) m' = (m, []) \<and>
   fromVariantMap (polling_group_fields Q) (toVariantMap (polling_group_fields Q) g) g' = (g, [])"
  by (simp add: member_fields.variant_map_roundtrip group_fields.variant_map_roundtrip)

text \<open>
  A request for a row that is younger than seven seconds is not repeated.  Once it is older, every
  further call sends another request, because \<open>std::map::insert\<close> never renews the time.
\<close>

lemma row_requests:
  assumes "loadingRows t i = Some started"
  shows "(now - started < 7 \<longrightarrow> refreshRow T now i t = t) \<and>
    (now - started \<ge> 7 \<longrightarrow> loadingRows (refreshRow T now i t) i = Some started \<and>
       out (refreshRow T now i t) = out t @ [CallApi GetTableRows
         (getTableJson_limit (rowTableName T) (scope t) (boundText T i) 1 False) (RowRequest i)])"
  using assms
  by (simp add: refreshRow_def rowIsLoading_def MAX_LOADING_SECONDS_BEFORE_DROPPED_def Let_def)

lemma row_requests_witness:
  "refreshRow groups_T 5 7 (refreshRow groups_T 0 7 groups7) = refreshRow groups_T 0 7 groups7"
proof -
  have "loadingRows (refreshRow groups_T 0 7 groups7) 7 = Some 0" by code_simp
  from row_requests[OF this] show ?thesis by simp
qed

text \<open>
  The roles of a model: the role names number the load state, the fields and the virtual fields in
  this order, and \<open>data\<close> answers every number of a row the table has with the load state, with the
  field, or with value and status of the virtual field of that name.
\<close>

lemma model_roles:
  assumes "row < length (modelIds m)" "getRow T (modelIds m ! row) t = Some (r, s)" "(n, nm) \<in> set (roleNames T)"
  shows "(n = 0 \<and> nm = ''loadState'' \<and> model_data T now m row (int n) t = Inr (QLoadState s, t)) \<or>
    (\<exists>f \<in> set (rowFields T). nm = fname f \<and> model_data T now m row (int n) t = Inr (fget f r, t)) \<or>
    (\<exists>k < length (virtualFields T). nm = vrole (virtualFields T ! k) \<and>
       (let (val, status) = vget (virtualFields T ! k) r s (modelVirtualFields m ! row ! k) in
        model_data T now m row (int n) t =
          Inr (QMap (qm_insert ''status'' (QLoadState status) (qm_insert ''value'' val [])), t)))"
proof -
  define F where "F = length (rowFields T)"
  define V where "V = length (virtualFields T)"
  have names: "nm = (LOAD_STATE_ROLE_NAME # map fname (rowFields T) @ map vrole (virtualFields T)) ! n"
    and n: "n < 1 + F + V"
    using assms(3) unfolding roleNames_eq in_zip_upt
    by (simp_all add: VIRTUAL_ROLE_BASE_def VIRTUAL_ROLE_COUNT_def PHYSICAL_ROLE_BASE_def
        PHYSICAL_ROLE_COUNT_def F_def V_def)
  have roles: "LOAD_STATE_ROLE = 0" "PHYSICAL_ROLE_BASE = 1" "PHYSICAL_ROLE_COUNT T = F"
    "VIRTUAL_ROLE_BASE T = 1 + F" "VIRTUAL_ROLE_COUNT T = V"
    by (simp_all add: LOAD_STATE_ROLE_def PHYSICAL_ROLE_BASE_def PHYSICAL_ROLE_COUNT_def VIRTUAL_ROLE_BASE_def
        VIRTUAL_ROLE_COUNT_def F_def V_def)
  consider "n = 0" | "0 < n" "n < 1 + F" | "1 + F \<le> n" by linarith
  then show ?thesis
  proof cases
    case 1
    then show ?thesis using assms(1,2) names by (simp add: model_data_def roles LOAD_STATE_ROLE_NAME_def)
  next
    case 2
    then obtain k where k: "n = Suc k" "k < F" by (cases n) auto
    then have "nm = fname (rowFields T ! k)" using names by (simp add: nth_append F_def)
    moreover have "model_data T now m row (int n) t = Inr (fget (rowFields T ! k) r, t)"
      using assms(1,2) k by (simp add: model_data_def roles dispatch_eq F_def)
    ultimately show ?thesis using k(2) by (auto simp: F_def)
  next
    case 3
    define k where "k = n - (1 + F)"
    have k: "n = 1 + F + k" "k < V" using 3 n by (simp_all add: k_def)
    have "nm = vrole (virtualFields T ! k)" using names k by (simp add: nth_append F_def V_def)
    moreover obtain val status where vs: "vget (virtualFields T ! k) r s (modelVirtualFields m ! row ! k) = (val, status)"
      by (cases "vget (virtualFields T ! k) r s (modelVirtualFields m ! row ! k)")
    moreover have "model_data T now m row (int n) t =
        Inr (QMap (qm_insert ''status'' (QLoadState status) (qm_insert ''value'' val [])), t)"
      using assms(1,2) k vs by (simp add: model_data_def roles dispatch_eq tl_make_sequence_eq V_def)
    ultimately show ?thesis using k(2) by (auto simp: V_def)
  qed
qed

text \<open>The table of one group with a model on it.\<close>

definition groups7_shown :: "(PollingGroup, uint64, size_field) table" where
  "groups7_shown = allRows groups_T 0 1 groups7"

lemma model_roles_witness:
  "model_data groups_T 0 (hd (models groups7_shown)) 0 2 groups7_shown = Inr (QStr ''red'', groups7_shown)"
proof -
  have facts: "0 < length (modelIds (hd (models groups7_shown)))"
    "getRow groups_T (modelIds (hd (models groups7_shown)) ! 0) groups7_shown =
      Some (\<lparr>groupId = 7, groupName = ''red'', groupTags = []\<rparr>, Loaded)"
    "(2, ''name'') \<in> set (roleNames groups_T)"
    by code_simp+
  have fields: "fname f = ''name'' \<Longrightarrow> f \<in> set (rowFields groups_T) \<Longrightarrow>
      fget f \<lparr>groupId = 7, groupName = ''red'', groupTags = []\<rparr> = QStr ''red''" for f
    by (auto simp: polling_group_fields_def)
  have "length (virtualFields groups_T) = 1" "vrole (virtualFields groups_T ! 0) = ''groupSize''"
    by (simp_all add: polling_group_row_def group_size_field_def)
  with model_roles[OF facts, of 0] fields show ?thesis
    by (auto simp: Let_def split: prod.splits)
qed

text \<open>
  Models keep up: after a response in key order has been placed, every model shows the ids it
  showed before and the ids of the response, still sorted, whichever of the two placements was used.
\<close>

lemma models_follow_rows:
  assumes "\<forall>m \<in> set ms. model_ok m" "keys_sorted (getId T) rs"
  shows "\<forall>m \<in> set ms. model_ok (fst (updateRows T rs m)) \<and>
    set (modelIds (fst (updateRows T rs m))) = set (modelIds m) \<union> getId T ` set rs"
  using assms updateRows_ok by blast

lemma models_follow_rows_witness:
  "set (modelIds (fst (updateRows groups_T [\<lparr>groupId = 9, groupName = [], groupTags = []\<rparr>]
     \<lparr>modelKey = 0, modelIds = [7], modelVirtualFields = [[]]\<rparr>))) = {7, 9}"
  using models_follow_rows[of "[\<lparr>modelKey = 0, modelIds = [7], modelVirtualFields = [[]]\<rparr>]" groups_T
      "[\<lparr>groupId = 9, groupName = [], groupTags = []\<rparr>]"]
  by (auto simp: model_ok_def)

text \<open>
  C29. The backups keep, through any sequence of saves, the row that was saved first under its id, and
  removing a saved row hands it back and leaves the other backups as they were.
\<close>

theorem backups_keep_first:
  "backup_get key (fold (\<lambda>(r, s). backup_save key r s) rs backup_empty) i =
     map_of (map (\<lambda>(r, s). (key r, (r, s))) rs) i \<and>
   fst (backup_remove key i (fold (\<lambda>(r, s). backup_save key r s) rs backup_empty)) =
     map_of (map (\<lambda>(r, s). (key r, (r, s))) rs) i \<and>
   backup_get key (snd (backup_remove key i (fold (\<lambda>(r, s). backup_save key r s) rs backup_empty))) j =
     (if j = i then None else map_of (map (\<lambda>(r, s). (key r, (r, s))) rs) j)"
  using store.saves_view[OF backup_ok_empty, of key rs]
  by (simp add: store.get_view store.remove_result store.get_removed)

end
