(* ===== verification/TableLock.thy ===== *)
theory TableLock
  imports TableProperties
begin

text \<open>
  What \<open>resetEdits\<close> leaves of the lock that pending edits put on a table: nothing in its loop clears
  \<open>pendingEdits\<close>, which only the removal of the last backup row by row does.
\<close>


text \<open>
  What holds before every step: the lock, and none of the backups still to come belongs to a row in
  state \<open>DraftAdd\<close>, whose removal would take its backup away before the loop does.
\<close>

definition reset_ready :: "('r, 'i::linorder, 'v) row_type \<Rightarrow> nat \<Rightarrow> ('r, 'i, 'v) table \<Rightarrow> bool" where
  "reset_ready T n t \<longleftrightarrow> table_ok T t \<and> pendingEdits t \<and>
     (\<forall>b \<in> set (drop n (brows (backups t))). \<forall>r. table_view T t (getId T b) \<noteq> Some (r, DraftAdd))"

lemma reset_ready_start:
  assumes "table_ok T t" "pendingEdits t" "\<forall>b \<in> set (brows (backups t)). \<forall>r. table_view T t (getId T b) \<noteq> Some (r, DraftAdd)"
  shows "reset_ready T 0 t"
  using assms by (simp add: reset_ready_def)

text \<open>Submitting the edits leaves no row with a backup in state \<open>DraftAdd\<close>.\<close>

lemma submitted_no_draft:
  assumes "table_ok T t" "b \<in> set (brows (backups (markEditsPending T t)))"
  shows "table_view T (markEditsPending T t) (getId T b) \<noteq> Some (r, DraftAdd)"
proof -
  have "b \<in> set (brows (backups t))" using assms(2) by (simp add: markEditsPending_spec(3)[OF assms(1)])
  moreover have "pending_state s \<noteq> DraftAdd" for s by (cases s) simp_all
  ultimately show ?thesis
    by (auto simp: markEditsPending_spec(2)[OF assms(1)] pending_view_def split: option.splits)
qed

lemma drop_remove_at: "n < length xs \<Longrightarrow> drop n (remove_at n xs) = drop (Suc n) xs"
  by (simp add: remove_at_def)

lemma remove_backup_ready:
  assumes "table_ok T t" "pendingEdits t" "n < length (brows (backups t))"
    and "\<And>b r. b \<in> set (drop (Suc n) (brows (backups t))) \<Longrightarrow> table_view T t (getId T b) \<noteq> Some (r, DraftAdd)"
  shows "\<exists>t'. remove_backup_at n t = Inr t' \<and> reset_ready T n t'"
proof -
  obtain t' where t': "remove_backup_at n t = Inr t'" using assms(3) by (simp add: remove_backup_at_def)
  have "table_view T t' = table_view T t" "pendingEdits t' = pendingEdits t"
    "brows (backups t') = remove_at n (brows (backups t))"
    using t' assms(3) by (auto simp: remove_backup_at_def intro: table_view_cong)
  then show ?thesis
    using t' remove_backup_at_ok[OF assms(1) t'] assms(2,4)
    by (auto simp: reset_ready_def drop_remove_at[OF assms(3)])
qed

lemma reset_step_ready:
  assumes "reset_ready T n t" "n < length (brows (backups t))"
  shows "\<exists>n' t'. reset_step T n t = Inr (n', t') \<and> reset_ready T n' t'"
proof -
  define b where "b = brows (backups t) ! n"
  define i where "i = getId T b"
  have ok: "table_ok T t" "pendingEdits t" using assms(1) by (simp_all add: reset_ready_def)
  have drop_n: "drop n (brows (backups t)) = b # drop (Suc n) (brows (backups t))"
    using assms(2) by (simp add: b_def Cons_nth_drop_Suc)
  have later: "table_view T t (getId T c) \<noteq> Some (r, DraftAdd)" if "c \<in> set (drop (Suc n) (brows (backups t)))" for c r
    using assms(1) that by (simp add: reset_ready_def drop_n)
  have here: "table_view T t i \<noteq> Some (r, DraftAdd)" for r
    using assms(1) by (simp add: reset_ready_def drop_n i_def)
  have "keys_sorted (getId T) (take n (brows (backups t)) @ drop n (brows (backups t)))"
    using table_okD(3)[OF ok(1)] by (simp add: backup_ok_def)
  then have "keys_sorted (getId T) (drop n (brows (backups t)))" unfolding keys_sorted_append by simp
  then have fresh: "getId T c \<noteq> i" if "c \<in> set (drop (Suc n) (brows (backups t)))" for c
    using that by (force simp: drop_n keys_sorted_Cons i_def)
  show ?thesis
  proof (cases "table_view T t i")
    case None
    then have "\<not> row_found T i t" by (auto simp: row_found_iff[OF ok(1)])
    with remove_backup_ready[OF ok assms(2) later] show ?thesis
      by (auto simp: reset_step_def Let_def b_def[symmetric] i_def[symmetric] row_search)
  next
    case (Some e)
    then have found: "row_found T i t" by (auto simp: row_found_iff[OF ok(1)])
    have e: "e = (rowList t ! row_pos T i t, rowStates t ! row_pos T i t)"
      using Some found by (simp add: table_view_lookup[OF ok(1)])
    have not_draft: "rowStates t ! row_pos T i t \<noteq> DraftAdd" using here Some e by auto
    show ?thesis
    proof (cases "rowStates t ! row_pos T i t = PendingAdd")
      case True
      have del: "backups (deleteRow T i t) = backups t" "pendingEdits (deleteRow T i t)"
        using ok(2) True by (simp_all add: deleteRow_backups deleteRow_pending drops_backup_def isDraft_def)
      have "n < length (brows (backups (deleteRow T i t)))"
        "c \<in> set (drop (Suc n) (brows (backups (deleteRow T i t)))) \<Longrightarrow>
          table_view T (deleteRow T i t) (getId T c) \<noteq> Some (r, DraftAdd)" for c r
        using assms(2) later[of c r] by (simp_all add: del(1) deleteRow_view[OF ok(1)])
      from remove_backup_ready[OF deleteRow_ok[OF ok(1)] del(2) this] show ?thesis
        using True found
        by (auto simp: reset_step_def Let_def b_def[symmetric] i_def[symmetric] row_search)
    next
      case False
      have view: "table_view T t (getId T b) = Some (rowList t ! row_pos T i t, rowStates t ! row_pos T i t)"
        using Some e by (simp add: i_def)
      from reset_step_restores[OF ok(1) assms(2) b_def[symmetric] refl view not_draft False]
      obtain t' where t': "reset_step T n t = Inr (Suc n, t')" "table_ok T t'" "backups t' = backups t"
        "\<And>j. j \<noteq> i \<Longrightarrow> table_view T t' j = table_view T t j" "pendingEdits t' = pendingEdits t"
        unfolding i_def by (metis fun_upd_other)
      then have "reset_ready T (Suc n) t'" using ok(2) later fresh by (simp add: reset_ready_def)
      with t'(1) show ?thesis by blast
    qed
  qed
qed

lemma reset_loop_ready: "reset_ready T n t \<Longrightarrow> \<exists>t'. reset_loop T n t = Inr t' \<and> pendingEdits t'"
proof (induction T n t rule: reset_loop.induct)
  case (1 T n t)
  show ?case
  proof (cases "n < length (brows (backups t))")
    case False
    then show ?thesis using 1(2) by (subst reset_loop.simps) (simp add: reset_ready_def)
  next
    case True
    then obtain n' t1 where s: "reset_step T n t = Inr (n', t1)" "reset_ready T n' t1"
      using reset_step_ready[OF 1(2)] by blast
    with 1(1)[OF True s(1) refl s(2)] True show ?thesis by (subst reset_loop.simps) simp
  qed
qed

text \<open>
  C28. Resetting a table whose edits are pending - edits, deletions and additions alike - returns and
  drops every backup but not the lock: afterwards, as before, no draft edit, addition or deletion changes
  anything, although nothing is pending any more.  The one condition is that no row with a backup is in
  state \<open>DraftAdd\<close>: submitting the edits turned every one into \<open>PendingAdd\<close> (\<open>submitted_no_draft\<close>), and
  \<open>draftAddRow\<close> refuses until they settle.
\<close>

theorem reset_leaves_table_locked:
  assumes "table_ok T t" "pendingEdits t"
    and "\<forall>b \<in> set (brows (backups t)). \<forall>r. table_view T t (getId T b) \<noteq> Some (r, DraftAdd)"
  shows "\<exists>t'. resetEdits T t = Inr t' \<and> pendingEdits t' \<and> backups t' = backup_empty \<and>
    (\<forall>rowId changes. draftEditRow T rowId changes t' = Some t') \<and>
    (\<forall>fieldMap. draftAddRow T fieldMap t' = t') \<and> (\<forall>rowId. draftDeleteRow T rowId t' = t')"
proof -
  obtain t1 where "reset_loop T 0 t = Inr t1" "pendingEdits t1"
    using reset_loop_ready[OF reset_ready_start[OF assms]] by blast
  then obtain t' where t': "resetEdits T t = Inr t'" "pendingEdits t'" "backups t' = backup_empty"
    by (simp add: resetEdits_def Let_def notifyUpdate_def emit_def)
  then show ?thesis by (auto simp: draftEditRow_def draftAddRow_def draftDeleteRow_def)
qed

text \<open>An added group and a deletion, both submitted: the reset removes the one, restores the other.\<close>

definition groups7_both_drafts :: "(PollingGroup, uint64, size_field) table" where
  "groups7_both_drafts = draftAddRow groups_T [(''name'', QStr ''blue'')] (draftDeleteRow groups_T (QULong 7) groups7)"

lemma groups7_both_ok: "table_ok groups_T groups7_both_drafts" "table_ok groups_T (markEditsPending groups_T groups7_both_drafts)"
  by code_simp+

lemma groups7_both_pending: "pendingEdits (markEditsPending groups_T groups7_both_drafts)"
  "rowStates (markEditsPending groups_T groups7_both_drafts) = [PendingDelete, PendingAdd]"
  by code_simp+

theorem reset_leaves_table_locked_witness:
  "\<exists>t. resetEdits groups_T (markEditsPending groups_T groups7_both_drafts) = Inr t \<and> pendingEdits t \<and>
     draftAddRow groups_T [] t = t"
  using reset_leaves_table_locked[OF groups7_both_ok(2) groups7_both_pending(1)] submitted_no_draft[OF groups7_both_ok(1)]
  by blast

end
