(* ===== verification/ReplicaProperties.thy ===== *)
theory ReplicaProperties
  imports Replica TableLock
begin

text \<open>
  What the copy of a table promises: it converges to the node's rows when no entry overtakes an answer,
  and it can stay wrong for good when one does.
\<close>

subsection \<open>Convergence\<close>

text \<open>
  C3. A table that starts as a copy of the node's rows, is not edited and follows the journal shows
  nothing outdated: every row it shows as loaded is the node's, up to journal entries not yet polled.
  Once every entry is polled, every request answered and every answer delivered, the table is the
  node's rows again.  No entry may be polled while an answer with its row is under way.
\<close>

theorem replica_converges:
  assumes "row_laws T" "unedited T t" "loadingRows t = Map.empty"
    and "table_view T t = map_option (\<lambda>r. (r, Loaded)) \<circ> db"
    and "replica_steps T True (start_replica db t) s"
  shows "(quiescent s \<longrightarrow> table_view T (rpTable s) = map_option (\<lambda>r. (r, Loaded)) \<circ> rpNode s) \<and>
    (\<forall>i r. table_view T (rpTable s) i = Some (r, Loaded) \<and> untouched (kinds i (rpJournal s)) \<longrightarrow> rpNode s i = Some r)"
proof -
  have inv: "in_step T s" by (rule replica_steps_in_step[OF assms(5,1) start_in_step[OF assms(2-4)]])
  show ?thesis using quiescent_copy[OF inv] in_stepD(3)[OF inv] by simp
qed

text \<open>A shown table of one group, and a reply that brings the group under another name.\<close>

definition shown7 :: "(PollingGroup, uint64, size_field) table" where
  "shown7 = allRows groups_T 0 0 groups7"

definition blue_reply :: reply where
  "blue_reply = \<lparr>replyFailed = False, replyBody =
     JObj [(''rows'', JArr [JObj [(''id'', JNum 7), (''name'', JStr ''blue''), (''tags'', JArr [])]]), (''more'', JBool False)]\<rparr>"

lemma shown7_ok: "unedited groups_T shown7" "loadingRows shown7 = Map.empty"
  "table_view groups_T shown7 = map_option (\<lambda>r. (r, Loaded)) \<circ> [7 \<mapsto> \<lparr>groupId = 7, groupName = ''red'', groupTags = []\<rparr>]"
  "scope shown7 = scope groups7"
proof -
  obtain m where m: "models shown7 = models groups7 @ [m]" "table_ok groups_T shown7"
    "table_view groups_T shown7 = table_view groups_T groups7" "pendingEdits shown7 = pendingEdits groups7"
    using allRows_spec[OF groups7_ok, of 0 0] unfolding shown7_def by metis
  show "unedited groups_T shown7"
    unfolding unedited_def m groups7_view using m(2) by (simp add: groups7_rows)
  show "table_view groups_T shown7 = map_option (\<lambda>r. (r, Loaded)) \<circ> [7 \<mapsto> \<lparr>groupId = 7, groupName = ''red'', groupTags = []\<rparr>]"
    unfolding m(3) groups7_view by (simp only: map_option_o_map_upd map_option_o_empty)
  show "scope shown7 = scope groups7" by (simp add: shown7_def scope_allRows)
  have "loadingRows groups7 = Map.empty"
    using place_rows_unlocked[of "new_table groups_T ''1''" groups_T]
    by (simp add: groups7_def rowsReply_def processRowsResponse_def group7_parse quiet_def new_table_def)
  then show "loadingRows shown7 = Map.empty"
    by (simp add: shown7_def allRows_def construct_model_def construct_step_def groups7_rows Let_def split_beta fullRefresh_def)
qed

lemma entry7_for: "entry_for groups_T shown7 k 7 (entry7 k)"
  by (simp add: entry_for_def entry7_here shown7_ok)

lemma blue_carried: "carries groups_T blue_reply [\<lparr>groupId = 7, groupName = ''blue'', groupTags = []\<rparr>]"
  by code_simp

subsection \<open>Late replies\<close>

lemma markStale_requests:
  assumes "unedited T t"
  shows "loadingRows t i = Some st \<Longrightarrow> now - st < 7 \<Longrightarrow>
      sent (markStale T now i t) = sent t \<and> loadingRows (markStale T now i t) = loadingRows t"
    and "loadingRows t i = None \<Longrightarrow>
      sent (markStale T now i t) = sent t @ [i] \<and> loadingRows (markStale T now i t) = (loadingRows t)(i \<mapsto> now)"
proof -
  have "rowStates t ! row_pos T i t \<notin> {PendingEdit, PendingDelete}" if "row_found T i t"
  proof -
    have "table_view T t i = Some (rowList t ! row_pos T i t, rowStates t ! row_pos T i t)"
      using assms that table_view_lookup[of T t i] by (simp add: unedited_def)
    then have "rowStates t ! row_pos T i t \<in> {Loaded, Loading, Stale}"
      using assms unfolding unedited_def by blast
    then show ?thesis by auto
  qed
  then obtain t2 where t2: "markStale T now i t = markModelsStale T now i t2" "quiet t t2"
    using markStale_models by blast
  have "models t2 \<noteq> []" using assms t2(2) quiet_models by (auto simp: unedited_def)
  then show "loadingRows t i = Some st \<Longrightarrow> now - st < 7 \<Longrightarrow>
      sent (markStale T now i t) = sent t \<and> loadingRows (markStale T now i t) = loadingRows t"
    and "loadingRows t i = None \<Longrightarrow>
      sent (markStale T now i t) = sent t @ [i] \<and> loadingRows (markStale T now i t) = (loadingRows t)(i \<mapsto> now)"
    using markModelsStale_requests[of t2] t2 by (simp_all add: quiet_def)
qed

lemma entry_for_scope: "entry_for T t k i e \<Longrightarrow> scope t' = scope t \<Longrightarrow> entry_for T t' k i e"
  by (simp add: entry_for_def)

lemma scope_processEntry: "scope (processEntry T now e t) = scope t"
  using scope_processJournal[of T now "[e]" t] by (simp add: processJournal_def)

text \<open>The start of both races: the row changes, its entry is polled, the node answers.\<close>

lemma change_answered:
  assumes "row_laws T" "unedited T t" "loadingRows t = Map.empty" "db i \<noteq> None" "getId T r = i" "entry_for T t ModifyRow i e"
  obtains t1 where "t1 = processEntry T now e t" "unedited T t1" "loadingRows t1 = [i \<mapsto> now]"
    "replica_steps T strict (start_replica db t)
       \<lparr>rpNode = db(i \<mapsto> r), rpJournal = [], rpAsked = [], rpWire = [(i, [r])], rpTable = t1\<rparr>"
proof -
  define t1 where "t1 = processEntry T now e t"
  define s1 where "s1 = (start_replica db t)\<lparr>rpNode := db(i \<mapsto> r), rpJournal := [(ModifyRow, i)]\<rparr>"
  define s2 where "s2 = s1\<lparr>rpJournal := [], rpTable := t1, rpAsked := [i]\<rparr>"
  have stale: "t1 = markStale T now i t" using assms(6) by (simp add: t1_def processEntry_def entry_for_def Let_def)
  have req: "sent t1 = sent t @ [i]" "loadingRows t1 = [i \<mapsto> now]"
    using markStale_requests(2)[OF assms(2), of i now] assms(3) by (simp_all add: stale)
  have "replica_step T strict (start_replica db t) s1"
    using replica_step.put[of T strict "start_replica db t" r] assms(4,5) by (simp add: s1_def start_replica_def)
  moreover have "replica_step T strict s1 s2"
    using replica_step.poll[of s1 ModifyRow i "[]" strict T e t1 now] assms(6) req(1)
    by (simp add: s1_def s2_def start_replica_def off_wire_def t1_def)
  moreover have "replica_step T strict s2 (s2\<lparr>rpAsked := [], rpWire := [(i, [r])]\<rparr>)"
    using replica_step.answer[of s2 "[]" i "[]" T "[r]" strict] assms(5)
    by (auto simp: s2_def s1_def start_replica_def first_from_def dest: leD)
  ultimately have "replica_steps T strict (start_replica db t) (s2\<lparr>rpAsked := [], rpWire := [(i, [r])]\<rparr>)"
    by (meson replica_steps.intros)
  moreover have "unedited T t1" unfolding t1_def by (rule processEntry_unedited(1)[OF assms(1,2,6)])
  ultimately show thesis using req(2) by (intro that[OF t1_def]) (simp_all add: s2_def s1_def start_replica_def)
qed

lemma replica_steps_trans:
  "replica_steps T strict s s' \<Longrightarrow> replica_steps T strict s' s'' \<Longrightarrow> replica_steps T strict s s''"
  by (induction rule: replica_steps.induct) (auto intro: replica_steps.intros)

text \<open>The end: the reply is delivered to a table that has meanwhile polled another entry.\<close>

lemma late_delivery:
  assumes "replica_steps T strict s0 \<lparr>rpNode = db, rpJournal = [], rpAsked = [], rpWire = [(i, [r])], rpTable = t\<rparr>"
    and "unedited T t" "carries T reply [r]" "getId T r = i"
  obtains s where "replica_steps T strict s0 s" "quiescent s" "rpNode s = db" "table_view T (rpTable s) i = Some (r, Loaded)"
proof -
  define s where "s = \<lparr>rpNode = db, rpJournal = [], rpAsked = [], rpWire = [], rpTable = rowReply T i reply t\<rparr>"
  have "replica_step T strict \<lparr>rpNode = db, rpJournal = [], rpAsked = [], rpWire = [(i, [r])], rpTable = t\<rparr> s"
    using replica_step.deliver[of "\<lparr>rpNode = db, rpJournal = [], rpAsked = [], rpWire = [(i, [r])], rpTable = t\<rparr>" "[]" i "[r]" "[]" T reply strict] assms(3) by (simp add: s_def)
  then have "replica_steps T strict s0 s" by (meson assms(1) replica_steps_trans replica_steps.intros)
  moreover have "table_view T (rpTable s) i = Some (r, Loaded)"
    using rowReply_unedited(2)[OF assms(2,3), of i] assms(4) by (simp add: s_def loaded_map_def)
  moreover have "quiescent s" "rpNode s = db" by (simp_all add: s_def quiescent_def)
  ultimately show thesis using that[of s] by blast
qed

lemma late_reply_outdates:
  assumes "row_laws T" "unedited T t" "loadingRows t = Map.empty" "db i \<noteq> None" "getId T r = i" "getId T r' = i"
    and "entry_for T t ModifyRow i e" "carries T reply [r]"
  obtains s where "replica_steps T False (start_replica db t) s" "quiescent s" "rpNode s i = Some r'"
    "table_view T (rpTable s) i = Some (r, Loaded)"
proof -
  obtain t1 where t1: "t1 = processEntry T 0 e t" "unedited T t1" "loadingRows t1 = [i \<mapsto> 0]"
    "replica_steps T False (start_replica db t)
       \<lparr>rpNode = db(i \<mapsto> r), rpJournal = [], rpAsked = [], rpWire = [(i, [r])], rpTable = t1\<rparr>"
    using change_answered[where T = T and t = t and db = db and i = i and r = r and e = e and now = 0 and strict = False, OF assms(1-5,7)] by blast
  define s1 where "s1 = \<lparr>rpNode = db(i \<mapsto> r'), rpJournal = [(ModifyRow, i)], rpAsked = [], rpWire = [(i, [r])], rpTable = t1\<rparr>"
  define t2 where "t2 = processEntry T 1 e t1"
  have e: "entry_for T t1 ModifyRow i e" using assms(7) by (rule entry_for_scope) (simp add: t1(1) scope_processEntry)
  have "t2 = markStale T 1 i t1" using e by (simp add: t2_def processEntry_def entry_for_def Let_def)
  then have "sent t2 = sent t1" using markStale_requests(1)[OF t1(2), of i 0 1] t1(3) by simp
  then have "replica_step T False s1 (s1\<lparr>rpJournal := [], rpTable := t2\<rparr>)"
    using replica_step.poll[of s1 ModifyRow i "[]" False T e t2 1] e by (simp add: s1_def t2_def)
  moreover have "replica_step T False
      \<lparr>rpNode = db(i \<mapsto> r), rpJournal = [], rpAsked = [], rpWire = [(i, [r])], rpTable = t1\<rparr> s1"
    using replica_step.put[of T False "\<lparr>rpNode = db(i \<mapsto> r), rpJournal = [], rpAsked = [], rpWire = [(i, [r])], rpTable = t1\<rparr>" r']
      assms(6) by (simp add: s1_def)
  ultimately have "replica_steps T False (start_replica db t) (s1\<lparr>rpJournal := [], rpTable := t2\<rparr>)"
    by (meson t1(4) replica_steps_trans replica_steps.intros)
  moreover have "unedited T t2" unfolding t2_def by (rule processEntry_unedited(1)[OF assms(1) t1(2) e])
  ultimately obtain s where "replica_steps T False (start_replica db t) s" "quiescent s" "rpNode s = db(i \<mapsto> r')"
    "table_view T (rpTable s) i = Some (r, Loaded)"
    using late_delivery[OF _ _ assms(8,5), of False _ "db(i \<mapsto> r')" t2] by (auto simp: s1_def)
  then show thesis by (intro that) simp_all
qed

lemma late_reply_resurrects:
  assumes "row_laws T" "unedited T t" "loadingRows t = Map.empty" "db i \<noteq> None" "getId T r = i"
    and "entry_for T t ModifyRow i e" "entry_for T t DeleteRow i e'" "carries T reply [r]"
  obtains s where "replica_steps T False (start_replica db t) s" "quiescent s" "rpNode s i = None"
    "table_view T (rpTable s) i = Some (r, Loaded)"
proof -
  obtain t1 where t1: "t1 = processEntry T 0 e t" "unedited T t1" "loadingRows t1 = [i \<mapsto> 0]"
    "replica_steps T False (start_replica db t)
       \<lparr>rpNode = db(i \<mapsto> r), rpJournal = [], rpAsked = [], rpWire = [(i, [r])], rpTable = t1\<rparr>"
    using change_answered[where T = T and t = t and db = db and i = i and r = r and e = e and now = 0 and strict = False, OF assms(1-6)] by blast
  define s1 where "s1 = \<lparr>rpNode = db(i := None), rpJournal = [(DeleteRow, i)], rpAsked = [], rpWire = [(i, [r])], rpTable = t1\<rparr>"
  define t2 where "t2 = processEntry T 1 e' t1"
  have e: "entry_for T t1 DeleteRow i e'" using assms(7) by (rule entry_for_scope) (simp add: t1(1) scope_processEntry)
  have "sent t2 = sent t1" using processEntry_unedited(3)[OF assms(1) t1(2) e, of 1] by (simp add: t2_def quiet_def)
  then have "replica_step T False s1 (s1\<lparr>rpJournal := [], rpTable := t2\<rparr>)"
    using replica_step.poll[of s1 DeleteRow i "[]" False T e' t2 1] e by (simp add: s1_def t2_def)
  moreover have "replica_step T False
      \<lparr>rpNode = db(i \<mapsto> r), rpJournal = [], rpAsked = [], rpWire = [(i, [r])], rpTable = t1\<rparr> s1"
    using replica_step.drop_row[of "\<lparr>rpNode = db(i \<mapsto> r), rpJournal = [], rpAsked = [], rpWire = [(i, [r])], rpTable = t1\<rparr>" i T False]
    by (simp add: s1_def)
  ultimately have "replica_steps T False (start_replica db t) (s1\<lparr>rpJournal := [], rpTable := t2\<rparr>)"
    by (meson t1(4) replica_steps_trans replica_steps.intros)
  moreover have "unedited T t2" unfolding t2_def by (rule processEntry_unedited(1)[OF assms(1) t1(2) e])
  ultimately obtain s where "replica_steps T False (start_replica db t) s" "quiescent s" "rpNode s = db(i := None)"
    "table_view T (rpTable s) i = Some (r, Loaded)"
    using late_delivery[OF _ _ assms(8,5), of False _ "db(i := None)" t2] by (auto simp: s1_def)
  then show thesis by (intro that) simp_all
qed

subsection \<open>The properties\<close>

theorem replica_converges_witness:
  "\<exists>s. replica_steps groups_T True (start_replica [7 \<mapsto> \<lparr>groupId = 7, groupName = ''red'', groupTags = []\<rparr>] shown7) s \<and>
     table_view groups_T (rpTable s) = [7 \<mapsto> (\<lparr>groupId = 7, groupName = ''blue'', groupTags = []\<rparr>, Loaded)]"
proof -
  let ?red = "\<lparr>groupId = 7, groupName = ''red'', groupTags = []\<rparr>" and ?blue = "\<lparr>groupId = 7, groupName = ''blue'', groupTags = []\<rparr>"
  obtain t1 where t1: "unedited groups_T t1"
    "replica_steps groups_T True (start_replica [7 \<mapsto> ?red] shown7)
       \<lparr>rpNode = [7 \<mapsto> ?red, 7 \<mapsto> ?blue], rpJournal = [], rpAsked = [], rpWire = [(7, [?blue])], rpTable = t1\<rparr>"
    using change_answered[where T = groups_T and t = shown7 and db = "[7 \<mapsto> ?red]" and i = 7 and r = ?blue and
        e = "entry7 ModifyRow" and now = 0 and strict = True, OF polling_group_laws shown7_ok(1,2) _ _ entry7_for]
    by auto
  from late_delivery[OF t1(2,1) blue_carried] obtain s where
    s: "replica_steps groups_T True (start_replica [7 \<mapsto> ?red] shown7) s" "quiescent s" "rpNode s = [7 \<mapsto> ?blue]"
    by auto
  from replica_converges[OF polling_group_laws shown7_ok(1-3) s(1)] s show ?thesis
    by (intro exI[of _ s]) (auto simp: fun_eq_iff)
qed

text \<open>
  C8. When a journal entry for a row is polled while an older answer with the row is under way, no new
  request goes out, and the answer is taken for the row as it is: a table that waits for nothing shows
  the row's old contents as loaded, or a row that the node has deleted.
\<close>

theorem late_replies_win:
  assumes "row_laws T" "unedited T t" "loadingRows t = Map.empty" "db i \<noteq> None" "getId T r = i" "getId T r' = i"
    and "entry_for T t ModifyRow i e" "entry_for T t DeleteRow i e'" "carries T reply [r]"
  shows "(\<exists>s. replica_steps T False (start_replica db t) s \<and> quiescent s \<and> rpNode s i = Some r' \<and>
      table_view T (rpTable s) i = Some (r, Loaded)) \<and>
    (\<exists>s. replica_steps T False (start_replica db t) s \<and> quiescent s \<and> rpNode s i = None \<and>
      table_view T (rpTable s) i = Some (r, Loaded))"
  using late_reply_outdates[where T = T and t = t and db = db and i = i and r = r and r' = r' and e = e and reply = reply, OF assms(1-7,9)]
    late_reply_resurrects[where T = T and t = t and db = db and i = i and r = r and e = e and e' = e' and reply = reply, OF assms(1-5,7-9)]
  by metis

theorem late_replies_win_witness:
  "\<exists>s. replica_steps groups_T False (start_replica [7 \<mapsto> \<lparr>groupId = 7, groupName = ''red'', groupTags = []\<rparr>] shown7) s \<and>
     quiescent s \<and> rpNode s 7 = None \<and>
     table_view groups_T (rpTable s) 7 = Some (\<lparr>groupId = 7, groupName = ''blue'', groupTags = []\<rparr>, Loaded)"
  using late_replies_win[where T = groups_T and t = shown7 and db = "[7 \<mapsto> \<lparr>groupId = 7, groupName = ''red'', groupTags = []\<rparr>]"
      and i = 7 and r = "\<lparr>groupId = 7, groupName = ''blue'', groupTags = []\<rparr>" and r' = "\<lparr>groupId = 7, groupName = [], groupTags = []\<rparr>"
      and e = "entry7 ModifyRow" and e' = "entry7 DeleteRow" and reply = blue_reply,
      OF polling_group_laws shown7_ok(1,2) _ _ _ entry7_for entry7_for blue_carried]
  by simp

end
