(* ===== verification/ModelsFollow.thy ===== *)
theory ModelsFollow
  imports TableProperties
begin

text \<open>
  Models and the rows of their table.  Every row a model shows is in the table, and every row that has
  been loaded, edited or deleted is shown by every model: only a placeholder of a row that was never
  loaded may be missing.
\<close>

subsection \<open>The invariant\<close>

definition visible :: "('i \<rightharpoonup> 'r \<times> LoadState) \<Rightarrow> 'i set" where
  "visible V = {i. \<exists>r s. V i = Some (r, s) \<and> s \<noteq> Loading \<and> s \<noteq> Stale}"

text \<open>\<open>K\<close> holds ids the models are yet to be told of.\<close>

definition shown :: "'i set \<Rightarrow> ('r, 'i::linorder, 'v) row_type \<Rightarrow> ('r, 'i, 'v) table \<Rightarrow> bool" where
  "shown K T t \<longleftrightarrow> K \<subseteq> dom (table_view T t) \<and>
     (\<forall>m \<in> set (models t). set (modelIds m) \<subseteq> dom (table_view T t) \<and>
        visible (table_view T t) \<subseteq> set (modelIds m) \<union> K)"

lemma visible_simps:
  "visible (V(i := None)) = visible V - {i}"
  "visible (V(i \<mapsto> (r, s))) = (if s = Loading \<or> s = Stale then visible V - {i} else insert i (visible V))"
  by (auto simp: visible_def)

lemma visible_dom: "visible V \<subseteq> dom V"
  by (auto simp: visible_def)

lemma shown_cong:
  "rowList t' = rowList t \<Longrightarrow> rowStates t' = rowStates t \<Longrightarrow> models t' = models t \<Longrightarrow> shown K T t' = shown K T t"
  by (simp add: shown_def table_view_def)

lemma shown_emit [simp]: "shown K T (emit x t) = shown K T t"
  by (rule shown_cong) simp_all

lemma shown_view:
  assumes "shown K T t" "models t' = models t" "dom (table_view T t') = dom (table_view T t)"
    "visible (table_view T t') \<subseteq> visible (table_view T t)"
  shows "shown K T t'"
  using assms(1,3,4) unfolding shown_def assms(2) by blast

lemma shownI:
  assumes "K \<subseteq> dom (table_view T t)" "\<And>m. m \<in> set (models t) \<Longrightarrow> set (modelIds m) \<subseteq> dom (table_view T t)"
    "\<And>m. m \<in> set (models t) \<Longrightarrow> visible (table_view T t) \<subseteq> set (modelIds m) \<union> K"
  shows "shown K T t"
  using assms by (simp add: shown_def)

lemma shownD:
  assumes "shown K T t"
  shows "K \<subseteq> dom (table_view T t)" "m \<in> set (models t) \<Longrightarrow> set (modelIds m) \<subseteq> dom (table_view T t)"
    "m \<in> set (models t) \<Longrightarrow> visible (table_view T t) \<subseteq> set (modelIds m) \<union> K"
  using assms by (simp_all add: shown_def)

lemma shown_notifyUpdate:
  assumes "shown K T t" "table_ok T t" "keys_sorted (getId T) rs" "K \<subseteq> getId T ` set rs"
    "getId T ` set rs \<subseteq> dom (table_view T t)"
  shows "shown {} T (notifyUpdate T rs t)"
proof (rule shownI)
  fix x assume "x \<in> set (models (notifyUpdate T rs t))"
  then obtain m where m: "m \<in> set (models t)" "x = fst (updateRows T rs m)" by (auto simp: notifyUpdate_def)
  have ids: "set (modelIds x) = set (modelIds m) \<union> getId T ` set rs"
    unfolding m(2) by (rule updateRows_ok(2)[OF table_okD(4)[OF assms(2) m(1)] assms(3)])
  show "set (modelIds x) \<subseteq> dom (table_view T (notifyUpdate T rs t))"
    using shownD(2)[OF assms(1) m(1)] assms(5) ids by simp
  show "visible (table_view T (notifyUpdate T rs t)) \<subseteq> set (modelIds x) \<union> {}"
    using shownD(3)[OF assms(1) m(1)] assms(4) unfolding ids notifyUpdate_view by blast
qed simp

lemma shown_deleted_row:
  assumes "shown K T t" "table_ok T t" "i \<notin> K" "table_view T t' = (table_view T t)(i := None)"
    "models t' = map (\<lambda>m. fst (model_deleteRow i m)) (models t)"
  shows "shown K T t'"
proof -
  have "set (modelIds (fst (model_deleteRow i m))) = set (modelIds m) - {i}" if "m \<in> set (models t)" for m
    using model_deleteRow_ok(2)[OF table_okD(4)[OF assms(2) that]] .
  then show ?thesis using assms(1,3-5) by (auto simp: shown_def visible_simps)
qed

lemma shown_deleteRow: "shown K T t \<Longrightarrow> table_ok T t \<Longrightarrow> i \<notin> K \<Longrightarrow> shown K T (deleteRow T i t)"
  by (rule shown_deleted_row) (simp_all add: deleteRow_view deleteRow_models)

lemma shown_deleteBackupRow [simp]: "shown K T (snd (deleteBackupRow T i t)) = shown K T t"
  by (rule shown_cong) simp_all

subsection \<open>The journal\<close>

lemma markStale_models_frame: "models (markStale T now i t) = models t"
  by (auto simp: markStale_def Let_def split_beta split: option.split)

lemma shown_processEntry:
  assumes "shown {} T t" "table_ok T t" "row_laws T"
  shows "shown {} T (processEntry T now e t)"
proof -
  define i where "i = keyOfJournal T (entryKey e)"
  have stale: "shown {} T (markStale T now i t)"
  proof (rule shown_view[OF assms(1) markStale_models_frame])
    show "dom (table_view T (markStale T now i t)) = dom (table_view T t)"
      "visible (table_view T (markStale T now i t)) \<subseteq> visible (table_view T t)"
      unfolding markStale_view[OF assms(2)]
      by (auto simp: stale_entry_def visible_simps visible_def split: option.splits if_splits)
  qed
  have "models (getNew T now i t) = models t" by (simp add: getNew_def Let_def)
  then have "shown {} T (getNew T now i t)"
    using assms(1) getNew_spec(2)[OF assms(3,2)] by (auto simp: shown_def visible_simps)
  with stale shown_deleteRow[OF assms(1,2), of i] show ?thesis using assms(1)
    by (auto simp: processEntry_def Let_def i_def[symmetric] split: entry_type.split)
qed

lemma shown_processJournal:
  assumes "shown {} T t" "table_ok T t" "row_laws T"
  shows "shown {} T (processJournal T now es t)"
  using assms(1,2) unfolding processJournal_def
  by (induction es arbitrary: t) (simp_all add: shown_processEntry processEntry_ok assms(3))

subsection \<open>Rows from the node\<close>

text \<open>A draft that a row of the response settles is not the id of another row of the response.\<close>

definition settles_apart :: "('r, 'i, 'v) row_type \<Rightarrow> 'r list \<Rightarrow> qvariant_map list \<Rightarrow> bool" where
  "settles_apart T rs added \<longleftrightarrow> (\<forall>x \<in> set added. \<forall>r \<in> set rs. matchesRow T r x \<longrightarrow>
     idOfVariant T (qm_get x DraftId) = getId T r \<or> idOfVariant T (qm_get x DraftId) \<notin> getId T ` set rs)"

lemma settles_apartD:
  "settles_apart T rs added \<Longrightarrow> x \<in> set added \<Longrightarrow> r \<in> set rs \<Longrightarrow> matchesRow T r x \<Longrightarrow>
     idOfVariant T (qm_get x DraftId) = getId T r \<or> idOfVariant T (qm_get x DraftId) \<notin> getId T ` set rs"
  unfolding settles_apart_def by blast

lemma settles_apart_mono: "settles_apart T rs added \<Longrightarrow> set added' \<subseteq> set added \<Longrightarrow> settles_apart T rs added'"
  unfolding settles_apart_def by blast

lemma checkPendingInsertion_shown:
  assumes "shown K T t" "table_ok T t" "settles_apart T rs (locallyAddedRows t)" "r \<in> set rs" "K \<subseteq> getId T ` set rs"
  shows "shown K T (checkPendingInsertion T r t) \<and> set (locallyAddedRows (checkPendingInsertion T r t)) \<subseteq> set (locallyAddedRows t)"
proof (cases rule: checkPendingInsertion_cases[of T r t])
  case 1
  with assms show ?thesis by simp
next
  case (2 n d)
  define t1 where "t1 = t\<lparr>locallyAddedRows := remove_at n (locallyAddedRows t)\<rparr>"
  have n: "n < length (locallyAddedRows t)" "matchesRow T r (locallyAddedRows t ! n)"
    using find_index_Some[OF 2(2)] by auto
  then have "locallyAddedRows t ! n \<in> set (locallyAddedRows t)" by simp
  with settles_apartD[OF assms(3) _ assms(4) n(2)] have "d = getId T r \<or> d \<notin> getId T ` set rs"
    unfolding 2(3) .
  then have "d = getId T r \<or> d \<notin> K" using assms(5) by fast
  have "shown K T t1 = shown K T t" by (rule shown_cong) (simp_all add: t1_def)
  moreover have "table_ok T t1" using assms(2) by (simp add: t1_def)
  ultimately have t1: "shown K T t1" "table_ok T t1" using assms(1) by simp_all
  with \<open>d = getId T r \<or> d \<notin> K\<close> have "shown K T (if d \<noteq> getId T r then deleteRow T d t1 else t1)"
    using shown_deleteRow[OF t1] t1(1) by (cases "d = getId T r") simp_all
  then show ?thesis
    using set_remove_at_subset[of n "locallyAddedRows t"]
    unfolding 2(4) Let_def t1_def[symmetric] by (simp add: shown_emit) (simp add: t1_def)
qed

lemma checkOverwrittenEdit_added:
  "set (locallyAddedRows (checkOverwrittenEdit T old s new t)) \<subseteq> set (locallyAddedRows t)"
proof -
  have "set (remove_at n xs) \<subseteq> set xs" for n and xs :: "qvariant_map list" by (rule set_remove_at_subset)
  then show ?thesis
    unfolding checkOverwrittenEdit_def Let_def by (simp split: option.split)
qed

lemma merge_row_shown:
  fixes r
  assumes "shown K T t" "table_ok T t" "settles_apart T rs (locallyAddedRows t)" "r \<in> set rs" "K \<subseteq> getId T ` set rs"
  defines "t' \<equiv> merge_row T r (row_pos T (getId T r) t) t"
  shows "shown (insert (getId T r) K) T t' \<and> set (locallyAddedRows t') \<subseteq> set (locallyAddedRows t)"
proof -
  obtain ev where eq: "t' = (let t1 = (put_row T r t)\<lparr>out := out t @ ev\<rparr> in
      case overwritten T r t of
        Some (old, s) \<Rightarrow> checkOverwrittenEdit T old s r t1
      | None \<Rightarrow> checkPendingInsertion T r t1)"
    using merge_row_eq[of T r t] by (auto simp: t'_def)
  define t1 where "t1 = (put_row T r t)\<lparr>out := out t @ ev\<rparr>"
  have t1: "table_ok T t1" "table_view T t1 = (table_view T t)(getId T r \<mapsto> (r, Loaded))" "models t1 = models t"
    "locallyAddedRows t1 = locallyAddedRows t"
    using assms(2) by (simp_all add: t1_def put_row_ok put_row_view)
  have s1: "shown (insert (getId T r) K) T t1"
    using assms(1) by (auto simp: shown_def t1 visible_simps)
  have t': "t' = (case overwritten T r t of
      Some (old, s) \<Rightarrow> checkOverwrittenEdit T old s r t1 | None \<Rightarrow> checkPendingInsertion T r t1)"
    unfolding eq Let_def t1_def ..
  show ?thesis
  proof (cases "overwritten T r t")
    case None
    then have "t' = checkPendingInsertion T r t1" unfolding t' by simp
    moreover have "insert (getId T r) K \<subseteq> getId T ` set rs" using assms(4,5) by blast
    ultimately show ?thesis
      using checkPendingInsertion_shown[OF s1 t1(1) _ assms(4)] assms(3) t1(4) by metis
  next
    case (Some os)
    obtain old s where os: "os = (old, s)" by (cases os)
    have "shown (insert (getId T r) K) T (checkOverwrittenEdit T old s r t1)"
      using s1 by (subst shown_cong[OF checkOverwrittenEdit_frame])
    moreover have "t' = checkOverwrittenEdit T old s r t1" unfolding t' using Some os by simp
    ultimately show ?thesis using checkOverwrittenEdit_added[of T old s r t1] t1(4) by metis
  qed
qed

lemma merge_rows_shown:
  assumes "shown K T t" "table_ok T t" "keys_sorted (getId T) rs" "rs \<noteq> []" "pos = row_pos T (getId T (hd rs)) t"
    "settles_apart T all (locallyAddedRows t)" "set rs \<subseteq> set all" "K \<subseteq> getId T ` set all"
  shows "shown (getId T ` set rs \<union> K) T (merge_rows T rs pos t)"
  using assms
proof (induction T rs pos t arbitrary: K rule: merge_rows.induct)
  case (2 T r pos t)
  then show ?case using merge_row_shown[OF 2(1,2,6), of r] by simp
next
  case (3 T r r' rs pos t)
  define t1 where "t1 = merge_row T r (row_pos T (getId T r) t) t"
  have pos: "pos = row_pos T (getId T r) t" using 3(6) by simp
  note spec = merge_row_spec[OF 3(3), of r, folded t1_def]
  have less: "getId T r < getId T r'" and sorted: "keys_sorted (getId T) (r' # rs)"
    using 3(4) by (auto simp: keys_sorted_Cons)
  have next_pos: "lower_bound_from pos (getId T) (rowList t1) (getId T r') = row_pos T (getId T r') t1"
    using before_ok_search[OF table_okD(2)[OF spec(1)] spec(2) less] by (simp add: pos row_pos_def)
  have s1: "shown (insert (getId T r) K) T t1" "set (locallyAddedRows t1) \<subseteq> set (locallyAddedRows t)"
    using merge_row_shown[OF 3(2,3,7) _ 3(9), of r] 3(8) by (simp_all add: t1_def)
  have "shown (getId T ` set (r' # rs) \<union> insert (getId T r) K) T (merge_rows T (r' # rs) (row_pos T (getId T r') t1) t1)"
    using 3(1)[of t1 "insert (getId T r) K"] s1 spec(1) sorted 3(8,9) settles_apart_mono[OF 3(7) s1(2)]
    by (simp add: pos[symmetric] t1_def[folded pos] next_pos[unfolded t1_def pos, folded pos])
  then show ?case by (simp add: t1_def[folded pos, symmetric] next_pos Un_commute insert_commute)
qed simp

lemma place_rows_shown:
  assumes "shown {} T t" "table_ok T t" "keys_sorted (getId T) rs" "rs \<noteq> []" "settles_apart T rs (locallyAddedRows t)"
  shows "shown {} T (place_rows T rs t)"
proof -
  define t1 where "t1 = (if row_pos T (getId T (hd rs)) t = length (rowList t) then append_rows T rs t
    else merge_rows T rs (row_pos T (getId T (hd rs)) t) t)"
  have s1: "shown (getId T ` set rs) T t1"
  proof (cases "row_pos T (getId T (hd rs)) t = length (rowList t)")
    case True
    have l: "dom (loaded_map T rs) = getId T ` set rs"
      by (simp add: loaded_map_def dom_map_of_conv_image_fst image_image)
    have "models (append_rows T rs t) = models t" by (simp add: append_rows_def)
    moreover have "visible (V ++ loaded_map T rs) \<subseteq> visible V \<union> getId T ` set rs" for V
      using l by (auto simp: visible_def map_add_def split: option.splits)
    ultimately show ?thesis
      using assms(1) True l append_rows_spec(2)[OF assms(2-4) True] unfolding t1_def shown_def by simp blast
  next
    case False
    then show ?thesis using merge_rows_shown[OF assms(1-4) refl assms(5)] by (simp add: t1_def)
  qed
  have "table_ok T t1" using append_rows_spec(1)[OF assms(2-4)] merge_rows_spec[OF assms(2-4) refl] by (simp add: t1_def)
  from shown_notifyUpdate[OF s1 this assms(3) subset_refl shownD(1)[OF s1]]
  have "shown {} T (notifyUpdate T rs t1)" .
  then show ?thesis by (simp add: place_rows_def Let_def row_search t1_def)
qed

definition reply_rows :: "('r, 'i, 'v) row_type \<Rightarrow> reply \<Rightarrow> 'r list" where
  "reply_rows T reply = (case parseRows (replyBody reply) of
     None \<Rightarrow> [] | Some (rows, nextKey) \<Rightarrow> fromJsonArray (rowFields T) (blankRow T) rows)"

lemma processRowsResponse_shown:
  assumes "shown {} T t" "table_ok T t" "sorted_response T reply" "settles_apart T (reply_rows T reply) (locallyAddedRows t)"
  shows "shown {} T (processRowsResponse T reply n t)"
proof -
  show ?thesis
    using assms
    by (auto simp: processRowsResponse_def sorted_response_def reply_rows_def Let_def fromJsonArray_def
        intro!: place_rows_shown split: option.splits)
qed

subsection \<open>Local edits\<close>

text \<open>The models are told of the rows \<open>rs\<close>, the only ones that may have come into view.\<close>

lemma shown_updated:
  assumes "shown {} T t" "table_ok T t" "keys_sorted (getId T) rs"
    "models t' = map (\<lambda>m. fst (updateRows T rs m)) (models t)"
    "dom (table_view T t') = dom (table_view T t) \<union> getId T ` set rs"
    "visible (table_view T t') \<subseteq> visible (table_view T t) \<union> getId T ` set rs"
  shows "shown {} T t'"
proof (rule shownI)
  fix x assume "x \<in> set (models t')"
  then obtain m where m: "m \<in> set (models t)" "x = fst (updateRows T rs m)" using assms(4) by auto
  have ids: "set (modelIds x) = set (modelIds m) \<union> getId T ` set rs"
    unfolding m(2) by (rule updateRows_ok(2)[OF table_okD(4)[OF assms(2) m(1)] assms(3)])
  show "set (modelIds x) \<subseteq> dom (table_view T t')"
    using shownD(2)[OF assms(1) m(1)] unfolding ids assms(5) by blast
  show "visible (table_view T t') \<subseteq> set (modelIds x) \<union> {}"
    using shownD(3)[OF assms(1) m(1)] assms(6) unfolding ids by blast
qed simp

lemma shown_updated_row:
  assumes "shown {} T t" "table_ok T t" "models t' = map (\<lambda>m. fst (updateRows T [r] m)) (models t)"
    "table_view T t' = (table_view T t)(getId T r \<mapsto> (r', s))"
  shows "shown {} T t'"
  by (rule shown_updated[OF assms(1,2) _ assms(3)]) (auto simp: assms(4) visible_simps keys_sorted_Cons)

lemma draftAddRow_shown:
  assumes "row_laws T" "table_ok T t" "ids_left T t" "shown {} T t"
  shows "shown {} T (draftAddRow T fieldMap t)"
proof (cases "pendingEdits t \<or> draftRow T (fst (fromVariantMap (rowFields T) fieldMap (zeroRow T))) t = None")
  case True
  with assms show ?thesis by (simp add: draftAddRow_refused)
next
  case False
  then obtain r where r: "\<not> pendingEdits t" "draftRow T (fst (fromVariantMap (rowFields T) fieldMap (zeroRow T))) t = Some r"
    by auto
  have "models (draftAddRow T fieldMap t) = map (\<lambda>m. fst (updateRows T [r] m)) (models t)"
    using r by (simp add: draftAddRow_def Let_def notifyUpdate_def)
  from shown_updated_row[OF assms(4,2) this draftAddRow_spec(3)[OF assms(1-3) r]] show ?thesis .
qed

lemma draftEditRow_models:
  assumes "table_ok T t" "table_view T t (idOfVariant T rowId) = Some (r, s)" "editable T (idOfVariant T rowId) changes t"
    "draftEditRow T rowId changes t = Some t'"
  shows "models t' = map (\<lambda>m. fst (updateRows T [edited_row T changes r] m)) (models t)"
proof -
  define p where "p = row_pos T (idOfVariant T rowId) t"
  have found: "row_found T (idOfVariant T rowId) t" using assms(1,2) by (auto simp: row_found_iff)
  have at_p: "rowList t ! p = r" "rowStates t ! p = s"
    using assms(2) found by (simp_all add: table_view_lookup[OF assms(1)] p_def)
  have e: "getId T (edited_row T changes r) = getId T r" "s \<noteq> DraftDelete" "\<not> pendingEdits t"
    using assms(2,3) by (simp_all add: editable_def)
  define m where "m = set_row p (movedRow T r) t"
  have "models m = models t" by (simp add: m_def)
  then show ?thesis
    using assms(4) found e unfolding draftEditRow_def Let_def row_search p_def[symmetric] at_p edited_row_def[symmetric]
      m_def[symmetric]
    by (auto simp: notifyUpdate_def split: if_splits option.splits)
qed

lemma draftEditRow_shown:
  assumes "table_ok T t" "shown {} T t" "edit_keeps_id T rowId changes t" "draftEditRow T rowId changes t = Some t'"
  shows "shown {} T t'"
proof (cases rule: draftEditRow_outcomes[OF assms(1,3,4) refl])
  case 1
  with assms(2) show ?thesis by simp
next
  case (2 r s)
  have id: "idOfVariant T rowId = getId T (edited_row T changes r)"
    using 2 table_view_id[OF assms(1) 2(1)] by (simp add: editable_def)
  have "models t' = map (\<lambda>m. fst (updateRows T [edited_row T changes r] m)) (models t)"
    by (rule draftEditRow_models[OF assms(1) 2 assms(4)])
  moreover have "table_view T t' = (table_view T t)(getId T (edited_row T changes r) \<mapsto> (edited_row T changes r, edited_state s))"
    using draftEditRow_spec(2)[OF assms(1) refl 2 assms(4)] id by simp
  ultimately show ?thesis by (rule shown_updated_row[OF assms(2,1)])
next
  case (3 r s)
  have dom: "dom (table_view T t') = dom (table_view T t)" "visible (table_view T t') = visible (table_view T t)"
    using 3(1) by (auto simp: 3(3) visible_def split: if_splits)
  show ?thesis
    using shownD[OF assms(2)] by (intro shownI) (simp_all add: 3(6) dom)
qed

lemma draftDeleteRow_shown:
  assumes "table_ok T t" "shown {} T t"
  shows "shown {} T (draftDeleteRow T rowId t)"
proof (cases "pendingEdits t \<or> table_view T t (idOfVariant T rowId) = None")
  case True
  with assms show ?thesis by (simp add: draftDeleteRow_refused)
next
  case False
  define i where "i = idOfVariant T rowId"
  from False obtain r s where rs: "table_view T t i = Some (r, s)" "\<not> pendingEdits t" by (auto simp: i_def)
  have found: "row_found T i t" using rs(1) by (auto simp: row_found_iff[OF assms(1)])
  have at_p: "rowList t ! row_pos T i t = r" "rowStates t ! row_pos T i t = s"
    using rs(1) found by (simp_all add: table_view_lookup[OF assms(1)])
  show ?thesis
  proof (cases "s = DraftAdd")
    case True
    define t1 where "t1 = t\<lparr>locallyAddedRows := filter (\<lambda>row. \<not> isDraftOf T rowId row) (locallyAddedRows t)\<rparr>"
    have "table_ok T t1" using assms(1) by (simp add: t1_def)
    moreover have "shown {} T t1 = shown {} T t" by (rule shown_cong) (simp_all add: t1_def)
    moreover have "draftDeleteRow T rowId t = snd (deleteBackupRow T i (deleteRow T i t1))"
      using found rs(2) at_p True unfolding draftDeleteRow_def Let_def i_def[symmetric] row_search by (simp add: t1_def)
    ultimately show ?thesis using assms(2) by (simp add: shown_deleteRow)
  next
    case other: False
    have "models (draftDeleteRow T rowId t) = map (\<lambda>m. fst (updateRows T [r] m)) (models t)"
      using found rs(2) at_p other unfolding draftDeleteRow_def Let_def i_def[symmetric] row_search
      by (simp add: notifyUpdate_def)
    moreover have "table_view T (draftDeleteRow T rowId t) = (table_view T t)(getId T r \<mapsto> (r, DraftDelete))"
      using draftDeleteRow_spec(2)[OF assms(1) i_def rs other] table_view_id[OF assms(1) rs(1)] by simp
    ultimately show ?thesis by (rule shown_updated_row[OF assms(2,1)])
  qed
qed

subsection \<open>Pending edits and resets\<close>

lemma visible_pending: "visible (pending_view K V) \<subseteq> visible V"
proof -
  have "pending_state s \<noteq> Loading \<and> pending_state s \<noteq> Stale \<longleftrightarrow> s \<noteq> Loading \<and> s \<noteq> Stale" for s
    by (cases s) simp_all
  then show ?thesis by (auto simp: visible_def pending_view_def split: option.splits if_splits)
qed

lemma dom_pending_view: "dom (pending_view K V) = dom V"
  by (auto simp: pending_view_def split: option.splits)

lemma pending_fold_models:
  assumes "table_ok T t"
  shows "models (fst (fold (pending_step T) bs (t, us))) = models t \<and>
    getId T ` set (snd (fold (pending_step T) bs (t, us))) \<subseteq> dom (table_view T t) \<union> getId T ` set us"
  using assms
proof (induction bs arbitrary: t us)
  case (Cons b bs)
  define st where "st = pending_step T b (t, us)"
  note step = pending_step_spec[OF Cons.prems, of b us, folded st_def]
  have sub: "getId T ` set (snd st) \<subseteq> dom (table_view T t) \<union> getId T ` set us"
    using row_found_at[of T "getId T b" t] row_found_iff[OF Cons.prems, of "getId T b"]
    by (auto simp: st_def pending_step_def Let_def row_search)
  have dom: "dom (table_view T (fst st)) = dom (table_view T t)" unfolding step(2) by (rule dom_pending_view)
  define g where "g = fold (pending_step T) bs (fst st, snd st)"
  have g: "models (fst g) = models t" "getId T ` set (snd g) \<subseteq> dom (table_view T t) \<union> getId T ` set (snd st)"
    using Cons.IH[OF step(1), of "snd st"] unfolding g_def[symmetric] dom step(5) by simp_all
  have "getId T ` set (snd g) \<subseteq> dom (table_view T t) \<union> getId T ` set us"
    using g(2) sub by (meson Un_least Un_upper1 subset_trans)
  moreover have "fold (pending_step T) (b # bs) (t, us) = g" by (simp add: st_def g_def)
  ultimately show ?case using g(1) by metis
qed simp

lemma markEditsPending_shown:
  assumes "table_ok T t" "shown {} T t"
  shows "shown {} T (markEditsPending T t)"
proof -
  define f where "f = fold (pending_step T) (brows (backups t)) (t, [])"
  have "keys_sorted (getId T) (brows (backups t))" using table_okD(3)[OF assms(1)] by (simp add: backup_ok_def)
  from pending_fold[OF assms(1) this, of "[]"] pending_fold_models[OF assms(1), of "brows (backups t)" "[]"]
  have f: "keys_sorted (getId T) (snd f)" "models (fst f) = models t"
    "getId T ` set (snd f) \<subseteq> dom (table_view T t)" by (simp_all add: f_def)
  have view: "table_view T (markEditsPending T t) = pending_view (getId T ` set (brows (backups t))) (table_view T t)"
    by (rule markEditsPending_spec(2)[OF assms(1)])
  show ?thesis
  proof (rule shown_updated[OF assms(2,1) f(1)])
    show "models (markEditsPending T t) = map (\<lambda>m. fst (updateRows T (snd f) m)) (models t)"
      using f(2) by (simp add: markEditsPending_def f_def[symmetric] Let_def split_beta notifyUpdate_def)
    show "dom (table_view T (markEditsPending T t)) = dom (table_view T t) \<union> getId T ` set (snd f)"
      unfolding view dom_pending_view using f(3) by (simp only: Un_absorb2)
    show "visible (table_view T (markEditsPending T t)) \<subseteq> visible (table_view T t) \<union> getId T ` set (snd f)"
      unfolding view by (rule le_supI1[OF visible_pending])
  qed
qed

lemma dom_restored_view: "dom (restored_view B V) = dom V"
  by (auto simp: restored_view_def split: option.splits)

lemma visible_restored: "visible (restored_view B V) \<subseteq> visible V \<union> dom B"
  by (auto simp: visible_def restored_view_def split: option.splits)

lemma resetEdits_shown:
  assumes "table_ok T t" "shown {} T t" "no_added_backups T 0 t" "resetEdits T t = Inr t'"
  shows "shown {} T t'"
proof -
  from reset_loop_restores[OF assms(1,3)] obtain t1 where t1: "reset_loop T 0 t = Inr t1"
    "backups t1 = backups t" "models t1 = models t"
    "table_view T t1 = restored_view (backup_view (getId T) (backups t)) (table_view T t)"
    by (auto simp: backup_view_def)
  have t': "t' = (notifyUpdate T (brows (backups t1)) (emit LocalChangesReset t1))\<lparr>backups := backup_empty, locallyAddedRows := []\<rparr>"
    using assms(4) t1(1) by (simp add: resetEdits_def Let_def)
  have "table_view T t' = table_view T t1" unfolding t' by (rule table_view_cong) simp_all
  then have view: "table_view T t' = restored_view (backup_view (getId T) (backups t)) (table_view T t)" using t1(4) by simp
  have bdom: "dom (backup_view (getId T) (backups t)) = getId T ` set (brows (backups t))"
    using backup_dom[OF table_okD(3)[OF assms(1)]] by simp
  have sub: "getId T ` set (brows (backups t)) \<subseteq> dom (table_view T t)"
    using assms(3) by (auto simp: no_added_backups_def)
  show ?thesis
  proof (rule shown_updated[OF assms(2,1)])
    show "keys_sorted (getId T) (brows (backups t))" using table_okD(3)[OF assms(1)] by (simp add: backup_ok_def)
    show "models t' = map (\<lambda>m. fst (updateRows T (brows (backups t)) m)) (models t)"
      using t1(2,3) by (simp add: t' notifyUpdate_def)
    show "dom (table_view T t') = dom (table_view T t) \<union> getId T ` set (brows (backups t))"
      unfolding view dom_restored_view using sub by (simp only: Un_absorb2)
    show "visible (table_view T t') \<subseteq> visible (table_view T t) \<union> getId T ` set (brows (backups t))"
      unfolding view bdom[symmetric] by (rule visible_restored)
  qed
qed

subsection \<open>Every reachable table\<close>

text \<open>
  The two restrictions: a reply does not settle a draft under the id of another of its rows, and a
  reset is only asked for when no added row has a backup.
\<close>

fun models_safe :: "('r, 'i::linorder, 'v) row_type \<Rightarrow> 'i op \<Rightarrow> ('r, 'i, 'v) table \<Rightarrow> bool" where
  "models_safe T (OpRowReply i reply) t = settles_apart T (reply_rows T reply) (locallyAddedRows t)"
| "models_safe T (OpRowsReply n reply) t = settles_apart T (reply_rows T reply) (locallyAddedRows t)"
| "models_safe T OpResetEdits t = no_added_backups T 0 t"
| "models_safe T _ t = True"

lemma new_table_shown: "shown {} T (new_table T sc)"
  by (simp add: shown_def new_table_def)

lemma allRows_shown:
  assumes "table_ok T t" "shown {} T t"
  shows "shown {} T (allRows T now k t)"
proof -
  obtain m where m: "models (allRows T now k t) = models t @ [m]" "modelIds m = map (getId T) (rowList t)"
    "table_view T (allRows T now k t) = table_view T t"
    using allRows_spec[OF assms(1), where now = now and k = k] by metis
  have ids: "set (modelIds m) = dom (table_view T t)" using m(2) dom_table_view[OF assms(1)] by simp
  show ?thesis
  proof (rule shownI)
    fix x assume "x \<in> set (models (allRows T now k t))"
    then have "x \<in> set (models t) \<or> x = m" using m(1) by auto
    then show "set (modelIds x) \<subseteq> dom (table_view T (allRows T now k t))"
      "visible (table_view T (allRows T now k t)) \<subseteq> set (modelIds x) \<union> {}"
      using shownD(2,3)[OF assms(2), of x] ids visible_dom[of "table_view T t"] unfolding m(3) by (elim disjE; simp)+
  qed simp
qed

lemma apply_op_shown:
  assumes "row_laws T" "table_ok T t" "shown {} T t" "op_ok T c t" "models_safe T c t" "apply_op T c t = Inr t'"
  shows "shown {} T t'"
proof (cases c)
  case (OpDraftEditRow rowId changes)
  with assms draftEditRow_shown[OF assms(2,3)] show ?thesis by (auto split: option.splits)
next
  case OpResetEdits
  with assms resetEdits_shown[OF assms(2,3)] show ?thesis by (auto split: sum.splits)
next
  case (OpRowReply i reply)
  define t1 where "t1 = t\<lparr>loadingRows := (loadingRows t)(i := None)\<rparr>"
  have t1: "table_ok T t1" "locallyAddedRows t1 = locallyAddedRows t" using assms(2) by (simp_all add: t1_def table_ok_def)
  have "shown {} T t1 = shown {} T t" by (rule shown_cong) (simp_all add: t1_def)
  with assms t1 OpRowReply show ?thesis
    by (auto simp: rowReply_def t1_def[symmetric] processRowsResponse_shown)
next
  case (OpRowsReply n reply)
  with assms show ?thesis by (auto simp: rowsReply_def processRowsResponse_shown)
next
  case OpFullRefresh
  with assms show ?thesis by (auto simp: fullRefresh_def)
next
  case (OpUpdateScope sc)
  have "rowList t' = rowList t" "rowStates t' = rowStates t" "models t' = models t"
    using OpUpdateScope assms(6) by (auto simp: updateScope_def Let_def fullRefresh_def)
  from shown_cong[OF this] assms(3) show ?thesis by simp
next
  case (OpModelDestroyed k)
  then have t': "table_view T t' = table_view T t" "models t' = filter (\<lambda>m. modelKey m \<noteq> k) (models t)"
    using assms(6) by (auto simp: modelDestroyed_def table_view_def)
  show ?thesis using assms(3) unfolding shown_def t' by (auto simp del: visible_simps)
qed (use assms in \<open>auto simp: shown_processJournal allRows_shown draftAddRow_shown draftDeleteRow_shown markEditsPending_shown\<close>)

lemma reachable_shown:
  "reachable T (models_safe T) sc t \<Longrightarrow> row_laws T \<Longrightarrow> shown {} T t"
  by (induction rule: reachable.induct) (auto simp: new_table_shown intro: apply_op_shown reachable_ok)

context row_laws
begin

lemma always_shown: "reachable T (models_safe T) sc t \<Longrightarrow> shown {} T t"
  using row_laws_axioms by (rule reachable_shown[rotated])

end

subsection \<open>The property\<close>

text \<open>
  C4. A model shows its table, for every row type that obeys the laws, as members and polling groups
  do: in every table reached from a new one, each model's rows are rows of the table, and every row of
  the table that is loaded or carries a local edit is a row of each model, in whatever order the models
  were made and told.  Besides \<open>op_ok\<close> (replies in key order, draft ids left, no edit that empties the
  row's id), \<open>models_safe\<close> is asked of the operations: a reply does not settle a draft under the id of
  another row it brings, and no reset while an added row has a backup.
\<close>

theorem models_show_rows:
  assumes "row_laws T" "reachable T (models_safe T) sc t" "m \<in> set (models t)"
  shows "set (modelIds m) \<subseteq> dom (table_view T t) \<and>
    (\<forall>i r s. table_view T t i = Some (r, s) \<longrightarrow> s \<noteq> Loading \<longrightarrow> s \<noteq> Stale \<longrightarrow> i \<in> set (modelIds m))"
  using shownD(2,3)[OF reachable_shown[OF assms(2,1)] assms(3)] by (auto simp: visible_def)

text \<open>A model created before the rows arrived, then a draft.\<close>

definition model7 :: "(PollingGroup, uint64, size_field) table" where
  "model7 = rowsReply groups_T 0 \<lparr>replyFailed = False, replyBody = group7_json\<rparr>
     (allRows groups_T 0 0 (new_table groups_T ''1''))"

definition model7_draft :: "(PollingGroup, uint64, size_field) table" where
  "model7_draft = draftAddRow groups_T [(''name'', QStr ''blue'')] model7"

lemma model7_rows: "rowList model7 = [\<lparr>groupId = 7, groupName = ''red'', groupTags = []\<rparr>]"
  "rowStates model7 = [Loaded]" "pendingEdits model7 = False"
  by code_simp+

lemma model7_reachable: "reachable groups_T (models_safe groups_T) ''1'' model7_draft"
proof -
  have no_drafts: "locallyAddedRows (allRows groups_T 0 0 (new_table groups_T ''1'')) = []" by code_simp
  have "reachable groups_T (models_safe groups_T) ''1'' (allRows groups_T 0 0 (new_table groups_T ''1''))"
    by (rule reachable.step[OF reachable.created, of _ "OpAllRows 0 0"]) simp_all
  then have "reachable groups_T (models_safe groups_T) ''1'' model7"
    unfolding model7_def
    by (rule reachable.step[of _ _ _ _ "OpRowsReply 0 \<lparr>replyFailed = False, replyBody = group7_json\<rparr>"])
      (simp_all add: sorted7 settles_apart_def no_drafts)
  then show ?thesis
    unfolding model7_draft_def
    by (rule reachable.step[of _ _ _ _ "OpDraftAddRow [(''name'', QStr ''blue'')]"])
      (simp_all add: ids_left_def model7_rows BASE_DRAFT_ID_def)
qed

lemma model7_models: "map modelIds (models model7_draft) = [[7, BASE_DRAFT_ID]]"
  by code_simp

theorem models_show_rows_witness:
  "\<exists>m \<in> set (models model7_draft). set (modelIds m) = {7, BASE_DRAFT_ID} \<and>
     {7, BASE_DRAFT_ID} \<subseteq> dom (table_view groups_T model7_draft)"
proof -
  have "[7, BASE_DRAFT_ID] \<in> modelIds ` set (models model7_draft)"
    unfolding set_map[symmetric] model7_models by (simp only: list.set insertI1)
  then obtain m where m: "m \<in> set (models model7_draft)" "modelIds m = [7, BASE_DRAFT_ID]" by (elim imageE) metis
  have ids: "set (modelIds m) = {7, BASE_DRAFT_ID}" unfolding m(2) by (simp only: list.set)
  have "set (modelIds m) \<subseteq> dom (table_view groups_T model7_draft)"
    by (rule conjunct1[OF models_show_rows[OF polling_group_laws model7_reachable m(1)]])
  then show ?thesis unfolding ids by (intro bexI[OF _ m(1)] conjI ids)
qed

end
