(* ===== verification/EditJourney.thy ===== *)
theory EditJourney
  imports TableProperties
begin

text \<open>
  The journey of a local edit: drafted by the user, marked pending when its transaction is sent, and
  answered by the journal and the node.  Each step is a lemma over what the table holds; the properties
  put the steps together.
\<close>

subsection \<open>What a table holds\<close>

text \<open>The rows \<open>V\<close>, the unedited rows kept aside \<open>B\<close>, and the lock \<open>p\<close>.\<close>

definition holds ::
  "('r, 'i::linorder, 'v) row_type \<Rightarrow> ('r, 'i, 'v) table \<Rightarrow> ('i \<rightharpoonup> 'r \<times> LoadState) \<Rightarrow> ('i \<rightharpoonup> 'r \<times> LoadState) \<Rightarrow> bool \<Rightarrow> bool"
  where
  "holds T t V B p \<longleftrightarrow>
     table_ok T t \<and> table_view T t = V \<and> backup_view (getId T) (backups t) = B \<and> pendingEdits t = p"

lemma holdsD:
  assumes "holds T t V B p"
  shows "table_ok T t" "table_view T t = V" "backup_view (getId T) (backups t) = B" "pendingEdits t = p"
  using assms by (simp_all add: holds_def)

lemma holds_cong:
  "rowList t' = rowList t \<Longrightarrow> rowStates t' = rowStates t \<Longrightarrow> models t' = models t \<Longrightarrow> backups t' = backups t \<Longrightarrow>
     pendingEdits t' = pendingEdits t \<Longrightarrow> holds T t' V B p = holds T t V B p"
  by (simp add: holds_def table_ok_def table_view_def)

lemma holds_emit [simp]: "holds T (emit e t) V B p = holds T t V B p"
  by (simp add: holds_def)

lemma holds_notify: "holds T t V B p \<Longrightarrow> keys_sorted (getId T) rs \<Longrightarrow> holds T (notifyUpdate T rs t) V B p"
  by (simp add: holds_def notifyUpdate_ok)

lemma holds_state: "holds T t V B p \<Longrightarrow> V i = Some (r, s) \<Longrightarrow>
    row_found T i t \<and> rowList t ! row_pos T i t = r \<and> rowStates t ! row_pos T i t = s \<and> getId T r = i"
  using table_view_lookup[of T t i] table_view_id[of T t i r s] by (auto simp: holds_def split: if_splits)

text \<open>Dropping the backup of a row: the lock goes with the last one.\<close>

lemma holds_deleteBackupRow:
  assumes "holds T t V B p"
  shows "holds T (snd (deleteBackupRow T i t)) V (B(i := None)) (p \<and> B(i := None) \<noteq> Map.empty)"
proof -
  have ok: "table_ok T (snd (deleteBackupRow T i t))" using holdsD(1)[OF assms] by simp
  have bv: "backup_view (getId T) (backups (snd (deleteBackupRow T i t))) = B(i := None)"
    using deleteBackupRow_backup_view[OF holdsD(1)[OF assms]] holdsD(3)[OF assms] by simp
  have "backup_isEmpty (backups (snd (deleteBackupRow T i t))) \<longleftrightarrow> B(i := None) = Map.empty"
    using backup_isEmpty_iff[OF ok] bv by simp
  then show ?thesis
    using ok bv holdsD(2,4)[OF assms] by (simp add: holds_def deleteBackupRow_pending)
qed

subsection \<open>Drafts become pending\<close>

text \<open>A draft of the only edited row, and what sending the transaction makes of it.\<close>

lemma marked_pending:
  assumes "holds T t (V(i \<mapsto> (x, s))) [i \<mapsto> b] False"
  shows "holds T (markEditsPending T t) (V(i \<mapsto> (x, pending_state s))) [i \<mapsto> b] True"
proof -
  note ok = holdsD(1)[OF assms]
  have "getId T ` set (brows (backups t)) = {i}"
    using backup_dom[OF table_okD(3)[OF ok]] holdsD(3)[OF assms] by auto
  then have "table_view T (markEditsPending T t) = V(i \<mapsto> (x, pending_state s))"
    using markEditsPending_spec(2)[OF ok] holdsD(2)[OF assms]
    by (auto simp: pending_view_def fun_eq_iff split: option.splits)
  moreover have "\<not> backup_isEmpty (backups t)" using backup_isEmpty_iff[OF ok] holdsD(3)[OF assms] by auto
  ultimately show ?thesis
    using markEditsPending_spec(1,3,4)[OF ok] holdsD(3)[OF assms] by (simp add: holds_def)
qed

lemma drafted_edit:
  assumes "holds T t V Map.empty False" "i = idOfVariant T rowId" "V i = Some (r, Loaded)"
    "editable T i changes t" "draftEditRow T rowId changes t = Some t'"
  shows "holds T t' (V(i \<mapsto> (edited_row T changes r, DraftEdit))) [i \<mapsto> (r, Loaded)] False"
proof -
  note ok = holdsD(1)[OF assms(1)]
  have view: "table_view T t i = Some (r, Loaded)" using holdsD(2)[OF assms(1)] assms(3) by simp
  note spec = draftEditRow_spec[OF ok assms(2) view assms(4,5)]
  have "getId T r = i" using table_view_id[OF ok view] .
  then have "backup_view (getId T) (backups t') = [i \<mapsto> (r, Loaded)]"
    using spec(3) holdsD(3)[OF assms(1)] table_okD(3)[OF ok] by (simp add: backup_save_view)
  then show ?thesis
    using spec(1,2,4) holdsD(2,4)[OF assms(1)] by (simp add: holds_def edited_state_def)
qed

lemma drafted_deletion:
  assumes "holds T t V Map.empty False" "i = idOfVariant T rowId" "V i = Some (r, Loaded)"
  shows "holds T (draftDeleteRow T rowId t) (V(i \<mapsto> (r, DraftDelete))) [i \<mapsto> (r, Loaded)] False"
proof -
  note ok = holdsD(1)[OF assms(1)]
  have view: "table_view T t i = Some (r, Loaded)" using holdsD(2)[OF assms(1)] assms(3) by simp
  have unlocked: "\<not> pendingEdits t" using holdsD(4)[OF assms(1)] by simp
  note spec = draftDeleteRow_spec[OF ok assms(2) view unlocked]
  have "getId T r = i" using table_view_id[OF ok view] .
  then have "backup_view (getId T) (backups (draftDeleteRow T rowId t)) = [i \<mapsto> (r, Loaded)]"
    using spec(3) holdsD(3)[OF assms(1)] table_okD(3)[OF ok] by (simp add: backup_save_view)
  then show ?thesis
    using spec(1,2,4) holdsD(2,4)[OF assms(1)] by (simp add: holds_def)
qed

subsection \<open>The journal and the reply\<close>

definition names_row :: "('r, 'i, 'v) row_type \<Rightarrow> ('r, 'i, 'v) table \<Rightarrow> entry_type \<Rightarrow> 'i \<Rightarrow> journal_entry \<Rightarrow> bool" where
  "names_row T t k i e \<longleftrightarrow> entryTable e = rowTableName T \<and> number (unat (entryScope e)) = scope t \<and>
     entryType e = k \<and> keyOfJournal T (entryKey e) = i"

text \<open>A pending row is asked for again and stays as it is.\<close>

lemma journal_asks_for_pending:
  assumes "holds T t V B p" "V i = Some (r, s)" "s \<in> {PendingEdit, PendingDelete}" "names_row T t ModifyRow i e"
  shows "holds T (processEntry T now e t) V B p" "i \<in> dom (loadingRows (processEntry T now e t))"
proof -
  have eq: "processEntry T now e t = refreshRow T now i t"
    using assms(3,4) holds_state[OF assms(1,2)]
    by (auto simp: processEntry_def names_row_def Let_def markStale_def row_search)
  show "holds T (processEntry T now e t) V B p"
    unfolding eq using assms(1) by (subst holds_cong[of _ t]) simp_all
  show "i \<in> dom (loadingRows (processEntry T now e t))"
    unfolding eq by (auto simp: refreshRow_def rowIsLoading_def Let_def emit_def split: option.split)
qed

lemma journal_deletes_pending:
  assumes "holds T t V B p" "V i = Some (r, s)" "names_row T t DeleteRow i e"
  shows "holds T (processEntry T now e t) (V(i := None))
     (if drops_backup s then B(i := None) else B) (p \<and> (drops_backup s \<longrightarrow> B(i := None) \<noteq> Map.empty))"
proof -
  note ok = holdsD(1)[OF assms(1)]
  have eq: "processEntry T now e t = deleteRow T i t"
    using assms(3) by (simp add: processEntry_def names_row_def Let_def)
  have ok': "table_ok T (deleteRow T i t)" using ok by simp
  have st: "row_found T i t" "rowStates t ! row_pos T i t = s" using holds_state[OF assms(1,2)] by simp_all
  have b: "backup_view (getId T) (snd (backup_remove (getId T) i (backups t))) = B(i := None)"
    "backup_ok (getId T) (snd (backup_remove (getId T) i (backups t)))"
    using table_okD(3)[OF ok] holdsD(3)[OF assms(1)] by (simp_all add: backup_remove_view backup_remove_ok)
  show ?thesis unfolding eq
    using ok' st b holdsD[OF assms(1)]
    by (simp add: holds_def deleteRow_view deleteRow_backups deleteRow_pending backup_isEmpty_view)
qed

text \<open>A reply that brings one row.\<close>

definition brings :: "('r, 'i, 'v) row_type \<Rightarrow> reply \<Rightarrow> 'r \<Rightarrow> bool" where
  "brings T reply r \<longleftrightarrow> \<not> replyFailed reply \<and>
     (case parseRows (replyBody reply) of
        None \<Rightarrow> False | Some (rows, _) \<Rightarrow> fromJsonArray (rowFields T) (blankRow T) rows = [r])"

lemma one_row_reply:
  fixes t i
  assumes "brings T reply r" "row_found T (getId T r) t"
  defines "ts \<equiv> t\<lparr>loadingRows := (loadingRows t)(i := None)\<rparr>"
  shows "rowReply T i reply t = notifyUpdate T [r] (merge_row T r (row_pos T (getId T r) ts) ts)"
proof -
  obtain rows nextKey where p: "parseRows (replyBody reply) = Some (rows, nextKey)"
    "fromJsonArray (rowFields T) (blankRow T) rows = [r]" "\<not> replyFailed reply" "rows \<noteq> []"
    using assms(1) by (auto simp: brings_def fromJsonArray_def split: option.splits)
  have "row_pos T (getId T r) ts < length (rowList ts)"
    using row_found_at(1)[OF assms(2)] by (simp add: ts_def row_pos_def)
  moreover have "\<not> length rows < 1" using p(4) by (cases rows) simp_all
  ultimately show ?thesis
    using p by (simp add: rowReply_def ts_def[symmetric] processRowsResponse_def Let_def place_rows_def row_search)
qed

lemma holds_put_row:
  assumes "holds T t V B p"
  shows "holds T ((put_row T r t)\<lparr>out := xs\<rparr>) (V(getId T r \<mapsto> (r, Loaded))) B p"
proof -
  have "holds T (put_row T r t) (V(getId T r \<mapsto> (r, Loaded))) B p"
    using assms by (auto simp: holds_def put_row_ok put_row_view)
  then show ?thesis by (subst holds_cong[of _ "put_row T r t"]) simp_all
qed

lemma reply_settles:
  assumes "holds T t V [i \<mapsto> b] True" "V i = Some (old, s)" "s \<in> {PendingEdit, PendingDelete}"
    "brings T reply r" "getId T r = i"
  shows "holds T (rowReply T i reply t) (V(i \<mapsto> (r, Loaded))) Map.empty False"
    and "s = PendingEdit \<Longrightarrow>
      sigPendingEditSettled (toVariantMap (rowFields T) old) (toVariantMap (rowFields T) r) \<in> set (out (rowReply T i reply t))"
proof -
  define ts where "ts = t\<lparr>loadingRows := (loadingRows t)(i := None)\<rparr>"
  have ts: "holds T ts V [i \<mapsto> b] True"
    using assms(1) by (subst holds_cong[of _ t]) (simp_all add: ts_def)
  note st = holds_state[OF assms(1,2)] and st' = holds_state[OF ts assms(2)]
  have eq: "rowReply T i reply t = notifyUpdate T [r] (merge_row T r (row_pos T (getId T r) ts) ts)"
    using one_row_reply[OF assms(4)] st assms(5) by (simp add: ts_def)
  have over: "overwritten T r ts = Some (old, s)" using st' assms(3,5) by (auto simp: overwritten_def Let_def)
  obtain ev where m: "merge_row T r (row_pos T (getId T r) ts) ts =
      checkOverwrittenEdit T old s r ((put_row T r ts)\<lparr>out := out ts @ ev\<rparr>)"
    using merge_row_eq[of T r ts] over by (auto simp: Let_def)
  define t1 where "t1 = (put_row T r ts)\<lparr>out := out ts @ ev\<rparr>"
  have t1: "holds T t1 (V(i \<mapsto> (r, Loaded))) [i \<mapsto> b] True"
    using holds_put_row[OF ts, where r = r and xs = "out ts @ ev"] unfolding t1_def assms(5) .
  have old: "getId T old = i" using st by simp
  obtain e1 e2 where c: "checkOverwrittenEdit T old s r t1 = snd (deleteBackupRow T i (emit e2 (emit e1 t1)))"
    "s = PendingEdit \<Longrightarrow> e2 = sigPendingEditSettled (toVariantMap (rowFields T) old) (toVariantMap (rowFields T) r)"
    using assms(3) old by (cases "s = PendingEdit") (auto simp: checkOverwrittenEdit_def Let_def)
  have "holds T (checkOverwrittenEdit T old s r t1) (V(i \<mapsto> (r, Loaded))) Map.empty False"
    unfolding c(1) using holds_deleteBackupRow[of T "emit e2 (emit e1 t1)" _ _ _ i] t1 by fastforce
  then show "holds T (rowReply T i reply t) (V(i \<mapsto> (r, Loaded))) Map.empty False"
    unfolding eq m t1_def[symmetric] by (rule holds_notify) (simp add: keys_sorted_Cons)
  have "e2 \<in> set (out (checkOverwrittenEdit T old s r t1))"
    unfolding c(1) by (simp add: deleteBackupRow_def Let_def split_beta emit_def)
  then show "sigPendingEditSettled (toVariantMap (rowFields T) old) (toVariantMap (rowFields T) r) \<in> set (out (rowReply T i reply t))"
    if "s = PendingEdit"
    unfolding eq m t1_def[symmetric] using that c(2) by (simp add: notifyUpdate_def notifyModels_def)
qed

subsection \<open>Added rows\<close>

lemma drafted_addition:
  assumes "row_laws T" "holds T t V Map.empty False" "ids_left T t" "locallyAddedRows t = []"
    "draftRow T (fst (fromVariantMap (rowFields T) fieldMap (zeroRow T))) t = Some x" "getId T x = d"
  shows "holds T (draftAddRow T fieldMap t) (V(d \<mapsto> (x, DraftAdd))) [d \<mapsto> (x, DraftAdd)] False"
    and "locallyAddedRows (draftAddRow T fieldMap t) = [qm_insert DraftId (variantOfId T d) fieldMap]"
    and "V d = None"
proof -
  note ok = holdsD(1)[OF assms(2)]
  have unlocked: "\<not> pendingEdits t" using holdsD(4)[OF assms(2)] by simp
  note spec = draftAddRow_spec[OF assms(1) ok assms(3) unlocked assms(5)]
  have "backup_view (getId T) (backups (draftAddRow T fieldMap t)) = [d \<mapsto> (x, DraftAdd)]"
    using spec(4) holdsD(3)[OF assms(2)] table_okD(3)[OF ok] assms(6) by (simp add: backup_save_view)
  moreover have "pendingEdits (draftAddRow T fieldMap t) = False"
    using unlocked assms(5) by (simp add: draftAddRow_def Let_def)
  ultimately show "holds T (draftAddRow T fieldMap t) (V(d \<mapsto> (x, DraftAdd))) [d \<mapsto> (x, DraftAdd)] False"
    using spec(1,3) holdsD(2)[OF assms(2)] assms(6) by (simp add: holds_def)
  show "locallyAddedRows (draftAddRow T fieldMap t) = [qm_insert DraftId (variantOfId T d) fieldMap]"
    using spec(5) assms(4,6) by simp
  show "V d = None" using spec(2) holdsD(2)[OF assms(2)] assms(6) by simp
qed

lemma markEditsPending_added [simp]: "locallyAddedRows (markEditsPending T t) = locallyAddedRows t"
proof -
  have step: "locallyAddedRows (fst (pending_step T b tu)) = locallyAddedRows (fst tu)" for b tu
    by (simp add: pending_step_def Let_def split_beta)
  have "locallyAddedRows (fst (fold (pending_step T) bs tu)) = locallyAddedRows (fst tu)" for bs tu
    by (induction bs arbitrary: tu) (simp_all add: step)
  then show ?thesis by (simp add: markEditsPending_def Let_def split_beta)
qed

lemma journal_brings_new:
  assumes "row_laws T" "holds T t V B p" "V j = None" "names_row T t AddRow j e"
  shows "holds T (processEntry T now e t) (V(j \<mapsto> (setId T j (blankRow T), Loading))) B p"
    and "j \<in> dom (loadingRows (processEntry T now e t))"
    and "locallyAddedRows (processEntry T now e t) = locallyAddedRows t"
proof -
  have eq: "processEntry T now e t = getNew T now j t"
    using assms(4) by (simp add: processEntry_def names_row_def Let_def)
  have fr: "backups (getNew T now j t) = backups t" "pendingEdits (getNew T now j t) = pendingEdits t"
    "locallyAddedRows (getNew T now j t) = locallyAddedRows t"
    "loadingRows (getNew T now j t) = loadingRows (refreshRow T now j t)"
    by (simp_all add: getNew_def Let_def)
  show "holds T (processEntry T now e t) (V(j \<mapsto> (setId T j (blankRow T), Loading))) B p"
    using getNew_spec[OF assms(1) holdsD(1)[OF assms(2)], of now j] holdsD[OF assms(2)] assms(3) fr
    by (auto simp: eq holds_def domIff)
  show "locallyAddedRows (processEntry T now e t) = locallyAddedRows t" by (simp add: eq fr)
  show "j \<in> dom (loadingRows (processEntry T now e t))"
    unfolding eq fr by (auto simp: refreshRow_def rowIsLoading_def Let_def emit_def split: option.split)
qed

text \<open>The reply to a new row, with one pending addition of the fields \<open>f\<close>.\<close>

lemma reply_to_new:
  assumes "holds T t V [d \<mapsto> b] True" "V j = Some (blank, Loading)" "V d = Some (x, PendingAdd)" "d \<noteq> j"
    "brings T reply r" "getId T r = j" "locallyAddedRows t = [f]" "idOfVariant T (qm_get f DraftId) = d"
  shows "matchesRow T r f \<Longrightarrow> holds T (rowReply T j reply t) (V(j \<mapsto> (r, Loaded), d := None)) Map.empty False \<and>
      locallyAddedRows (rowReply T j reply t) = []"
    and "\<not> matchesRow T r f \<Longrightarrow> holds T (rowReply T j reply t) (V(j \<mapsto> (r, Loaded))) [d \<mapsto> b] True \<and>
      locallyAddedRows (rowReply T j reply t) = [f]"
proof -
  define ts where "ts = t\<lparr>loadingRows := (loadingRows t)(j := None)\<rparr>"
  have ts: "locallyAddedRows ts = [f]" "holds T ts V [d \<mapsto> b] True = holds T t V [d \<mapsto> b] True"
    by (simp add: ts_def assms(7), intro holds_cong) (simp_all add: ts_def)
  then have ts: "holds T ts V [d \<mapsto> b] True" "locallyAddedRows ts = [f]" using assms(1) by simp_all
  note st = holds_state[OF assms(1,2)] and st' = holds_state[OF ts(1) assms(2)]
  have eq: "rowReply T j reply t = notifyUpdate T [r] (merge_row T r (row_pos T (getId T r) ts) ts)"
    using one_row_reply[OF assms(5)] st assms(6) by (simp add: ts_def)
  have over: "overwritten T r ts = None" using st' assms(6) by (auto simp: overwritten_def Let_def)
  obtain ev where m: "merge_row T r (row_pos T (getId T r) ts) ts =
      checkPendingInsertion T r ((put_row T r ts)\<lparr>out := out ts @ ev\<rparr>)"
    using merge_row_eq[of T r ts] over by (auto simp: Let_def)
  define t1 where "t1 = (put_row T r ts)\<lparr>out := out ts @ ev\<rparr>"
  have t1: "holds T t1 (V(j \<mapsto> (r, Loaded))) [d \<mapsto> b] True" "locallyAddedRows t1 = [f]"
    using holds_put_row[OF ts(1), where r = r and xs = "out ts @ ev"] ts(2) unfolding assms(6) by (simp_all add: t1_def)
  note eq = eq[unfolded m t1_def[symmetric]]
  have idx: "find_index (matchesRow T r) [f] = (if matchesRow T r f then Some 0 else None)"
    by (simp add: find_index_def Let_def)
  show "holds T (rowReply T j reply t) (V(j \<mapsto> (r, Loaded))) [d \<mapsto> b] True \<and>
      locallyAddedRows (rowReply T j reply t) = [f]" if "\<not> matchesRow T r f"
  proof -
    have "checkPendingInsertion T r t1 = t1"
      using that by (simp add: checkPendingInsertion_def t1(2) idx)
    then show ?thesis unfolding eq using holds_notify[OF t1(1), of "[r]"] t1(2) by (simp add: keys_sorted_Cons)
  qed
  show "holds T (rowReply T j reply t) (V(j \<mapsto> (r, Loaded), d := None)) Map.empty False \<and>
      locallyAddedRows (rowReply T j reply t) = []" if "matchesRow T r f"
  proof -
    define t2 where "t2 = t1\<lparr>locallyAddedRows := []\<rparr>"
    have t2: "holds T t2 (V(j \<mapsto> (r, Loaded))) [d \<mapsto> b] True"
      using t1(1) by (subst holds_cong[of _ t1]) (simp_all add: t2_def)
    note ok = holdsD(1)[OF t2]
    have "(V(j \<mapsto> (r, Loaded))) d = Some (x, PendingAdd)" using assms(3,4) by simp
    from holds_state[OF t2 this] have sd: "rowStates t2 ! row_pos T d t2 = PendingAdd" by simp
    have t3: "holds T (deleteRow T d t2) (V(j \<mapsto> (r, Loaded), d := None)) [d \<mapsto> b] True"
      using sd holdsD[OF t2]
      by (simp add: holds_def deleteRow_view deleteRow_backups deleteRow_pending drops_backup_def isDraft_def)
    define t4 where "t4 = emit (sigPendingEditSettled (qm_remove DraftId f) (toVariantMap (rowFields T) r))
        (emit (PendingAddSettled d r) (deleteRow T d t2))"
    have t4: "holds T t4 (V(j \<mapsto> (r, Loaded), d := None)) [d \<mapsto> b] True" using t3 by (simp add: t4_def)
    have "checkPendingInsertion T r t1 = snd (deleteBackupRow T d t4)"
      using that holdsD(4)[OF t1(1)] assms(4,6,8)
      by (simp add: checkPendingInsertion_def t1(2) idx Let_def t4_def t2_def remove_at_def)
    moreover have "holds T (snd (deleteBackupRow T d t4)) (V(j \<mapsto> (r, Loaded), d := None)) Map.empty False"
      using holds_deleteBackupRow[OF t4, of d] by simp
    moreover have "locallyAddedRows (snd (deleteBackupRow T d t4)) = []" by (simp add: t4_def t2_def)
    ultimately show ?thesis unfolding eq
      using holds_notify[of T "snd (deleteBackupRow T d t4)" _ _ _ "[r]"] by (simp add: keys_sorted_Cons)
  qed
qed

subsection \<open>The properties\<close>

text \<open>
  C12. An edit comes back from the chain: in a table without edits, draft an edit of a loaded row and
  mark it pending; the row shows the new contents, is kept aside as it was, and the table is locked.
  The journal entry that modifies the row leaves it as it is and asks the node for it; the answer,
  whatever it brings for the row, loads it, announces the edit with both contents, drops the backup
  and unlocks the table.  No other row changes in all of this.
\<close>

theorem pending_edit_settles:
  fixes now :: int
  assumes "holds T t V Map.empty False" "i = idOfVariant T rowId" "V i = Some (r, Loaded)"
    "editable T i changes t" "draftEditRow T rowId changes t = Some t1"
    "names_row T (markEditsPending T t1) ModifyRow i e" "brings T reply r'" "getId T r' = i"
  defines "t2 \<equiv> markEditsPending T t1"
  defines "t3 \<equiv> processEntry T now e t2"
  defines "t4 \<equiv> rowReply T i reply t3"
  shows "holds T t2 (V(i \<mapsto> (edited_row T changes r, PendingEdit))) [i \<mapsto> (r, Loaded)] True \<and>
    holds T t3 (V(i \<mapsto> (edited_row T changes r, PendingEdit))) [i \<mapsto> (r, Loaded)] True \<and> i \<in> dom (loadingRows t3) \<and>
    holds T t4 (V(i \<mapsto> (r', Loaded))) Map.empty False \<and>
    sigPendingEditSettled (toVariantMap (rowFields T) (edited_row T changes r)) (toVariantMap (rowFields T) r') \<in> set (out t4)"
proof -
  let ?V = "V(i \<mapsto> (edited_row T changes r, PendingEdit))"
  have t2: "holds T t2 ?V [i \<mapsto> (r, Loaded)] True"
    using marked_pending[OF drafted_edit[OF assms(1-5)]] by (simp add: t2_def)
  have at_i: "?V i = Some (edited_row T changes r, PendingEdit)" "PendingEdit \<in> {PendingEdit, PendingDelete}" by simp_all
  have t3: "holds T t3 ?V [i \<mapsto> (r, Loaded)] True" "i \<in> dom (loadingRows t3)"
    unfolding t3_def by (rule journal_asks_for_pending[OF t2 at_i assms(6)[folded t2_def]])+
  have "holds T t4 (?V(i \<mapsto> (r', Loaded))) Map.empty False"
    unfolding t4_def by (rule reply_settles(1)[OF t3(1) at_i assms(7,8)])
  moreover note reply_settles(2)[OF t3(1) at_i assms(7,8) refl, folded t4_def]
  ultimately show ?thesis using t2 t3 by simp
qed

lemma groups7_holds: "holds groups_T groups7 [7 \<mapsto> (\<lparr>groupId = 7, groupName = ''red'', groupTags = []\<rparr>, Loaded)] Map.empty False"
  by (simp add: holds_def groups7_ok groups7_view groups7_rows backup_view_def kmap_def)

definition reply7 :: reply where
  "reply7 = \<lparr>replyFailed = False, replyBody = group7_json\<rparr>"

lemma reply7_brings: "brings groups_T reply7 \<lparr>groupId = 7, groupName = ''red'', groupTags = []\<rparr>"
  by code_simp

definition groups7_edited :: "(PollingGroup, uint64, size_field) table" where
  "groups7_edited = the (draftEditRow groups_T (QULong 7) [(''name'', QStr ''blue'')] groups7)"

lemma groups7_edited: "draftEditRow groups_T (QULong 7) [(''name'', QStr ''blue'')] groups7 = Some groups7_edited"
  "scope (markEditsPending groups_T groups7_edited) = ''1''"
  by code_simp+

lemma names_group7: "scope t = ''1'' \<Longrightarrow> names_row groups_T t ty 7 (entry7 ty)"
proof -
  have "number (unat (entryScope (entry7 ty))) = ''1''" unfolding entry7_def by code_simp
  then show "scope t = ''1'' \<Longrightarrow> names_row groups_T t ty 7 (entry7 ty)" using entry7_here(1-3) by (simp add: names_row_def)
qed

theorem pending_edit_settles_witness:
  "let t2 = markEditsPending groups_T groups7_edited;
       t4 = rowReply groups_T 7 reply7 (processEntry groups_T 0 (entry7 ModifyRow) t2)
   in table_view groups_T t2 7 = Some (\<lparr>groupId = 7, groupName = ''blue'', groupTags = []\<rparr>, PendingEdit) \<and>
      pendingEdits t2 \<and> table_view groups_T t4 = table_view groups_T groups7 \<and> \<not> pendingEdits t4"
  using pending_edit_settles[OF groups7_holds _ _ groups7_edit(1) groups7_edited(1) names_group7[OF groups7_edited(2)]
      reply7_brings, of "\<lparr>groupId = 7, groupName = ''red'', groupTags = []\<rparr>" 0]
  by (simp add: Let_def holds_def groups7_edit groups7_view)

text \<open>
  C13. An added row comes back from the chain under an id of its own.  The drafted row is pending under
  its draft id; the journal entry for the new id makes a placeholder and asks the node for it.  When
  the row that arrives has the values of the drafted fields, it takes the place of the draft: the draft
  row, its backup and the lock are gone.  When one value differs, the new row is loaded beside the
  draft, which stays pending, and the table stays locked.
\<close>

theorem pending_addition_settles:
  fixes now :: int
  assumes "row_laws T" "holds T t V Map.empty False" "ids_left T t" "locallyAddedRows t = []"
    "draftRow T (fst (fromVariantMap (rowFields T) fieldMap (zeroRow T))) t = Some x" "getId T x = d"
    "V j = None" "j \<noteq> d" "names_row T (markEditsPending T (draftAddRow T fieldMap t)) AddRow j e"
    "brings T reply r" "getId T r = j"
  defines "f \<equiv> qm_insert DraftId (variantOfId T d) fieldMap"
  defines "t2 \<equiv> markEditsPending T (draftAddRow T fieldMap t)"
  defines "t3 \<equiv> processEntry T now e t2"
  defines "t4 \<equiv> rowReply T j reply t3"
  shows "holds T t2 (V(d \<mapsto> (x, PendingAdd))) [d \<mapsto> (x, DraftAdd)] True \<and> j \<in> dom (loadingRows t3) \<and>
    (if matchesRow T r f then holds T t4 (V(j \<mapsto> (r, Loaded))) Map.empty False \<and> locallyAddedRows t4 = []
     else holds T t4 (V(d \<mapsto> (x, PendingAdd), j \<mapsto> (r, Loaded))) [d \<mapsto> (x, DraftAdd)] True \<and> locallyAddedRows t4 = [f])"
proof -
  let ?V = "V(d \<mapsto> (x, PendingAdd))"
  note draft = drafted_addition[OF assms(1-6)]
  have t2: "holds T t2 ?V [d \<mapsto> (x, DraftAdd)] True" "locallyAddedRows t2 = [f]"
    using marked_pending[OF draft(1)] draft(2) by (simp_all add: t2_def f_def)
  have free: "?V j = None" using assms(7,8) by simp
  let ?V3 = "?V(j \<mapsto> (setId T j (blankRow T), Loading))"
  have t3: "holds T t3 ?V3 [d \<mapsto> (x, DraftAdd)] True" "j \<in> dom (loadingRows t3)" "locallyAddedRows t3 = [f]"
    unfolding t3_def t2(2)[symmetric] by (rule journal_brings_new[OF assms(1) t2(1) free assms(9)[folded t2_def]])+
  have at: "?V3 j = Some (setId T j (blankRow T), Loading)" "?V3 d = Some (x, PendingAdd)" "d \<noteq> j"
    using assms(8) by simp_all
  have f: "idOfVariant T (qm_get f DraftId) = d"
    by (simp add: f_def qm_get_insert row_laws.id_variant[OF assms(1)])
  have t4: "matchesRow T r f \<Longrightarrow> holds T t4 (?V3(j \<mapsto> (r, Loaded), d := None)) Map.empty False \<and> locallyAddedRows t4 = []"
    "\<not> matchesRow T r f \<Longrightarrow> holds T t4 (?V3(j \<mapsto> (r, Loaded))) [d \<mapsto> (x, DraftAdd)] True \<and> locallyAddedRows t4 = [f]"
    unfolding t4_def by (rule reply_to_new[OF t3(1) at assms(10,11) t3(3) f], assumption)+
  have settled: "?V3(j \<mapsto> (r, Loaded), d := None) = V(j \<mapsto> (r, Loaded))"
    using draft(3) assms(8) by (auto simp: fun_eq_iff)
  have beside: "?V3(j \<mapsto> (r, Loaded)) = V(d \<mapsto> (x, PendingAdd), j \<mapsto> (r, Loaded))" by (rule fun_upd_upd)
  show ?thesis using t2(1) t3(2) t4(1)[unfolded settled] t4(2)[unfolded beside] by (cases "matchesRow T r f") simp_all
qed

definition group8_json :: "string \<Rightarrow> json" where
  "group8_json name = JObj [(''rows'', JArr [JObj [(''id'', JNum 8), (''name'', JStr name), (''tags'', JArr [])]]),
     (''more'', JBool False)]"

definition entry8 :: journal_entry where
  "entry8 = (entry7 AddRow)\<lparr>entryKey := 8\<rparr>"

lemma reply8_brings:
  "brings groups_T \<lparr>replyFailed = False, replyBody = group8_json ''blue''\<rparr> \<lparr>groupId = 8, groupName = ''blue'', groupTags = []\<rparr>"
  "brings groups_T \<lparr>replyFailed = False, replyBody = group8_json ''teal''\<rparr> \<lparr>groupId = 8, groupName = ''teal'', groupTags = []\<rparr>"
  by code_simp+

lemma names_group8: "names_row groups_T (markEditsPending groups_T groups7_draft) AddRow 8 entry8"
proof -
  have "scope (markEditsPending groups_T groups7_draft) = ''1''" by code_simp
  from names_group7[OF this, of AddRow] show ?thesis
    by (simp add: names_row_def entry8_def) (simp add: polling_group_row_def)
qed

lemma group8_matches:
  "matchesRow groups_T \<lparr>groupId = 8, groupName = ''blue'', groupTags = []\<rparr>
     (qm_insert DraftId (variantOfId groups_T 1000000000000) [(''name'', QStr ''blue'')])"
  "\<not> matchesRow groups_T \<lparr>groupId = 8, groupName = ''teal'', groupTags = []\<rparr>
     (qm_insert DraftId (variantOfId groups_T 1000000000000) [(''name'', QStr ''blue'')])"
  by code_simp+

theorem pending_addition_settles_witness:
  "let t3 = processEntry groups_T 0 entry8 (markEditsPending groups_T groups7_draft);
       good = rowReply groups_T 8 \<lparr>replyFailed = False, replyBody = group8_json ''blue''\<rparr> t3;
       bad = rowReply groups_T 8 \<lparr>replyFailed = False, replyBody = group8_json ''teal''\<rparr> t3
   in table_view groups_T good 1000000000000 = None \<and> \<not> pendingEdits good \<and>
      table_view groups_T bad 1000000000000 \<noteq> None \<and> pendingEdits bad"
proof -
  note s = pending_addition_settles[OF polling_group_laws groups7_holds _ groups7_rows(7) groups7_blue, of 1000000000000 8 entry8,
      folded groups7_draft_def, OF _ _ _ _ names_group8]
  show ?thesis
    using s[OF _ _ _ _ reply8_brings(1), of 0] s[OF _ _ _ _ reply8_brings(2), of 0] group8_matches
    by (simp add: Let_def holds_def ids_left_def groups7_rows BASE_DRAFT_ID_def)
qed

end
