(* ===== verification/StuckLock.thy ===== *)
theory StuckLock
  imports EditJourney
begin

text \<open>
  What the deletion of a row does to the lock.  A delete entry settles a pending deletion, but not a
  pending edit: the backup of a row that is gone can no longer be dropped, and the lock stays.
\<close>

subsection \<open>A backup without its edit\<close>

text \<open>The table is locked and keeps a backup of \<open>i\<close> although no edit of \<open>i\<close> is in the table.\<close>

definition stuck :: "('r, 'i::linorder, 'v) row_type \<Rightarrow> 'i \<Rightarrow> ('r, 'i, 'v) table \<Rightarrow> bool" where
  "stuck T i t \<longleftrightarrow> table_ok T t \<and> pendingEdits t \<and> i \<in> dom (backup_view (getId T) (backups t)) \<and>
     (\<forall>r s. table_view T t i = Some (r, s) \<longrightarrow> plain s) \<and>
     (\<forall>f \<in> set (locallyAddedRows t). idOfVariant T (qm_get f DraftId) \<noteq> i)"

lemma stuckD:
  assumes "stuck T i t"
  shows "table_ok T t" "pendingEdits t" "i \<in> dom (backup_view (getId T) (backups t))"
    "table_view T t i = Some (r, s) \<Longrightarrow> plain s"
    "f \<in> set (locallyAddedRows t) \<Longrightarrow> idOfVariant T (qm_get f DraftId) \<noteq> i"
  using assms unfolding stuck_def by blast+

lemma stuckI:
  assumes "table_ok T t" "pendingEdits t" "i \<in> dom (backup_view (getId T) (backups t))"
    "\<And>r s. table_view T t i = Some (r, s) \<Longrightarrow> plain s"
    "\<And>f. f \<in> set (locallyAddedRows t) \<Longrightarrow> idOfVariant T (qm_get f DraftId) \<noteq> i"
  shows "stuck T i t"
  using assms unfolding stuck_def by blast

text \<open>Only the row \<open>i\<close> and what is kept aside matter.\<close>

lemma stuck_same:
  assumes "stuck T i t" "table_ok T t'" "pendingEdits t'" "backup_view (getId T) (backups t') i = backup_view (getId T) (backups t) i"
    "set (locallyAddedRows t') \<subseteq> set (locallyAddedRows t)" "\<And>r s. table_view T t' i = Some (r, s) \<Longrightarrow> plain s"
  shows "stuck T i t'"
proof (rule stuckI[OF assms(2,3)])
  show "i \<in> dom (backup_view (getId T) (backups t'))" using stuckD(3)[OF assms(1)] assms(4) by (simp add: domIff)
  show "idOfVariant T (qm_get f DraftId) \<noteq> i" if "f \<in> set (locallyAddedRows t')" for f
    using that assms(5) stuckD(5)[OF assms(1)] by blast
qed (rule assms(6))

lemma stuck_state:
  assumes "stuck T i t" "row_found T i t"
  shows "plain (rowStates t ! row_pos T i t)"
  using stuckD(4)[OF assms(1)] assms(2) table_view_lookup[OF stuckD(1)[OF assms(1)], of i] by simp

lemma stuck_deleteBackupRow:
  assumes "stuck T i t" "j \<noteq> i"
  shows "stuck T i (snd (deleteBackupRow T j t))"
proof -
  have ok: "table_ok T (snd (deleteBackupRow T j t))" using stuckD(1)[OF assms(1)] by simp
  have bv: "backup_view (getId T) (backups (snd (deleteBackupRow T j t))) = (backup_view (getId T) (backups t))(j := None)"
    by (rule deleteBackupRow_backup_view[OF stuckD(1)[OF assms(1)]])
  then have "i \<in> dom (backup_view (getId T) (backups (snd (deleteBackupRow T j t))))"
    using stuckD(3)[OF assms(1)] assms(2) by simp
  then have "\<not> backup_isEmpty (backups (snd (deleteBackupRow T j t)))" by (auto simp: backup_isEmpty_iff[OF ok])
  then show ?thesis
    using assms(2) ok bv stuckD(2,4)[OF assms(1)] by (intro stuck_same[OF assms(1)]) (auto simp: deleteBackupRow_pending)
qed

lemma stuck_emit [simp]: "stuck T i (emit e t) = stuck T i t"
  by (simp add: stuck_def)

lemma stuck_notifyUpdate: "stuck T i t \<Longrightarrow> keys_sorted (getId T) rs \<Longrightarrow> stuck T i (notifyUpdate T rs t)"
  by (simp add: stuck_def notifyUpdate_ok)

lemma stuck_deleteRow:
  assumes "stuck T i t"
  shows "stuck T i (deleteRow T j t)"
proof -
  note ok = stuckD(1)[OF assms]
  have ok': "table_ok T (deleteRow T j t)" using ok by simp
  have keep: "j \<noteq> i" if "row_found T j t" "drops_backup (rowStates t ! row_pos T j t)"
    using stuck_state[OF assms] that by (auto simp: drops_backup_def plain_iff isDraft_def)
  define b where "b = snd (backup_remove (getId T) j (backups t))"
  have b: "backup_ok (getId T) b" "backup_view (getId T) b = (backup_view (getId T) (backups t))(j := None)"
    using table_okD(3)[OF ok] by (simp_all add: b_def backup_remove_ok backup_remove_view)
  have bi: "backup_view (getId T) (backups (deleteRow T j t)) i = backup_view (getId T) (backups t) i"
    using keep b by (auto simp: deleteRow_backups b_def[symmetric])
  have "\<not> backup_isEmpty b" if "j \<noteq> i"
    using stuckD(3)[OF assms] that b by (auto simp: backup_isEmpty_view dest: fun_cong[of _ _ i])
  then have "pendingEdits (deleteRow T j t)"
    using stuckD(2)[OF assms] keep by (auto simp: deleteRow_pending b_def[symmetric])
  then show ?thesis
    using ok' bi stuckD(4)[OF assms] ok
    by (intro stuck_same[OF assms]) (auto simp: deleteRow_view split: if_splits)
qed

subsection \<open>The journal\<close>

lemma markStale_backups:
  "backups (markStale T now i t) =
     (if row_found T i t \<and> isDraft (rowStates t ! row_pos T i t)
      then backups (snd (deleteBackupRow T i t)) else backups t)"
  "pendingEdits (markStale T now i t) =
     (if row_found T i t \<and> isDraft (rowStates t ! row_pos T i t)
      then pendingEdits (snd (deleteBackupRow T i t)) else pendingEdits t)"
  "locallyAddedRows (markStale T now i t) = locallyAddedRows t"
  by (auto simp: markStale_def Let_def row_search split_beta isDraft_def deleteBackupRow_backups deleteBackupRow_pending
      split: option.split)

lemma stuck_markStale:
  assumes "stuck T i t"
  shows "stuck T i (markStale T now j t)"
proof -
  note ok = stuckD(1)[OF assms]
  have ok': "table_ok T (markStale T now j t)" by (rule markStale_ok[OF ok])
  have view: "plain s" if "table_view T (markStale T now j t) i = Some (r, s)" for r s
    using that stuckD(4)[OF assms]
    by (auto simp: markStale_view[OF ok] stale_entry_def plain_iff isDraft_def split: if_splits option.splits)
  show ?thesis
  proof (cases "row_found T j t \<and> isDraft (rowStates t ! row_pos T j t)")
    case True
    then have "j \<noteq> i" using stuck_state[OF assms] by (auto simp: plain_def)
    note del = stuck_deleteBackupRow[OF assms this]
    show ?thesis
      using True ok' view stuckD(2)[OF del]
      by (intro stuck_same[OF del]) (simp_all add: markStale_backups)
  next
    case False
    then show ?thesis
      using ok' view stuckD(2)[OF assms] by (intro stuck_same[OF assms]) (auto simp: markStale_backups)
  qed
qed

lemma stuck_getNew:
  assumes "row_laws T" "stuck T i t"
  shows "stuck T i (getNew T now j t)"
proof -
  have fr: "backups (getNew T now j t) = backups t" "pendingEdits (getNew T now j t) = pendingEdits t"
    "locallyAddedRows (getNew T now j t) = locallyAddedRows t"
    by (simp_all add: getNew_def Let_def)
  show ?thesis
    using getNew_spec[OF assms(1) stuckD(1)[OF assms(2)], of now j] stuckD(2,4)[OF assms(2)]
    by (intro stuck_same[OF assms(2)]) (auto simp: fr plain_iff split: if_splits)
qed

lemma stuck_processEntry:
  "row_laws T \<Longrightarrow> stuck T i t \<Longrightarrow> stuck T i (processEntry T now e t)"
  by (auto simp: processEntry_def Let_def stuck_deleteRow stuck_markStale stuck_getNew split: entry_type.split)

lemma stuck_processJournal:
  assumes "row_laws T" "stuck T i t"
  shows "stuck T i (processJournal T now es t)"
  using assms(2) unfolding processJournal_def
  by (induction es arbitrary: t) (simp_all add: stuck_processEntry assms(1))

subsection \<open>Rows from the node\<close>

lemma stuck_put_row:
  assumes "stuck T i t"
  shows "stuck T i ((put_row T r t)\<lparr>out := xs\<rparr>)"
proof -
  have "stuck T i (put_row T r t)"
    using put_row_ok[OF stuckD(1)[OF assms]] stuckD(2,4)[OF assms]
    by (intro stuck_same[OF assms]) (auto simp: put_row_view[OF stuckD(1)[OF assms]] plain_iff split: if_splits)
  then show ?thesis by (simp add: stuck_def)
qed

lemma stuck_fewer_added:
  assumes "stuck T i t" "set xs \<subseteq> set (locallyAddedRows t)"
  shows "stuck T i (t\<lparr>locallyAddedRows := xs\<rparr>)"
  by (rule stuck_same[OF assms(1)]) (use stuckD(1,2,4)[OF assms(1)] assms(2) in simp_all)

lemma stuck_remove_added: "stuck T i t \<Longrightarrow> stuck T i (t\<lparr>locallyAddedRows := remove_at n (locallyAddedRows t)\<rparr>)"
  by (rule stuck_fewer_added[OF _ set_remove_at_subset])

lemma stuck_checkOverwrittenEdit:
  assumes "stuck T i t" "s \<in> {Loaded, Stale} \<or> getId T old \<noteq> i"
  shows "stuck T i (checkOverwrittenEdit T old s r t)"
proof (cases "s \<in> {Loaded, Stale}")
  case False
  have "stuck T i (snd (deleteBackupRow T (getId T old) u))" if "stuck T i u" for u
    using that False assms(2) by (intro stuck_deleteBackupRow) auto
  then show ?thesis
    using False assms(1)
    by (auto simp: checkOverwrittenEdit_def Let_def stuck_fewer_added set_remove_at_subset split: option.split)
qed (use assms in \<open>auto simp: checkOverwrittenEdit_def\<close>)

lemma stuck_checkPendingInsertion:
  assumes "stuck T i t"
  shows "stuck T i (checkPendingInsertion T r t)"
proof (cases rule: checkPendingInsertion_cases[of T r t])
  case 1
  with assms show ?thesis by simp
next
  case (2 n d)
  have "n < length (locallyAddedRows t)" using find_index_Some[OF 2(2)] by simp
  then have "d \<noteq> i" unfolding 2(3) by (intro stuckD(5)[OF assms]) simp
  then show ?thesis
    unfolding 2(4) Let_def
    by (intro stuck_deleteBackupRow) (simp_all add: stuck_deleteRow stuck_remove_added[OF assms])
qed

lemma stuck_merge_row:
  assumes "stuck T i t"
  shows "stuck T i (merge_row T r (row_pos T (getId T r) t) t)"
proof -
  obtain ev where eq: "merge_row T r (row_pos T (getId T r) t) t = (let t1 = (put_row T r t)\<lparr>out := out t @ ev\<rparr> in
      case overwritten T r t of
        Some (old, s) \<Rightarrow> checkOverwrittenEdit T old s r t1
      | None \<Rightarrow> checkPendingInsertion T r t1)"
    using merge_row_eq[of T r t] by blast
  note t1 = stuck_put_row[OF assms, where r = r and xs = "out t @ ev"]
  show ?thesis
  proof (cases "overwritten T r t")
    case None
    then show ?thesis using stuck_checkPendingInsertion[OF t1] by (simp add: eq)
  next
    case (Some os)
    obtain old s where os: "os = (old, s)" by (cases os)
    then have o: "row_found T (getId T r) t" "old = rowList t ! row_pos T (getId T r) t"
      "s = rowStates t ! row_pos T (getId T r) t" "s \<noteq> Loading"
      using Some by (auto simp: overwritten_def Let_def split: if_splits)
    have "s \<in> {Loaded, Stale} \<or> getId T old \<noteq> i"
      using stuck_state[OF assms] o row_found_at(2)[OF o(1)] by (auto simp: plain_iff)
    then show ?thesis using Some os stuck_checkOverwrittenEdit[OF t1] by (simp add: eq)
  qed
qed

lemma stuck_merge_rows:
  assumes "stuck T i t" "keys_sorted (getId T) rs" "rs \<noteq> []" "pos = row_pos T (getId T (hd rs)) t"
  shows "stuck T i (merge_rows T rs pos t)"
  using assms
proof (induction T rs pos t rule: merge_rows.induct)
  case (2 T r pos t)
  then show ?case using stuck_merge_row[of T i t r] by simp
next
  case (3 T r r' rs pos t)
  define t1 where "t1 = merge_row T r pos t"
  have pos: "pos = row_pos T (getId T r) t" using 3(5) by simp
  note spec = merge_row_spec(1,2)[OF stuckD(1)[OF 3(2)], of r, folded pos, folded t1_def]
  have less: "getId T r < getId T r'" and sorted: "keys_sorted (getId T) (r' # rs)"
    using 3(3) by (auto simp: keys_sorted_Cons)
  have next_pos: "lower_bound_from pos (getId T) (rowList t1) (getId T r') = row_pos T (getId T r') t1"
    using before_ok_search[OF table_okD(2)[OF spec(1)] spec(2) less] by (simp add: row_pos_def)
  have "stuck T i t1" using stuck_merge_row[OF 3(2), of r] by (simp add: t1_def pos)
  then have "stuck T i (merge_rows T (r' # rs) (lower_bound_from pos (getId T) (rowList t1) (getId T r')) t1)"
    using sorted next_pos by (intro 3(1)[OF t1_def]) simp_all
  then show ?case by (simp add: t1_def[symmetric])
qed simp

lemma stuck_place_rows:
  assumes "stuck T i t" "keys_sorted (getId T) rs" "rs \<noteq> []"
  shows "stuck T i (place_rows T rs t)"
proof -
  have "stuck T i (append_rows T rs t)" if at_end: "row_pos T (getId T (hd rs)) t = length (rowList t)"
  proof -
    note spec = append_rows_spec[OF stuckD(1)[OF assms(1)] assms(2,3) at_end]
    have fr: "backups (append_rows T rs t) = backups t" "pendingEdits (append_rows T rs t) = pendingEdits t"
      "locallyAddedRows (append_rows T rs t) = locallyAddedRows t" by (simp_all add: append_rows_def)
    have "plain s" if "(table_view T t ++ loaded_map T rs) i = Some (r, s)" for r s
      using that stuckD(4)[OF assms(1)]
      by (auto simp: loaded_map_def map_add_Some_iff plain_iff dest!: map_of_SomeD)
    then show ?thesis
      using spec stuckD(2)[OF assms(1)] by (intro stuck_same[OF assms(1)]) (simp_all add: fr)
  qed
  then show ?thesis
    using stuck_merge_rows[OF assms refl] assms(2)
    by (auto simp: place_rows_def Let_def row_search intro!: stuck_notifyUpdate)
qed

lemma stuck_processRowsResponse:
  assumes "stuck T i t" "sorted_response T reply"
  shows "stuck T i (processRowsResponse T reply n t)"
  using assms
  by (auto simp: processRowsResponse_def sorted_response_def Let_def fromJsonArray_def
      intro!: stuck_place_rows split: option.splits)

subsection \<open>Every operation but a reset\<close>

lemma stuck_markEditsPending:
  assumes "stuck T i t"
  shows "stuck T i (markEditsPending T t)"
proof -
  note ok = stuckD(1)[OF assms]
  have plain: "plain s" if "pending_view K (table_view T t) i = Some (r, s)" for K r s
    using that stuckD(4)[OF assms]
    by (auto simp: pending_view_def pending_state_other plain_def split: option.splits if_splits)
  show ?thesis
    using markEditsPending_spec[OF ok] stuckD(2)[OF assms] plain by (intro stuck_same[OF assms]) simp_all
qed

lemma stuck_allRows:
  assumes "stuck T i t"
  shows "stuck T i (allRows T now k t)"
proof -
  have eq: "locallyAddedRows (allRows T now k t) = locallyAddedRows t"
  proof -
    define t1 where "t1 = (if models t = [] then fullRefresh T t else t)"
    have "locallyAddedRows (snd (construct_model T now k t1)) = locallyAddedRows t1"
      using construct_fold[of "length (rowList t1)" t1 "\<lparr>modelKey = k, modelIds = [], modelVirtualFields = []\<rparr>" T now]
      by (simp add: construct_model_def)
    moreover have "locallyAddedRows t1 = locallyAddedRows t" by (simp add: t1_def fullRefresh_def)
    ultimately show ?thesis by (simp add: allRows_def Let_def split_beta t1_def[symmetric])
  qed
  obtain m where "table_ok T (allRows T now k t)" "table_view T (allRows T now k t) = table_view T t"
    "backups (allRows T now k t) = backups t" "pendingEdits (allRows T now k t) = pendingEdits t"
    using allRows_spec[OF stuckD(1)[OF assms], where now = now and k = k] by metis
  then show ?thesis using stuckD(2,4)[OF assms] by (intro stuck_same[OF assms]) (simp_all add: eq)
qed

lemma stuck_step:
  assumes "row_laws T" "stuck T i t" "op_ok T c t" "c \<noteq> OpResetEdits" "apply_op T c t = Inr t'"
  shows "stuck T i t'"
proof (cases c)
  case (OpRowReply j reply)
  have "stuck T i (t\<lparr>loadingRows := f\<rparr>)" for f using assms(2) by (simp add: stuck_def table_ok_def table_view_def)
  with OpRowReply assms show ?thesis by (auto simp: rowReply_def stuck_processRowsResponse)
next
  case (OpUpdateScope sc)
  then have t': "t' = updateScope T sc t" using assms(5) by simp
  have "rowList t' = rowList t" "rowStates t' = rowStates t" "models t' = models t" "backups t' = backups t"
    "pendingEdits t' = pendingEdits t" "locallyAddedRows t' = locallyAddedRows t"
    by (simp_all add: t' updateScope_def Let_def fullRefresh_def)
  with assms(2) show ?thesis by (simp add: stuck_def table_ok_def table_view_def)
next
  case (OpModelDestroyed k)
  with assms(2,5) show ?thesis by (auto simp: stuck_def modelDestroyed_def table_ok_def table_view_def)
next
  case (OpDraftEditRow rowId changes)
  with assms(5) show ?thesis using assms(2) stuckD(2)[OF assms(2)] by (simp add: draftEditRow_locked)
next
  case (OpDraftAddRow fieldMap)
  with assms(2,5) stuckD(2)[OF assms(2)] show ?thesis by (simp add: draftAddRow_refused)
next
  case (OpDraftDeleteRow rowId)
  with assms(2,5) stuckD[OF assms(2)] show ?thesis by (simp add: draftDeleteRow_refused)
qed (use assms in \<open>auto simp: rowsReply_def fullRefresh_def stuck_processJournal stuck_processRowsResponse
      stuck_allRows stuck_markEditsPending\<close>)

text \<open>Any sequence of operations without a reset.\<close>

inductive continues :: "('r, 'i::linorder, 'v) row_type \<Rightarrow> ('r, 'i, 'v) table \<Rightarrow> ('r, 'i, 'v) table \<Rightarrow> bool"
  for T t where
  stay: "continues T t t"
| go: "continues T t u \<Longrightarrow> op_ok T c u \<Longrightarrow> c \<noteq> OpResetEdits \<Longrightarrow> apply_op T c u = Inr u' \<Longrightarrow> continues T t u'"

lemma stuck_continues: "continues T t u \<Longrightarrow> row_laws T \<Longrightarrow> stuck T i t \<Longrightarrow> stuck T i u"
  by (induction rule: continues.induct) (auto intro: stuck_step)

subsection \<open>The property\<close>

text \<open>
  C14. A journal entry that deletes a row whose deletion is pending settles it: the row, its backup and
  the lock are gone.  When an edit of the row is pending instead, the row goes but its backup and the
  lock stay: whatever the journal, the node, the models and the user do from then on, short of a
  reset, the table remains locked, so every further draft is refused.
\<close>

theorem deletion_settles_only_deletions:
  fixes now :: int
  assumes "row_laws T" "holds T t V [i \<mapsto> b] True" "V i = Some (r, s)" "names_row T t DeleteRow i e"
    "\<forall>f \<in> set (locallyAddedRows t). idOfVariant T (qm_get f DraftId) \<noteq> i"
  shows "(s = PendingDelete \<longrightarrow> holds T (processEntry T now e t) (V(i := None)) Map.empty False) \<and>
    (s = PendingEdit \<longrightarrow> holds T (processEntry T now e t) (V(i := None)) [i \<mapsto> b] True \<and>
       (\<forall>u. continues T (processEntry T now e t) u \<longrightarrow> pendingEdits u \<and> i \<in> dom (backup_view (getId T) (backups u)) \<and>
          (\<forall>rowId changes. draftEditRow T rowId changes u = Some u \<and> draftAddRow T changes u = u \<and>
             draftDeleteRow T rowId u = u)))"
proof (intro conjI impI allI)
  note del = journal_deletes_pending[OF assms(2-4), of now]
  show "holds T (processEntry T now e t) (V(i := None)) Map.empty False" if "s = PendingDelete"
    using del that by (simp add: drops_backup_def)
  show holds': "holds T (processEntry T now e t) (V(i := None)) [i \<mapsto> b] True" if "s = PendingEdit"
    using del that by (simp add: drops_backup_def isDraft_def)
  have eq: "processEntry T now e t = deleteRow T i t"
    using assms(4) by (simp add: processEntry_def names_row_def Let_def)
  fix u rowId changes assume edit: "s = PendingEdit" and u: "continues T (processEntry T now e t) u"
  have "stuck T i (processEntry T now e t)"
    using holdsD[OF holds'[OF edit]] assms(5) by (intro stuckI) (simp_all add: eq)
  from stuck_continues[OF u assms(1) this] have st: "stuck T i u" .
  show "pendingEdits u" "i \<in> dom (backup_view (getId T) (backups u))" using stuckD(2,3)[OF st] .
  show "draftEditRow T rowId changes u = Some u" "draftAddRow T changes u = u" "draftDeleteRow T rowId u = u"
    using stuckD(1,2)[OF st] by (simp_all add: draftEditRow_locked draftAddRow_refused draftDeleteRow_refused)
qed

text \<open>The group 7, edited and pending, is deleted by somebody else; then the node sends it once more.\<close>

definition pending7 :: "(PollingGroup, uint64, size_field) table" where
  "pending7 = markEditsPending groups_T groups7_edited"

lemma pending7_holds:
  "holds groups_T pending7 [7 \<mapsto> (\<lparr>groupId = 7, groupName = ''blue'', groupTags = []\<rparr>, PendingEdit)]
     [7 \<mapsto> (\<lparr>groupId = 7, groupName = ''red'', groupTags = []\<rparr>, Loaded)] True"
  using marked_pending[OF drafted_edit[OF groups7_holds _ _ groups7_edit(1) groups7_edited(1)]]
  by (simp add: pending7_def groups7_edit)

lemma pending7_added: "locallyAddedRows pending7 = []" "scope pending7 = ''1''"
  by code_simp+

theorem deletion_settles_only_deletions_witness:
  "pendingEdits (rowReply groups_T 7 reply7 (processEntry groups_T 0 (entry7 DeleteRow) pending7)) \<and>
   draftDeleteRow groups_T (QULong 7) (rowReply groups_T 7 reply7 (processEntry groups_T 0 (entry7 DeleteRow) pending7)) =
     rowReply groups_T 7 reply7 (processEntry groups_T 0 (entry7 DeleteRow) pending7)"
proof -
  have run: "continues groups_T (processEntry groups_T 0 (entry7 DeleteRow) pending7)
      (rowReply groups_T 7 reply7 (processEntry groups_T 0 (entry7 DeleteRow) pending7))"
    by (rule continues.go[OF continues.stay, of _ "OpRowReply 7 reply7"]) (simp_all add: reply7_def sorted7)
  show ?thesis
    using deletion_settles_only_deletions[OF polling_group_laws pending7_holds _ names_group7[OF pending7_added(2)],
        of "\<lparr>groupId = 7, groupName = ''blue'', groupTags = []\<rparr>" PendingEdit 0] run
    by (simp add: pending7_added)
qed

end
