(* ===== verification/FcRaw.thy ===== *)
theory FcRaw
  imports Prelude
begin

text \<open>
  The binary format of the vendored library fc, \<open>vendor/fc/include/fc/io/raw.hpp\<close>, as far as
  \<open>cpp/KeyManager.cpp\<close> packs and unpacks with it: fixed-width integers as the bytes of a
  little-endian machine, variable-length integers, strings, byte arrays, booleans, optionals, pairs,
  vectors and maps.  A packer gives the bytes or the fault of a failed assertion, an unpacker the value
  and the bytes it left, or a fault (\<open>BadVariant\<close> is the exception of a failed
  conversion from JSON, \<open>TimedOut\<close> the one of a conversion to JSON past its deadline, \<open>TooLarge\<close> the
  \<open>std::range_error\<close> of a container of JSON values).  The contract of a format is the locale \<open>codec\<close>.
\<close>

unbundle bit_operations_syntax

type_synonym uint8 = "8 word"
type_synonym uint16 = "16 word"
type_synonym bytes = "uint8 list"

datatype fc_fault = StreamRange | AssertionFailed | BadHexCharacter char | BadVariant | TimedOut | SizeMismatch | TooLarge

type_synonym 'a packer = "'a \<Rightarrow> fc_fault + bytes"
type_synonym 'a unpacker = "bytes \<Rightarrow> fc_fault + ('a \<times> bytes)"

subsection \<open>The contract\<close>

locale codec =
  fixes ok :: "'a \<Rightarrow> bool"
    and pk :: "'a packer"
    and un :: "'a unpacker"
  assumes roundtrip: "ok v \<Longrightarrow> pk v = Inr bs \<Longrightarrow> un (bs @ rest) = Inr (v, rest)"
begin

lemma decodes: "ok v \<Longrightarrow> pk v = Inr bs \<Longrightarrow> un bs = Inr (v, [])"
  using roundtrip[of v bs "[]"] by simp

lemma prefix_free:
  assumes "ok v" "ok w" "pk v = Inr bs" "pk w = Inr cs" "bs @ r = cs @ s"
  shows "v = w \<and> r = s"
  using roundtrip[OF assms(1,3), of r] roundtrip[OF assms(2,4), of s] assms(5) by simp

lemma injective: "ok v \<Longrightarrow> ok w \<Longrightarrow> pk v = Inr bs \<Longrightarrow> pk w = Inr bs \<Longrightarrow> v = w"
  using prefix_free[of v w bs bs "[]" "[]"] by simp

end

subsection \<open>Fixed width\<close>

text \<open>\<open>s.write((char*)&v, sizeof(v))\<close>: the bytes of the number, lowest first.\<close>

fun le_bytes :: "nat \<Rightarrow> nat \<Rightarrow> bytes" where
  "le_bytes 0 x = []"
| "le_bytes (Suc n) x = of_nat (x mod 256) # le_bytes n (x div 256)"

fun le_value :: "bytes \<Rightarrow> nat" where
  "le_value [] = 0"
| "le_value (b # bs) = unat b + 256 * le_value bs"

text \<open>\<open>datastream::read\<close>\<close>

definition read_bytes :: "nat \<Rightarrow> bytes unpacker" where
  "read_bytes n bs = (if n \<le> length bs then Inr (take n bs, drop n bs) else Inl StreamRange)"

definition pack_word :: "nat \<Rightarrow> 'w::len word packer" where
  "pack_word n w = Inr (le_bytes n (unat w))"

definition unpack_word :: "nat \<Rightarrow> 'w::len word unpacker" where
  "unpack_word n bs = and_then (read_bytes n bs) (\<lambda>(d, rest). Inr (of_nat (le_value d), rest))"

lemma length_le_bytes [simp]: "length (le_bytes n x) = n"
  by (induction n x rule: le_bytes.induct) simp_all

lemma le_value_bytes: "le_value (le_bytes n x) = x mod 256 ^ n"
proof (induction n x rule: le_bytes.induct)
  case (2 n x)
  have "x mod 256 ^ Suc n = 256 * (x div 256 mod 256 ^ n) + x mod 256"
    using mod_mult2_eq[of x 256 "256 ^ n"] by simp
  then show ?case using 2 by (simp add: unat_of_nat)
qed simp

lemma read_bytes_append [simp]: "length d = n \<Longrightarrow> read_bytes n (d @ rest) = Inr (d, rest)"
  by (simp add: read_bytes_def)

lemma word_codec:
  assumes "LENGTH('w) \<le> 8 * n"
  shows "codec (\<lambda>_. True) (pack_word n :: 'w::len word packer) (unpack_word n)"
proof
  fix v :: "'w word" and bs rest
  assume "pack_word n v = Inr bs"
  then have bs: "bs = le_bytes n (unat v)" by (simp add: pack_word_def)
  have "unat v < 2 ^ LENGTH('w)" by simp
  also have "(2::nat) ^ LENGTH('w) \<le> 2 ^ (8 * n)" using assms by (rule power_increasing) simp
  also have "(2::nat) ^ (8 * n) = 256 ^ n" by (simp add: power_mult)
  finally have "unat v mod 256 ^ n = unat v" by simp
  then show "unpack_word n (bs @ rest) = Inr (v, rest)"
    by (simp add: bs unpack_word_def le_value_bytes)
qed

subsection \<open>Variable-length integers\<close>

lemma unat_drop7: "unat (drop_bit 7 (val :: uint64)) = unat val div 128"
  unfolding unat_drop_bit_eq by (simp add: drop_bit_eq_div)

text \<open>The loop of \<open>pack\<close> for \<open>unsigned_int\<close>: seven bits a byte, the high bit set while more follow.\<close>

function varint_loop :: "uint64 \<Rightarrow> bytes" where
  "varint_loop val =
     (let b = ucast val AND 0x7f; val' = drop_bit 7 val in
      if val' \<noteq> 0 then (b OR 0x80) # varint_loop val' else [b])"
  by pat_completeness auto
termination
proof (relation "measure unat")
  fix val x :: uint64 and b
  assume x: "x = drop_bit 7 val" and ne: "x \<noteq> 0"
  have eq: "unat x = unat val div 128" unfolding x by (rule unat_drop7)
  moreover have "unat x \<noteq> 0" using ne unat_eq_zero by blast
  ultimately have "unat val \<noteq> 0" by (metis div_0)
  then show "(x, val) \<in> measure unat" using eq by simp
qed simp

declare varint_loop.simps [simp del]

definition pack_varint :: "uint32 packer" where
  "pack_varint v = Inr (varint_loop (ucast v))"

text \<open>The loop of \<open>unpack\<close>: the shift is one of 32-bit words, and it stops when \<open>by\<close> passes 32.\<close>

fun unvarint_loop :: "uint64 \<Rightarrow> nat \<Rightarrow> uint64 unpacker" where
  "unvarint_loop v by [] = Inl StreamRange"
| "unvarint_loop v by (b # bs) =
     (let v' = v OR ucast (push_bit by (ucast (b AND 0x7f) :: uint32)) in
      if b AND 0x80 \<noteq> 0 \<and> by + 7 < 32 then unvarint_loop v' (by + 7) bs
      else Inr (v', bs))"

definition unpack_varint :: "uint32 unpacker" where
  "unpack_varint bs = and_then (unvarint_loop 0 0 bs) (\<lambda>(v, rest). Inr (ucast v, rest))"


text \<open>The same bytes by arithmetic on numbers.\<close>

fun varint_nat :: "nat \<Rightarrow> bytes" where
  "varint_nat x = (if x < 128 then [of_nat x] else of_nat (x mod 128 + 128) # varint_nat (x div 128))"

declare varint_nat.simps [simp del]

lemma and_7f: "(of_nat n AND 0x7f :: uint8) = of_nat (n mod 128)"
proof -
  have "(0x7f :: uint8) = mask 7" by (simp add: mask_eq_exp_minus_1)
  then have "(of_nat n AND 0x7f :: uint8) = take_bit 7 (of_nat n)" by (simp add: take_bit_eq_mask)
  also have "\<dots> = of_nat (take_bit 7 n)" by (simp add: take_bit_of_nat)
  finally show ?thesis by (simp add: take_bit_eq_mod)
qed

lemma small_bits: "(m::nat) < 2 ^ k \<Longrightarrow> bit m n \<Longrightarrow> n < k"
  by (metis bit_take_bit_iff take_bit_nat_eq_self)

lemma or_high:
  fixes d :: nat
  assumes "m < 2 ^ k"
  shows "(of_nat m OR of_nat (d * 2 ^ k) :: 'a::len word) = of_nat (m + d * 2 ^ k)"
proof -
  have "m OR (d * 2 ^ k) = m + d * 2 ^ k"
    by (rule disjunctive_add[symmetric])
      (auto simp: push_bit_eq_mult[symmetric] bit_push_bit_iff dest: small_bits[OF assms(1)])
  then show ?thesis by (metis of_nat_or_eq)
qed

lemma ucast_of_nat8: "(ucast (of_nat x :: uint64) :: uint8) = of_nat x"
  by (rule word_unat_eq_iff[THEN iffD2]) (simp add: unsigned_ucast_eq unat_of_nat take_bit_eq_mod mod_mod_cancel)

lemma varint_loop_nat: "x < 2 ^ 64 \<Longrightarrow> varint_loop (of_nat x) = varint_nat x"
proof (induction x rule: varint_nat.induct)
  case (1 x)
  have d: "drop_bit 7 (of_nat x :: uint64) = of_nat (x div 128)"
  proof (rule word_unat_eq_iff[THEN iffD2])
    show "unat (drop_bit 7 (of_nat x :: uint64)) = unat (of_nat (x div 128) :: uint64)"
      unfolding unat_drop7 using 1(2) by (simp add: unat_of_nat)
  qed
  have small: "x div 128 < 2 ^ 64" using 1(2) by simp
  have z: "(of_nat (x div 128) :: uint64) = 0 \<longleftrightarrow> x < 128"
    unfolding unat_eq_zero[symmetric] using small by (simp add: unat_of_nat div_eq_0_iff)
  have o: "(of_nat (x mod 128) OR 0x80 :: uint8) = of_nat (x mod 128 + 128)"
    using or_high[of "x mod 128" 7 1, where ?'a = 8] by simp
  show ?case
  proof (cases "x < 128")
    case True
    then show ?thesis
      by (subst varint_loop.simps, subst varint_nat.simps) (simp only: Let_def d z ucast_of_nat8 and_7f mod_less if_True simp_thms if_False)
  next
    case False
    then show ?thesis using 1(1)[OF False small]
      by (subst varint_loop.simps, subst varint_nat.simps) (simp only: Let_def d z ucast_of_nat8 and_7f o simp_thms if_True if_False)
  qed
qed

lemma unvarint_nat:
  assumes "v < 2 ^ by" "by \<in> {0, 7, 14, 21, 28}" "v + x * 2 ^ by < 2 ^ 32"
  shows "unvarint_loop (of_nat v) by (varint_nat x @ rest) = Inr (of_nat (v + x * 2 ^ by), rest)"
  using assms
proof (induction x arbitrary: v "by" rule: varint_nat.induct)
  case (1 x)
  have piece: "ucast (push_bit by (of_nat d :: uint32)) = (of_nat (d * 2 ^ by) :: uint64)" if "d * 2 ^ by < 2 ^ 32" for d
  proof (rule word_unat_eq_iff[THEN iffD2])
    have "unat (push_bit by (of_nat d :: uint32)) = d * 2 ^ by"
      using that unfolding push_bit_of_nat by (simp add: push_bit_eq_mult unat_of_nat del: of_nat_mult of_nat_power)
    then show "unat (ucast (push_bit by (of_nat d :: uint32)) :: uint64) = unat (of_nat (d * 2 ^ by) :: uint64)"
      using that by (simp add: unsigned_ucast_eq unat_of_nat take_bit_eq_mod del: of_nat_mult of_nat_power)
  qed
  have last: "(of_nat m :: uint8) AND 0x80 = 0" if "m < 128" for m
  proof -
    have h: "(0x80 :: uint8) = 2 ^ 7" by simp
    have "\<not> bit m 7" using small_bits[of m 7 7] that by auto
    then have "\<not> bit ((of_nat m :: uint8) AND 2 ^ 7) n" for n
      by (cases "n = 7") (simp_all only: bit_and_iff bit_exp_iff bit_of_nat_iff simp_thms)
    then show ?thesis unfolding h by (intro bit_eqI) simp
  qed
  have more: "(of_nat (m + 128) :: uint8) AND 0x80 \<noteq> 0" if "m < 128" for m
  proof -
    have "(of_nat (m + 128) :: uint8) = of_nat m OR 0x80" using or_high[of m 7 1, where ?'a = 8] that by simp
    moreover have "bit ((of_nat m OR 0x80) AND 0x80 :: uint8) 7" by (simp add: bit_and_iff bit_or_iff)
    ultimately show ?thesis by (metis bit_0_eq bot_apply bot_bool_def)
  qed
  have wide: "(ucast (of_nat m :: uint8) :: uint32) = of_nat m" if "m < 128" for m
    using that by (intro word_unat_eq_iff[THEN iffD2]) (simp add: unsigned_ucast_eq unat_of_nat take_bit_eq_mod)
  have low: "(of_nat (m + 128) AND 0x7f :: uint8) = of_nat m" if "m < 128" for m
    using that unfolding and_7f by simp
  have lt: "v < 2 ^ by" using 1 by simp
  show ?case
  proof (cases "x < 128")
    case True
    have "ucast (push_bit by (ucast (of_nat x :: uint8) :: uint32)) = (of_nat (x * 2 ^ by) :: uint64)"
      unfolding wide[OF True] using 1(4) by (intro piece) simp
    then show ?thesis using True or_high[OF lt, of x, where ?'a = 64] last[OF True]
      by (subst varint_nat.simps) (simp add: and_7f)
  next
    case False
    define m where "m = x mod 128"
    have m: "m < 128" by (simp add: m_def)
    have x: "x = m + 128 * (x div 128)" by (simp add: m_def)
    have total: "(v + m * 2 ^ by) + (x div 128) * 2 ^ (by + 7) = v + x * 2 ^ by"
    proof -
      have "x * 2 ^ by = (m + 128 * (x div 128)) * 2 ^ by" using x by simp
      then show ?thesis by (simp add: power_add algebra_simps)
    qed
    have "x * 2 ^ by < 2 ^ 32" using 1(4) by simp
    have "by \<noteq> 28"
    proof
      assume "by = 28"
      then have "x * 2 ^ 28 < 2 ^ 32" using 1(4) by simp
      then show False using False by simp
    qed
    then have by4: "by \<in> {0, 7, 14, 21}" "by + 7 < 32" using 1(3) by auto
    have "m * 2 ^ by \<le> 127 * 2 ^ by" using m by (intro mult_right_mono) simp_all
    then have "v + m * 2 ^ by < 128 * 2 ^ by" using lt by linarith
    then have lt': "v + m * 2 ^ by < 2 ^ (by + 7)" by (simp add: power_add mult.commute)
    have "m * 2 ^ by \<le> x * 2 ^ by" by (simp add: m_def)
    then have "m * 2 ^ by < 2 ^ 32" using 1(4) by linarith
    then have "ucast (push_bit by (ucast (of_nat m :: uint8) :: uint32)) = (of_nat (m * 2 ^ by) :: uint64)"
      unfolding wide[OF m] by (rule piece)
    moreover have "unvarint_loop (of_nat (v + m * 2 ^ by)) (by + 7) (varint_nat (x div 128) @ rest) =
        Inr (of_nat ((v + m * 2 ^ by) + (x div 128) * 2 ^ (by + 7)), rest)"
      by (rule 1(1)[OF False lt']) (use by4 total 1(4) in auto)
    moreover have "varint_nat x = of_nat (m + 128) # varint_nat (x div 128)"
      using False by (subst varint_nat.simps) (simp add: m_def)
    ultimately show ?thesis using or_high[OF lt, of m, where ?'a = 64] more[OF m] low[OF m] by4(2)
      unfolding total by (simp add: Let_def del: of_nat_mult of_nat_power of_nat_add)
  qed
qed

lemma length_varint_nat: "x < 2 ^ (7 * Suc k) \<Longrightarrow> length (varint_nat x) \<le> Suc k"
proof (induction x arbitrary: k rule: varint_nat.induct)
  case (1 x)
  show ?case
  proof (cases "x < 128")
    case True
    then show ?thesis by (subst varint_nat.simps) simp
  next
    case False
    then have "k \<noteq> 0" using 1(2) by (intro notI) simp
    then obtain j where j: "k = Suc j" by (cases k) auto
    have "x div 128 < 2 ^ (7 * Suc j)" using 1(2) unfolding j by (simp add: less_mult_imp_div_less power_add)
    then show ?thesis using 1(1)[OF False] False by (subst varint_nat.simps) (simp add: j)
  qed
qed

lemma unat_bound32: "unat (v :: uint32) < 2 ^ 32"
  using unsigned_less[of v, where ?'a = nat] by simp

lemma pack_varint_eq: "pack_varint v = Inr (varint_nat (unat v))"
proof -
  have "(ucast v :: uint64) = of_nat (unat v)" by simp
  moreover have "unat v < 2 ^ 64" using unat_bound32[of v] by simp
  ultimately show ?thesis unfolding pack_varint_def using varint_loop_nat by metis
qed

lemma varint_codec: "codec (\<lambda>_. True) pack_varint unpack_varint"
proof
  fix v :: uint32 and bs rest
  assume "pack_varint v = Inr bs"
  then have bs: "bs = varint_nat (unat v)" by (simp add: pack_varint_eq)
  have "unat v < 2 ^ 32" by (rule unat_bound32)
  then have "unvarint_loop 0 0 (bs @ rest) = Inr (of_nat (unat v), rest)"
    using unvarint_nat[of 0 0 "unat v" rest] by (simp add: bs)
  moreover have "(ucast (of_nat (unat v) :: uint64) :: uint32) = v"
  proof (rule word_unat_eq_iff[THEN iffD2])
    have "unat (ucast (of_nat (unat v) :: uint64) :: uint32) = unat v mod 2 ^ 64 mod 2 ^ 32"
      by (simp only: unsigned_ucast_eq unat_of_nat take_bit_eq_mod) simp
    then show "unat (ucast (of_nat (unat v) :: uint64) :: uint32) = unat v"
      using unat_bound32[of v] by simp
  qed
  ultimately show "unpack_varint (bs @ rest) = Inr (v, rest)"
    by (simp add: unpack_varint_def)
qed

subsection \<open>Byte arrays, strings, booleans\<close>

definition MAX_NUM_ARRAY_ELEMENTS :: nat where "MAX_NUM_ARRAY_ELEMENTS = 1024 * 1024"

definition MAX_SIZE_OF_BYTE_ARRAYS :: nat where "MAX_SIZE_OF_BYTE_ARRAYS = 20 * 1024 * 1024"

definition fc_assert :: "bool \<Rightarrow> fc_fault + unit" where
  "fc_assert b = (if b then Inr () else Inl AssertionFailed)"

definition pack_seq :: "fc_fault + bytes \<Rightarrow> fc_fault + bytes \<Rightarrow> fc_fault + bytes" where
  "pack_seq a b = and_then a (\<lambda>x. and_then b (\<lambda>y. Inr (x @ y)))"

lemma pack_seq_Inr: "pack_seq a b = Inr bs \<longleftrightarrow> (\<exists>x y. a = Inr x \<and> b = Inr y \<and> bs = x @ y)"
  by (auto simp: pack_seq_def and_then_Inr)

lemma fc_assert_simps [simp]: "fc_assert True = Inr ()" "fc_assert b = Inr () \<longleftrightarrow> b"
  by (simp_all add: fc_assert_def)

definition pack_bytes :: "bytes packer" where
  "pack_bytes v = and_then (fc_assert (length v \<le> MAX_SIZE_OF_BYTE_ARRAYS))
     (\<lambda>_. pack_seq (pack_varint (of_nat (length v))) (Inr v))"

definition unpack_bytes :: "bytes unpacker" where
  "unpack_bytes bs = and_then (unpack_varint bs) (\<lambda>(size, rest).
     and_then (fc_assert (unat size \<le> MAX_SIZE_OF_BYTE_ARRAYS)) (\<lambda>_. read_bytes (unat size) rest))"

definition byte_char :: "uint8 \<Rightarrow> char" where "byte_char b = char_of (unat b)"

definition pack_string :: "string packer" where
  "pack_string s = pack_bytes (map of_char s)"

definition unpack_string :: "string unpacker" where
  "unpack_string bs = and_then (unpack_bytes bs) (\<lambda>(d, rest). Inr (map byte_char d, rest))"

definition pack_bool :: "bool packer" where
  "pack_bool b = pack_word 1 ((if b then 1 else 0) :: uint8)"

definition unpack_bool :: "bool unpacker" where
  "unpack_bool bs = and_then (unpack_word 1 bs) (\<lambda>(b :: uint8, rest).
     and_then (fc_assert (b AND NOT 1 = 0)) (\<lambda>_. Inr (b \<noteq> 0, rest)))"

lemma byte_char_of_char [simp]: "byte_char (of_char c) = c"
proof -
  have "unat (of_char c :: uint8) = (of_char c :: nat)"
    unfolding of_nat_of_char[symmetric, where ?'a = uint8]
    using nat_of_char_less_256[of c] by (simp add: unat_of_nat del: of_nat_of_char)
  then show ?thesis by (simp add: byte_char_def)
qed

lemma varint_length_back:
  "n \<le> MAX_SIZE_OF_BYTE_ARRAYS \<Longrightarrow> unat (of_nat n :: uint32) = n"
  "n \<le> MAX_NUM_ARRAY_ELEMENTS \<Longrightarrow> unat (of_nat n :: uint32) = n"
  by (simp_all add: unat_of_nat MAX_SIZE_OF_BYTE_ARRAYS_def MAX_NUM_ARRAY_ELEMENTS_def)

lemma bytes_codec: "codec (\<lambda>_. True) pack_bytes unpack_bytes"
proof
  fix v bs rest
  assume "pack_bytes v = Inr bs"
  then obtain l where l: "length v \<le> MAX_SIZE_OF_BYTE_ARRAYS" "pack_varint (of_nat (length v)) = Inr l" "bs = l @ v"
    by (auto simp: pack_bytes_def and_then_Inr pack_seq_Inr)
  then show "unpack_bytes (bs @ rest) = Inr (v, rest)"
    using codec.roundtrip[OF varint_codec TrueI l(2)] by (simp add: unpack_bytes_def varint_length_back)
qed

lemma string_codec: "codec (\<lambda>_. True) pack_string unpack_string"
proof
  fix v bs rest
  assume "pack_string v = Inr bs"
  then have "unpack_bytes (bs @ rest) = Inr (map of_char v, rest)"
    using codec.roundtrip[OF bytes_codec TrueI] by (simp add: pack_string_def)
  then show "unpack_string (bs @ rest) = Inr (v, rest)"
    by (simp add: unpack_string_def comp_def)
qed

lemma bool_codec: "codec (\<lambda>_. True) pack_bool unpack_bool"
proof
  fix v bs rest
  assume p: "pack_bool v = Inr bs"
  have "unpack_word 1 (bs @ rest) = Inr ((if v then 1 else 0) :: uint8, rest)"
    using codec.roundtrip[OF word_codec TrueI p[unfolded pack_bool_def]] by simp
  then show "unpack_bool (bs @ rest) = Inr (v, rest)"
    by (simp add: unpack_bool_def)
qed

subsection \<open>Optionals, pairs, vectors, maps\<close>

definition pack_optional :: "'a packer \<Rightarrow> 'a option packer" where
  "pack_optional pk v = pack_seq (pack_bool (v \<noteq> None)) (case v of None \<Rightarrow> Inr [] | Some x \<Rightarrow> pk x)"

definition unpack_optional :: "'a unpacker \<Rightarrow> 'a option unpacker" where
  "unpack_optional un bs = and_then (unpack_bool bs) (\<lambda>(b, rest).
     if b then and_then (un rest) (\<lambda>(x, rest'). Inr (Some x, rest')) else Inr (None, rest))"

definition pack_pair :: "'a packer \<Rightarrow> 'b packer \<Rightarrow> ('a \<times> 'b) packer" where
  "pack_pair pa pb v = pack_seq (pa (fst v)) (pb (snd v))"

definition unpack_pair :: "'a unpacker \<Rightarrow> 'b unpacker \<Rightarrow> ('a \<times> 'b) unpacker" where
  "unpack_pair ua ub bs = and_then (ua bs) (\<lambda>(x, rest). and_then (ub rest) (\<lambda>(y, rest'). Inr ((x, y), rest')))"

fun pack_all :: "'a packer \<Rightarrow> 'a list packer" where
  "pack_all pk [] = Inr []"
| "pack_all pk (x # xs) = pack_seq (pk x) (pack_all pk xs)"

fun unpack_n :: "'a unpacker \<Rightarrow> nat \<Rightarrow> 'a list unpacker" where
  "unpack_n un 0 bs = Inr ([], bs)"
| "unpack_n un (Suc n) bs =
     and_then (un bs) (\<lambda>(x, rest). and_then (unpack_n un n rest) (\<lambda>(xs, rest'). Inr (x # xs, rest')))"

definition pack_vector :: "'a packer \<Rightarrow> 'a list packer" where
  "pack_vector pk v = and_then (fc_assert (length v \<le> MAX_NUM_ARRAY_ELEMENTS))
     (\<lambda>_. pack_seq (pack_varint (of_nat (length v))) (pack_all pk v))"

definition unpack_vector :: "'a unpacker \<Rightarrow> 'a list unpacker" where
  "unpack_vector un bs = and_then (unpack_varint bs) (\<lambda>(size, rest).
     and_then (fc_assert (unat size \<le> MAX_NUM_ARRAY_ELEMENTS)) (\<lambda>_. unpack_n un (unat size) rest))"

text \<open>
  A \<open>std::map\<close> is the list of its entries in key order; \<open>insert\<close> keeps an entry whose key is already
  there.  \<open>key\<close> is the part of the key that its \<open>operator<\<close> compares.
\<close>

fun map_put :: "('k \<Rightarrow> 'o::linorder) \<Rightarrow> 'k \<times> 'v \<Rightarrow> ('k \<times> 'v) list \<Rightarrow> ('k \<times> 'v) list" where
  "map_put key kv [] = [kv]"
| "map_put key kv (kv' # m) =
     (if key (fst kv) < key (fst kv') then kv # kv' # m
      else if key (fst kv) = key (fst kv') then kv' # m
      else kv' # map_put key kv m)"

definition pack_map :: "'k packer \<Rightarrow> 'v packer \<Rightarrow> ('k \<times> 'v) list packer" where
  "pack_map pk pv m = pack_vector (pack_pair pk pv) m"

definition unpack_map :: "('k \<Rightarrow> 'o::linorder) \<Rightarrow> 'k unpacker \<Rightarrow> 'v unpacker \<Rightarrow> ('k \<times> 'v) list unpacker" where
  "unpack_map key uk uv bs = and_then (unpack_vector (unpack_pair uk uv) bs) (\<lambda>(kvs, rest).
     Inr (fold (map_put key) kvs [], rest))"

definition map_ok :: "('k \<Rightarrow> 'o::linorder) \<Rightarrow> ('k \<times> 'v) list \<Rightarrow> bool" where
  "map_ok key m \<longleftrightarrow> sorted_wrt (<) (map (key \<circ> fst) m)"

lemma optional_codec:
  assumes "codec ok pk un"
  shows "codec (pred_option ok) (pack_optional pk) (unpack_optional un)"
proof
  fix v bs rest
  assume "pred_option ok v" "pack_optional pk v = Inr bs"
  then obtain x y where p: "pack_bool (v \<noteq> None) = Inr x" "(case v of None \<Rightarrow> Inr [] | Some w \<Rightarrow> pk w) = Inr y"
    "bs = x @ y"
    by (auto simp: pack_optional_def pack_seq_Inr)
  have b: "unpack_bool (bs @ rest) = Inr (v \<noteq> None, y @ rest)"
    using codec.roundtrip[OF bool_codec TrueI p(1)] p(3) by simp
  show "unpack_optional un (bs @ rest) = Inr (v, rest)"
  proof (cases v)
    case (Some w)
    then have "un (y @ rest) = Inr (w, rest)"
      using codec.roundtrip[OF assms] p(2) \<open>pred_option ok v\<close> by simp
    then show ?thesis using b Some by (simp add: unpack_optional_def)
  qed (use b p(2) in \<open>simp add: unpack_optional_def\<close>)
qed

lemma pair_codec:
  assumes "codec oka pa ua" "codec okb pb ub"
  shows "codec (\<lambda>v. oka (fst v) \<and> okb (snd v)) (pack_pair pa pb) (unpack_pair ua ub)"
proof
  fix v bs rest
  assume ok: "oka (fst v) \<and> okb (snd v)" and "pack_pair pa pb v = Inr bs"
  then obtain x y where p: "pa (fst v) = Inr x" "pb (snd v) = Inr y" "bs = x @ y"
    by (auto simp: pack_pair_def pack_seq_Inr)
  then show "unpack_pair ua ub (bs @ rest) = Inr (v, rest)"
    using codec.roundtrip[OF assms(1), of "fst v" x "y @ rest"] codec.roundtrip[OF assms(2), of "snd v" y rest] ok
    by (simp add: unpack_pair_def)
qed

lemma unpack_n_all:
  assumes "codec ok pk un"
  shows "list_all ok xs \<Longrightarrow> pack_all pk xs = Inr bs \<Longrightarrow> unpack_n un (length xs) (bs @ rest) = Inr (xs, rest)"
proof (induction xs arbitrary: bs)
  case (Cons x xs)
  then obtain a b where p: "pk x = Inr a" "pack_all pk xs = Inr b" "bs = a @ b"
    by (auto simp: pack_seq_Inr)
  then show ?case
    using codec.roundtrip[OF assms, of x a "b @ rest"] Cons.IH[of b] Cons.prems(1) by simp
qed simp

lemma vector_codec:
  assumes "codec ok pk un"
  shows "codec (list_all ok) (pack_vector pk) (unpack_vector un)"
proof
  fix v bs rest
  assume ok: "list_all ok v" and "pack_vector pk v = Inr bs"
  then obtain l d where p: "length v \<le> MAX_NUM_ARRAY_ELEMENTS" "pack_varint (of_nat (length v)) = Inr l"
    "pack_all pk v = Inr d" "bs = l @ d"
    by (auto simp: pack_vector_def and_then_Inr pack_seq_Inr)
  then show "unpack_vector un (bs @ rest) = Inr (v, rest)"
    using codec.roundtrip[OF varint_codec TrueI p(2)] unpack_n_all[OF assms ok p(3)]
    by (simp add: unpack_vector_def varint_length_back)
qed

lemma map_put_last:
  "(\<And>kv'. kv' \<in> set m \<Longrightarrow> key (fst kv') < key (fst kv)) \<Longrightarrow> map_put key kv m = m @ [kv]"
  by (induction m) (force dest: order.asym)+

lemma fold_map_put: "map_ok key (m @ kvs) \<Longrightarrow> fold (map_put key) kvs m = m @ kvs"
proof (induction kvs arbitrary: m)
  case (Cons kv kvs)
  have "map_put key kv m = m @ [kv]"
    using Cons.prems by (intro map_put_last) (simp add: map_ok_def sorted_wrt_append)
  then show ?case using Cons.IH[of "m @ [kv]"] Cons.prems by simp
qed simp

lemma map_codec:
  assumes "codec okk pk uk" "codec okv pv uv"
  shows "codec (\<lambda>m. map_ok key m \<and> list_all (\<lambda>kv. okk (fst kv) \<and> okv (snd kv)) m)
    (pack_map pk pv) (unpack_map key uk uv)"
proof
  fix m bs rest
  assume ok: "map_ok key m \<and> list_all (\<lambda>kv. okk (fst kv) \<and> okv (snd kv)) m" and "pack_map pk pv m = Inr bs"
  then have "unpack_vector (unpack_pair uk uv) (bs @ rest) = Inr (m, rest)"
    using codec.roundtrip[OF vector_codec[OF pair_codec[OF assms]]] by (simp add: pack_map_def)
  then show "unpack_map key uk uv (bs @ rest) = Inr (m, rest)"
    using fold_map_put[of key "[]" m] ok by (simp add: unpack_map_def)
qed

subsection \<open>Structs\<close>

text \<open>
  The visitor of a reflected struct packs its members one after the other: a nested pair of them, read
  with \<open>f\<close> and built with \<open>g\<close>.
\<close>

definition pack_via :: "('r \<Rightarrow> 'a) \<Rightarrow> 'a packer \<Rightarrow> 'r packer" where
  "pack_via f pk r = pk (f r)"

definition unpack_via :: "('a \<Rightarrow> 'r) \<Rightarrow> 'a unpacker \<Rightarrow> 'r unpacker" where
  "unpack_via g un bs = and_then (un bs) (\<lambda>(x, rest). Inr (g x, rest))"

lemma via_codec:
  assumes "codec ok pk un" "\<And>r. g (f r) = r"
  shows "codec (\<lambda>r. ok (f r)) (pack_via f pk) (unpack_via g un)"
proof
  fix r bs rest
  assume "ok (f r)" "pack_via f pk r = Inr bs"
  then show "unpack_via g un (bs @ rest) = Inr (r, rest)"
    using codec.roundtrip[OF assms(1)] assms(2) by (simp add: pack_via_def unpack_via_def)
qed

interpretation varint: codec "\<lambda>_. True" pack_varint unpack_varint
  by (rule varint_codec)

interpretation byte_array: codec "\<lambda>_. True" pack_bytes unpack_bytes
  by (rule bytes_codec)

interpretation text_string: codec "\<lambda>_. True" pack_string unpack_string
  by (rule string_codec)

end
