(* ===== verification/Contract.thy ===== *)
theory Contract
  imports FcRaw EosioName
begin

text \<open>
  The argument structs of the contract's actions, \<open>cpp/KeyManager.cpp\<close> lines 150 to 235, with the
  binary format that \<open>FC_REFLECT\<close> gives them: the members in the order of the reflection.  Every format
  is a \<open>codec\<close>.  A \<open>name\<close> is its 64-bit value, a \<open>Timestamp\<close> the seconds of a \<open>time_point_sec\<close>.
\<close>

subsection \<open>Formats of the members\<close>

definition pack_u32 :: "uint32 packer" where "pack_u32 = pack_word 4"
definition unpack_u32 :: "uint32 unpacker" where "unpack_u32 = unpack_word 4"
definition pack_u64 :: "uint64 packer" where "pack_u64 = pack_word 8"
definition unpack_u64 :: "uint64 unpacker" where "unpack_u64 = unpack_word 8"

definition pack_tags :: "string list packer" where "pack_tags = pack_vector pack_string"
definition unpack_tags :: "string list unpacker" where "unpack_tags = unpack_vector unpack_string"

named_theorems codec_intros \<open>the codecs of all formats\<close>

lemma codec_weaken: "codec ok pk un \<Longrightarrow> (\<And>v. ok' v \<Longrightarrow> ok v) \<Longrightarrow> codec ok' pk un"
  by (simp add: codec_def)

lemma codec_total: "codec ok pk un \<Longrightarrow> (\<And>v. ok v) \<Longrightarrow> codec (\<lambda>_. True) pk un"
  by (rule codec_weaken)

lemma u32_codec [codec_intros]: "codec (\<lambda>_. True) pack_u32 unpack_u32"
  unfolding pack_u32_def unpack_u32_def by (rule word_codec) simp

lemma u64_codec [codec_intros]: "codec (\<lambda>_. True) pack_u64 unpack_u64"
  unfolding pack_u64_def unpack_u64_def by (rule word_codec) simp

lemma list_all_triv: "list_all (\<lambda>_. True) xs"
  by (simp add: list_all_iff)

lemma pred_option_triv: "pred_option (\<lambda>_. True) v"
  by (cases v) simp_all

lemma vector_total [codec_intros]:
  "codec (\<lambda>_. True) pk un \<Longrightarrow> codec (\<lambda>_. True) (pack_vector pk) (unpack_vector un)"
  by (rule codec_total[OF vector_codec], assumption) (rule list_all_triv)

lemma optional_total [codec_intros]:
  "codec (\<lambda>_. True) pk un \<Longrightarrow> codec (\<lambda>_. True) (pack_optional pk) (unpack_optional un)"
  by (rule codec_total[OF optional_codec], assumption) (rule pred_option_triv)

lemma pair_total [codec_intros]:
  "codec (\<lambda>_. True) pa ua \<Longrightarrow> codec (\<lambda>_. True) pb ub \<Longrightarrow> codec (\<lambda>_. True) (pack_pair pa pb) (unpack_pair ua ub)"
  by (rule codec_total[OF pair_codec]) simp_all

lemma via_total:
  "codec (\<lambda>_. True) pk un \<Longrightarrow> (\<And>r. g (f r) = r) \<Longrightarrow> codec (\<lambda>_. True) (pack_via f pk) (unpack_via g un)"
  by (rule codec_total[OF via_codec]) simp_all

lemma tags_codec [codec_intros]: "codec (\<lambda>_. True) pack_tags unpack_tags"
  unfolding pack_tags_def unpack_tags_def by (intro vector_total string_codec)

declare string_codec [codec_intros]

subsection \<open>Contestants and opinions\<close>

record ContestantDescriptor =
  cdName :: string
  cdDescription :: string
  cdTags :: "string list"

definition pack_contestant :: "ContestantDescriptor packer" where
  "pack_contestant = pack_via (\<lambda>r. (cdName r, cdDescription r, cdTags r))
     (pack_pair pack_string (pack_pair pack_string pack_tags))"

definition unpack_contestant :: "ContestantDescriptor unpacker" where
  "unpack_contestant = unpack_via (\<lambda>(n, d, t). \<lparr>cdName = n, cdDescription = d, cdTags = t\<rparr>)
     (unpack_pair unpack_string (unpack_pair unpack_string unpack_tags))"

text \<open>\<open>operator<\<close> compares the name, then the description; the order of pairs of texts, as one text.\<close>

definition contestant_key :: "ContestantDescriptor \<Rightarrow> string list" where
  "contestant_key c = [cdName c, cdDescription c]"

record FullOpinions =
  contestantOpinions :: "(uint64 \<times> uint32) list"
  writeInOpinions :: "(ContestantDescriptor \<times> uint32) list"

definition pack_opinions :: "FullOpinions packer" where
  "pack_opinions = pack_via (\<lambda>r. (contestantOpinions r, writeInOpinions r))
     (pack_pair (pack_map pack_u64 pack_u32) (pack_map pack_contestant pack_u32))"

definition unpack_opinions :: "FullOpinions unpacker" where
  "unpack_opinions = unpack_via (\<lambda>(c, w). \<lparr>contestantOpinions = c, writeInOpinions = w\<rparr>)
     (unpack_pair (unpack_map id unpack_u64 unpack_u32) (unpack_map contestant_key unpack_contestant unpack_u32))"

text \<open>The lists are maps: strictly ascending keys.\<close>

definition opinions_ok :: "FullOpinions \<Rightarrow> bool" where
  "opinions_ok r \<longleftrightarrow> map_ok id (contestantOpinions r) \<and> map_ok contestant_key (writeInOpinions r)"

lemma contestant_codec [codec_intros]: "codec (\<lambda>_. True) pack_contestant unpack_contestant"
  unfolding pack_contestant_def unpack_contestant_def
  by (rule via_total) (intro codec_intros, simp)

lemma opinions_codec: "codec opinions_ok pack_opinions unpack_opinions"
proof -
  have "codec (\<lambda>r. (map_ok id (contestantOpinions r) \<and> list_all (\<lambda>kv. True \<and> True) (contestantOpinions r)) \<and>
      (map_ok contestant_key (writeInOpinions r) \<and> list_all (\<lambda>kv. True \<and> True) (writeInOpinions r)))
    pack_opinions unpack_opinions"
    unfolding pack_opinions_def unpack_opinions_def
    using via_codec[OF pair_codec[OF map_codec[OF u64_codec u32_codec, of id]
        map_codec[OF contestant_codec u32_codec, of contestant_key]],
        of "\<lambda>(c, w). \<lparr>contestantOpinions = c, writeInOpinions = w\<rparr>" "\<lambda>r. (contestantOpinions r, writeInOpinions r)"]
    by simp
  then show ?thesis by (rule codec_weaken) (simp add: opinions_ok_def list_all_triv)
qed

subsection \<open>Arguments of the actions\<close>

record voter_add =
  vaGroupName :: string
  vaVoter :: uint64
  vaWeight :: uint32
  vaTags :: "string list"

definition pack_voter_add :: "voter_add packer" where
  "pack_voter_add = pack_via (\<lambda>r. (vaGroupName r, vaVoter r, vaWeight r, vaTags r))
     (pack_pair pack_string (pack_pair pack_u64 (pack_pair pack_u32 pack_tags)))"

definition unpack_voter_add :: "voter_add unpacker" where
  "unpack_voter_add = unpack_via (\<lambda>(g, v, w, t). \<lparr>vaGroupName = g, vaVoter = v, vaWeight = w, vaTags = t\<rparr>)
     (unpack_pair unpack_string (unpack_pair unpack_u64 (unpack_pair unpack_u32 unpack_tags)))"

record voter_remove =
  vrGroupName :: string
  vrVoter :: uint64

definition pack_voter_remove :: "voter_remove packer" where
  "pack_voter_remove = pack_via (\<lambda>r. (vrGroupName r, vrVoter r)) (pack_pair pack_string pack_u64)"

definition unpack_voter_remove :: "voter_remove unpacker" where
  "unpack_voter_remove = unpack_via (\<lambda>(g, v). \<lparr>vrGroupName = g, vrVoter = v\<rparr>) (unpack_pair unpack_string unpack_u64)"

text \<open>\<open>group_copy\<close> and \<open>group_rename\<close> have the same members, and so have \<open>cntst_tally\<close> and \<open>cntst_delete\<close>.\<close>

record group_names =
  gnGroupName :: string
  gnNewName :: string

definition pack_group_names :: "group_names packer" where
  "pack_group_names = pack_via (\<lambda>r. (gnGroupName r, gnNewName r)) (pack_pair pack_string pack_string)"

definition unpack_group_names :: "group_names unpacker" where
  "unpack_group_names = unpack_via (\<lambda>(g, n). \<lparr>gnGroupName = g, gnNewName = n\<rparr>) (unpack_pair unpack_string unpack_string)"

record cntst_new =
  cnGroupId :: uint64
  cnName :: string
  cnDescription :: string
  cnContestants :: "ContestantDescriptor list"
  cnBegin :: uint32
  cnEnd :: uint32
  cnTags :: "string list"

definition pack_cntst_new :: "cntst_new packer" where
  "pack_cntst_new = pack_via
     (\<lambda>r. (cnGroupId r, cnName r, cnDescription r, cnContestants r, cnBegin r, cnEnd r, cnTags r))
     (pack_pair pack_u64 (pack_pair pack_string (pack_pair pack_string (pack_pair (pack_vector pack_contestant)
       (pack_pair pack_u32 (pack_pair pack_u32 pack_tags))))))"

definition unpack_cntst_new :: "cntst_new unpacker" where
  "unpack_cntst_new = unpack_via
     (\<lambda>(g, n, d, c, b, e, t). \<lparr>cnGroupId = g, cnName = n, cnDescription = d, cnContestants = c,
        cnBegin = b, cnEnd = e, cnTags = t\<rparr>)
     (unpack_pair unpack_u64 (unpack_pair unpack_string (unpack_pair unpack_string
       (unpack_pair (unpack_vector unpack_contestant) (unpack_pair unpack_u32 (unpack_pair unpack_u32 unpack_tags))))))"

record cntst_modify =
  cmGroupId :: uint64
  cmContestId :: uint64
  cmNewName :: "string option"
  cmNewDescription :: "string option"
  cmNewTags :: "string list option"
  cmDeleteContestants :: "uint64 list"
  cmAddContestants :: "ContestantDescriptor list"
  cmNewBegin :: "uint32 option"
  cmNewEnd :: "uint32 option"

definition pack_cntst_modify :: "cntst_modify packer" where
  "pack_cntst_modify = pack_via
     (\<lambda>r. (cmGroupId r, cmContestId r, cmNewName r, cmNewDescription r, cmNewTags r,
          cmDeleteContestants r, cmAddContestants r, cmNewBegin r, cmNewEnd r))
     (pack_pair pack_u64 (pack_pair pack_u64 (pack_pair (pack_optional pack_string)
       (pack_pair (pack_optional pack_string) (pack_pair (pack_optional pack_tags)
       (pack_pair (pack_vector pack_u64) (pack_pair (pack_vector pack_contestant)
       (pack_pair (pack_optional pack_u32) (pack_optional pack_u32)))))))))"

definition unpack_cntst_modify :: "cntst_modify unpacker" where
  "unpack_cntst_modify = unpack_via
     (\<lambda>(g, c, n, d, t, dc, ac, b, e). \<lparr>cmGroupId = g, cmContestId = c, cmNewName = n, cmNewDescription = d,
        cmNewTags = t, cmDeleteContestants = dc, cmAddContestants = ac, cmNewBegin = b, cmNewEnd = e\<rparr>)
     (unpack_pair unpack_u64 (unpack_pair unpack_u64 (unpack_pair (unpack_optional unpack_string)
       (unpack_pair (unpack_optional unpack_string) (unpack_pair (unpack_optional unpack_tags)
       (unpack_pair (unpack_vector unpack_u64) (unpack_pair (unpack_vector unpack_contestant)
       (unpack_pair (unpack_optional unpack_u32) (unpack_optional unpack_u32)))))))))"

record contest_ids =
  ciGroupId :: uint64
  ciContestId :: uint64

definition pack_contest_ids :: "contest_ids packer" where
  "pack_contest_ids = pack_via (\<lambda>r. (ciGroupId r, ciContestId r)) (pack_pair pack_u64 pack_u64)"

definition unpack_contest_ids :: "contest_ids unpacker" where
  "unpack_contest_ids = unpack_via (\<lambda>(g, c). \<lparr>ciGroupId = g, ciContestId = c\<rparr>) (unpack_pair unpack_u64 unpack_u64)"

record dcsn_set =
  dsGroupId :: uint64
  dsContestId :: uint64
  dsVoterName :: uint64
  dsOpinions :: FullOpinions
  dsTags :: "string list"

definition pack_dcsn_set :: "dcsn_set packer" where
  "pack_dcsn_set = pack_via (\<lambda>r. (dsGroupId r, dsContestId r, dsVoterName r, dsOpinions r, dsTags r))
     (pack_pair pack_u64 (pack_pair pack_u64 (pack_pair pack_u64 (pack_pair pack_opinions pack_tags))))"

definition unpack_dcsn_set :: "dcsn_set unpacker" where
  "unpack_dcsn_set = unpack_via
     (\<lambda>(g, c, v, os, t). \<lparr>dsGroupId = g, dsContestId = c, dsVoterName = v, dsOpinions = os, dsTags = t\<rparr>)
     (unpack_pair unpack_u64 (unpack_pair unpack_u64 (unpack_pair unpack_u64 (unpack_pair unpack_opinions unpack_tags))))"

lemma voter_add_codec: "codec (\<lambda>_. True) pack_voter_add unpack_voter_add"
  unfolding pack_voter_add_def unpack_voter_add_def by (rule via_total) (intro codec_intros, simp)

lemma voter_remove_codec: "codec (\<lambda>_. True) pack_voter_remove unpack_voter_remove"
  unfolding pack_voter_remove_def unpack_voter_remove_def by (rule via_total) (intro codec_intros, simp)

lemma group_names_codec: "codec (\<lambda>_. True) pack_group_names unpack_group_names"
  unfolding pack_group_names_def unpack_group_names_def by (rule via_total) (intro codec_intros, simp)

lemma cntst_new_codec: "codec (\<lambda>_. True) pack_cntst_new unpack_cntst_new"
  unfolding pack_cntst_new_def unpack_cntst_new_def by (rule via_total) (intro codec_intros, simp)

lemma cntst_modify_codec: "codec (\<lambda>_. True) pack_cntst_modify unpack_cntst_modify"
  unfolding pack_cntst_modify_def unpack_cntst_modify_def by (rule via_total) (intro codec_intros, simp)

lemma contest_ids_codec: "codec (\<lambda>_. True) pack_contest_ids unpack_contest_ids"
  unfolding pack_contest_ids_def unpack_contest_ids_def by (rule via_total) (intro codec_intros, simp)

lemma dcsn_set_codec: "codec (\<lambda>r. opinions_ok (dsOpinions r)) pack_dcsn_set unpack_dcsn_set"
proof -
  have "codec (\<lambda>r. True \<and> True \<and> True \<and> opinions_ok (dsOpinions r) \<and> True) pack_dcsn_set unpack_dcsn_set"
    unfolding pack_dcsn_set_def unpack_dcsn_set_def
    using via_codec[OF pair_codec[OF u64_codec pair_codec[OF u64_codec pair_codec[OF u64_codec
        pair_codec[OF opinions_codec tags_codec]]]],
        of "\<lambda>(g, c, v, os, t). \<lparr>dsGroupId = g, dsContestId = c, dsVoterName = v, dsOpinions = os, dsTags = t\<rparr>"
        "\<lambda>r. (dsGroupId r, dsContestId r, dsVoterName r, dsOpinions r, dsTags r)"]
    by simp
  then show ?thesis by (rule codec_weaken) simp
qed

interpretation voter_add_format: codec "\<lambda>_. True" pack_voter_add unpack_voter_add
  by (rule voter_add_codec)

interpretation cntst_modify_format: codec "\<lambda>_. True" pack_cntst_modify unpack_cntst_modify
  by (rule cntst_modify_codec)

interpretation dcsn_set_format: codec "\<lambda>r. opinions_ok (dsOpinions r)" pack_dcsn_set unpack_dcsn_set
  by (rule dcsn_set_codec)

subsection \<open>One type of arguments\<close>

datatype action_args =
    ArgsVoterAdd voter_add
  | ArgsVoterRemove voter_remove
  | ArgsGroupCopy group_names
  | ArgsGroupRename group_names
  | ArgsCntstNew cntst_new
  | ArgsCntstModify cntst_modify
  | ArgsCntstTally contest_ids
  | ArgsCntstDelete contest_ids
  | ArgsDcsnSet dcsn_set

fun pack_args :: "action_args packer" where
  "pack_args (ArgsVoterAdd r) = pack_voter_add r"
| "pack_args (ArgsVoterRemove r) = pack_voter_remove r"
| "pack_args (ArgsGroupCopy r) = pack_group_names r"
| "pack_args (ArgsGroupRename r) = pack_group_names r"
| "pack_args (ArgsCntstNew r) = pack_cntst_new r"
| "pack_args (ArgsCntstModify r) = pack_cntst_modify r"
| "pack_args (ArgsCntstTally r) = pack_contest_ids r"
| "pack_args (ArgsCntstDelete r) = pack_contest_ids r"
| "pack_args (ArgsDcsnSet r) = pack_dcsn_set r"

fun args_ok :: "action_args \<Rightarrow> bool" where
  "args_ok (ArgsDcsnSet r) = opinions_ok (dsOpinions r)"
| "args_ok _ = True"

end
