(* ===== verification/Actions.thy ===== *)
theory Actions
  imports Strings
begin

text \<open>
  \<open>cpp/Action.hpp\<close>, \<open>cpp/Action.cpp\<close>, \<open>cpp/MutableTransaction.*\<close> and \<open>cpp/SignableTransaction.*\<close>: the
  actions of the contract, the checks of their names and arguments, their descriptions, and the
  transaction QML builds from them.  A \<open>QObject\<close> is an address (a number) and its contents live in a
  heap; a null pointer is \<open>None\<close>.  Signals are collected in a list.  A JSON object lists its members
  in key order, so equal objects are equal lists.
\<close>

type_synonym json_object = "(string \<times> json) list"

subsection \<open>Place markers\<close>

text \<open>\<open>QString::arg\<close> with several arguments replaces all place markers of the template at once.\<close>

fun qarg :: "string list \<Rightarrow> string \<Rightarrow> string" where
  "qarg args [] = []"
| "qarg args [c] = [c]"
| "qarg args (c # d # s) =
     (if c = CHR ''%'' \<and> CHR ''1'' \<le> d \<and> of_char d < 49 + length args
      then args ! (of_char d - 49) @ qarg args s
      else c # qarg args (d # s))"

definition authorization :: "string \<Rightarrow> string \<Rightarrow> string" where
  "authorization actor permission = qarg [actor, permission] AuthorizationTemplate"

lemma authorization_text [simp]: "authorization actor permission = actor @ ''@'' @ permission"
  by (simp add: authorization_def AuthorizationTemplate_def less_eq_char_def)

subsection \<open>Actions\<close>

record Action =
  account :: string
  actionName :: string
  authorizations :: "string list"
  arguments :: json_object

definition new_Action :: Action where
  "new_Action = \<lparr>account = [], actionName = [], authorizations = [], arguments = []\<rparr>"

datatype action_signal =
    AccountChanged string
  | ActionNameChanged string
  | AuthorizationsChanged "string list"
  | ArgumentsChanged json_object

definition setAccount :: "string \<Rightarrow> Action \<Rightarrow> Action \<times> action_signal list" where
  "setAccount v a = (if account a = v then (a, []) else (a\<lparr>account := v\<rparr>, [AccountChanged v]))"

definition setActionName :: "string \<Rightarrow> Action \<Rightarrow> Action \<times> action_signal list" where
  "setActionName v a = (if actionName a = v then (a, []) else (a\<lparr>actionName := v\<rparr>, [ActionNameChanged v]))"

definition setAuthorizations :: "string list \<Rightarrow> Action \<Rightarrow> Action \<times> action_signal list" where
  "setAuthorizations v a =
     (if authorizations a = v then (a, []) else (a\<lparr>authorizations := v\<rparr>, [AuthorizationsChanged v]))"

definition setArguments :: "json_object \<Rightarrow> Action \<Rightarrow> Action \<times> action_signal list" where
  "setArguments v a = (if arguments a = v then (a, []) else (a\<lparr>arguments := v\<rparr>, [ArgumentsChanged v]))"

lemma set_Action_fields [simp]:
  "fst (setAccount v a) = a\<lparr>account := v\<rparr>"
  "fst (setActionName v a) = a\<lparr>actionName := v\<rparr>"
  "fst (setAuthorizations w a) = a\<lparr>authorizations := w\<rparr>"
  "fst (setArguments x a) = a\<lparr>arguments := x\<rparr>"
  by (auto simp: setAccount_def setActionName_def setAuthorizations_def setArguments_def)

text \<open>\<open>validateName\<close> and \<open>validateArguments\<close>; \<open>QMap::operator[]\<close> of a missing key is the empty set.\<close>

definition validateName :: "string \<Rightarrow> bool" where
  "validateName action \<longleftrightarrow> action \<in> set (map fst LegalActionArguments)"

definition legalArguments :: "string \<Rightarrow> string set" where
  "legalArguments action = (case map_of LegalActionArguments action of Some args \<Rightarrow> args | None \<Rightarrow> {})"

definition validateArguments :: "string \<Rightarrow> json_object \<Rightarrow> bool" where
  "validateArguments action args \<longleftrightarrow> legalArguments action = set (map fst args)"

subsection \<open>Descriptions\<close>

definition half :: "int \<Rightarrow> int" where
  "half n = (if 0 \<le> n then n div 2 else - ((- n) div 2))"

text \<open>\<open>QString::left\<close> and \<open>right\<close> give the whole text for a negative or too large length.\<close>

definition left :: "int \<Rightarrow> string \<Rightarrow> string" where
  "left n s = (if n < 0 \<or> int (length s) \<le> n then s else take (nat n) s)"

definition right :: "int \<Rightarrow> string \<Rightarrow> string" where
  "right n s = (if n < 0 \<or> int (length s) \<le> n then s else drop (length s - nat n) s)"

definition elide :: "int \<Rightarrow> string \<Rightarrow> string" where
  "elide elideAfter s =
     (if int (length s) > elideAfter
      then left (half elideAfter) s @ ''...'' @ right (half elideAfter) s
      else s)"

text \<open>The member of the arguments as text: \<open>QJsonValue::toString\<close> is empty for anything but a string.\<close>

definition arg_text :: "Action \<Rightarrow> string \<Rightarrow> string" where
  "arg_text a k = toString (jmember (arguments a) k)"

definition describe :: "int \<Rightarrow> Action \<Rightarrow> string" where
  "describe elideAfter a =
     (if \<not> validateArguments (actionName a) (arguments a) then ''Invalid action''
      else if actionName a = VoterAdd then
        qarg [elide elideAfter (arg_text a Voter), elide elideAfter (arg_text a GroupName)]
          ''Add voter <b>%1</b> to polling group <b>%2</b>''
      else if actionName a = VoterRemove then
        qarg [elide elideAfter (arg_text a Voter), elide elideAfter (arg_text a GroupName)]
          ''Remove voter <b>%1</b> from polling group <b>%2</b>''
      else if actionName a = GroupCopy then
        qarg [elide elideAfter (arg_text a GroupName), elide elideAfter (arg_text a NewName)]
          ''Copy polling group <b>%1</b> naming the new group <b>%2</b>''
      else if actionName a = GroupRename then
        qarg [elide elideAfter (arg_text a GroupName), elide elideAfter (arg_text a NewName)]
          ''Rename polling group <b>%1</b> to <b>%2</b>''
      else if actionName a = CntstNew then
        qarg [arg_text a GroupId, arg_text a Name]
          ''Create new contest for polling group <b>ID %1</b> with name <b>%2</b>''
      else if actionName a = CntstModify then
        qarg [arg_text a ContestId, arg_text a GroupId]
          ''Modify contest <b>ID %1</b> in polling group <b>ID %2</b>''
      else if actionName a = CntstTally then
        qarg [arg_text a ContestId, arg_text a GroupId]
          ''Tally contest <b>ID %1</b> in polling group <b>ID %2</b>''
      else if actionName a = CntstDelete then
        qarg [arg_text a ContestId, arg_text a GroupId]
          ''Delete contest <b>ID %1</b> from polling group <b>ID %2</b>''
      else if actionName a = DcsnSet then
        qarg [arg_text a ContestId, arg_text a GroupId, arg_text a VoterName]
          ''Set decision on contest <b>ID %1</b> in polling group <b>ID %2</b> for voter <b>ID %3</b>''
      else ''Unknown action'')"

subsection \<open>Transactions under construction\<close>

datatype transaction_signal =
    ActionsChanged "nat list"
  | ExpirationChanged "int option"
  | RefBlockIdChanged string
  | MaxNetWordsChanged uint64
  | MaxCpuMsChanged "8 word"
  | DelaySecondsChanged uint64

text \<open>
  \<open>trxObjects\<close> are the actions in memory by address, \<open>trxChildren\<close> the objects whose parent is this
  transaction, \<open>trxDoomed\<close> those given to \<open>deleteLater\<close>.  A null date is \<open>None\<close>; a null byte array
  equals an empty one, and \<open>isNull\<close> is kept beside it.
\<close>

record MutableTransaction =
  trxExpiration :: "int option"
  trxRefBlockId :: string
  trxRefBlockIdNull :: bool
  trxMaxNetWords :: uint64
  trxMaxCpuMs :: "8 word"
  trxDelaySeconds :: uint64
  trxActions :: "nat list"
  trxObjects :: "nat \<Rightarrow> Action option"
  trxChildren :: "nat list"
  trxDoomed :: "nat list"
  trxSignals :: "transaction_signal list"

definition new_MutableTransaction :: MutableTransaction where
  "new_MutableTransaction = \<lparr>trxExpiration = None, trxRefBlockId = [], trxRefBlockIdNull = True,
     trxMaxNetWords = 0, trxMaxCpuMs = 0, trxDelaySeconds = 0, trxActions = [],
     trxObjects = Map.empty, trxChildren = [], trxDoomed = [], trxSignals = []\<rparr>"

definition trx_signal :: "transaction_signal \<Rightarrow> MutableTransaction \<Rightarrow> MutableTransaction" where
  "trx_signal s t = t\<lparr>trxSignals := trxSignals t @ [s]\<rparr>"

definition setExpiration :: "int option \<Rightarrow> MutableTransaction \<Rightarrow> MutableTransaction" where
  "setExpiration v t =
     (if trxExpiration t \<noteq> v then trx_signal (ExpirationChanged v) (t\<lparr>trxExpiration := v\<rparr>) else t)"

definition setRefBlockId :: "string \<Rightarrow> bool \<Rightarrow> MutableTransaction \<Rightarrow> MutableTransaction" where
  "setRefBlockId v null t =
     (if trxRefBlockId t \<noteq> v
      then trx_signal (RefBlockIdChanged v) (t\<lparr>trxRefBlockId := v, trxRefBlockIdNull := null\<rparr>) else t)"

definition setMaxNetWords :: "uint64 \<Rightarrow> MutableTransaction \<Rightarrow> MutableTransaction" where
  "setMaxNetWords v t =
     (if trxMaxNetWords t \<noteq> v then trx_signal (MaxNetWordsChanged v) (t\<lparr>trxMaxNetWords := v\<rparr>) else t)"

definition setMaxCpuMs :: "8 word \<Rightarrow> MutableTransaction \<Rightarrow> MutableTransaction" where
  "setMaxCpuMs v t =
     (if trxMaxCpuMs t \<noteq> v then trx_signal (MaxCpuMsChanged v) (t\<lparr>trxMaxCpuMs := v\<rparr>) else t)"

definition setDelaySeconds :: "uint64 \<Rightarrow> MutableTransaction \<Rightarrow> MutableTransaction" where
  "setDelaySeconds v t =
     (if trxDelaySeconds t \<noteq> v then trx_signal (DelaySecondsChanged v) (t\<lparr>trxDelaySeconds := v\<rparr>) else t)"

text \<open>\<open>std::remove_if\<close> and \<open>erase\<close> leave the pointers that are not null.\<close>

definition non_null :: "nat option list \<Rightarrow> nat list" where
  "non_null ps = concat (map (\<lambda>p. case p of Some a \<Rightarrow> [a] | None \<Rightarrow> []) ps)"

definition setActions :: "nat option list \<Rightarrow> MutableTransaction \<Rightarrow> MutableTransaction" where
  "setActions actions t =
     (let kept = non_null actions in
      if kept = [] \<and> actions \<noteq> [] then t
      else if trxActions t \<noteq> kept then
        trx_signal (ActionsChanged kept)
          (t\<lparr>trxActions := kept, trxChildren := trxChildren t @ filter (\<lambda>a. a \<notin> set (trxChildren t)) (remdups kept)\<rparr>)
      else t)"

definition built_action :: "string \<Rightarrow> json_object \<Rightarrow> Action" where
  "built_action name args =
     (let a1 = fst (setAccount Contract_name new_Action);
          a2 = fst (setActionName name a1);
          a3 = fst (setArguments args a2)
      in if name = DcsnSet
         then fst (setAuthorizations [authorization (toString (jmember args VoterName)) Active] a3)
         else fst (setAuthorizations [authorization Contract_name Active] a3))"

text \<open>\<open>p\<close> is the address \<open>new Action(this)\<close> returns.\<close>

definition addAction :: "nat \<Rightarrow> string \<Rightarrow> json_object \<Rightarrow> MutableTransaction \<Rightarrow> MutableTransaction" where
  "addAction p name args t =
     (if \<not> validateName name then t
      else if \<not> validateArguments name args then t
      else trx_signal (ActionsChanged (trxActions t @ [p]))
             (t\<lparr>trxObjects := (trxObjects t)(p \<mapsto> built_action name args),
                trxChildren := trxChildren t @ [p], trxActions := trxActions t @ [p]\<rparr>))"

definition deleteAction :: "int \<Rightarrow> MutableTransaction \<Rightarrow> MutableTransaction" where
  "deleteAction index t =
     (if 0 \<le> index \<and> index < int (length (trxActions t))
      then let i = nat index; rest = remove_at i (trxActions t) in
        trx_signal (ActionsChanged rest)
          (t\<lparr>trxActions := rest, trxDoomed := trxDoomed t @ [trxActions t ! i]\<rparr>)
      else t)"

subsection \<open>Transactions to sign\<close>

definition signable_keys :: "string set" where
  "signable_keys = {''expiration'', ''ref_block_num'', ''ref_block_prefix'', ''max_net_usage_words'',
     ''max_cpu_usage_ms'', ''delay_sec'', ''context_free_actions'', ''actions'',
     ''transaction_extensions'', ''signatures'', ''context_free_data''}"

record SignableTransaction =
  signableJson :: json_object
  signableLog :: "json_object list"

text \<open>The constructor keeps the object in any case; unexpected keys are only logged.\<close>

definition new_SignableTransaction :: "json_object \<Rightarrow> SignableTransaction" where
  "new_SignableTransaction js = \<lparr>signableJson = js, signableLog = []\<rparr>"

text \<open>
  \<open>isoDate\<close> is the text of the date; \<open>back()\<close> of an empty text is outside the domain of the function,
  here \<open>None\<close>.  \<open>jsonChanged\<close> is not emitted.
\<close>

definition signable_setExpiration :: "string \<Rightarrow> SignableTransaction \<Rightarrow> SignableTransaction option" where
  "signable_setExpiration isoDate s =
     (if isoDate = [] then None
      else Some (s\<lparr>signableJson := jinsert ''expiration''
             (JStr (if last isoDate = CHR ''Z'' then butlast isoDate else isoDate)) (signableJson s)\<rparr>))"

definition addSignature :: "string \<Rightarrow> SignableTransaction \<Rightarrow> SignableTransaction" where
  "addSignature sig s =
     (let js = jinsert ''signatures''
                 (JArr (toArray (jmember (signableJson s) ''signatures'') @ [JStr sig])) (signableJson s)
      in s\<lparr>signableJson := js, signableLog := signableLog s @ [js]\<rparr>)"

end
