(* ===== verification/EosioTypes.thy ===== *)
theory EosioTypes
  imports Contract Actions
begin

text \<open>
  The chain's types in \<open>cpp/KeyManager.cpp\<close>, lines 237 to 475: permission levels, actions, transactions,
  their binary formats, the digest a signature covers and the packed form that is broadcast.  A
  \<open>sha256\<close> is its 32 bytes in memory order; the hash function, zlib, signatures and the conversions
  between JSON and structs are the parameters \<open>fc_env\<close> and \<open>args_json\<close>.
\<close>

subsection \<open>Faults\<close>

datatype key_fault = Fc fc_fault | NullPointer | Dangling nat

definition fc :: "fc_fault + 'a \<Rightarrow> key_fault + 'a" where
  "fc m = (case m of Inl e \<Rightarrow> Inl (Fc e) | Inr x \<Rightarrow> Inr x)"

lemma fc_simps [simp]: "fc (Inl e) = Inl (Fc e)" "fc (Inr x) = Inr x"
  by (simp_all add: fc_def)

lemma fc_Inr: "fc m = Inr x \<longleftrightarrow> m = Inr x"
  by (cases m) simp_all

subsection \<open>Permission levels and actions\<close>

record permission_level =
  plActor :: uint64
  plPermission :: uint64

definition new_permission_level :: permission_level where
  "new_permission_level = \<lparr>plActor = 0, plPermission = 0\<rparr>"

text \<open>The text is split at its first \<open>@\<close>; without one both names keep their default.\<close>

definition make_permission_level :: "string \<Rightarrow> permission_level" where
  "make_permission_level p =
     (let actor = takeWhile (\<lambda>c. c \<noteq> CHR ''@'') p in
      if actor = p then new_permission_level
      else \<lparr>plActor = make_name actor, plPermission = make_name (drop (Suc (length actor)) p)\<rparr>)"

record action =
  acAccount :: uint64
  acName :: uint64
  acAuthorization :: "permission_level list"
  acData :: bytes

definition new_action :: action where
  "new_action = \<lparr>acAccount = 0, acName = 0, acAuthorization = [], acData = []\<rparr>"

text \<open>
  Conversions of fc between the arguments of an action as a JSON object and the contract's structs:
  printing and parsing the text, and the visitors of \<open>FC_REFLECT\<close>.
\<close>

record args_json =
  fromVoterAdd :: "json_object \<Rightarrow> fc_fault + voter_add"
  fromVoterRemove :: "json_object \<Rightarrow> fc_fault + voter_remove"
  fromGroupNames :: "json_object \<Rightarrow> fc_fault + group_names"
  fromCntstNew :: "json_object \<Rightarrow> fc_fault + cntst_new"
  fromCntstModify :: "json_object \<Rightarrow> fc_fault + cntst_modify"
  fromContestIds :: "json_object \<Rightarrow> fc_fault + contest_ids"
  fromDcsnSet :: "json_object \<Rightarrow> fc_fault + dcsn_set"
  toArgs :: "action_args \<Rightarrow> fc_fault + json_object"

definition fc_map :: "('a \<Rightarrow> 'b) \<Rightarrow> fc_fault + 'a \<Rightarrow> fc_fault + 'b" where
  "fc_map f m = and_then m (\<lambda>x. Inr (f x))"

lemma fc_map_Inr: "fc_map f m = Inr y \<longleftrightarrow> (\<exists>x. m = Inr x \<and> y = f x)"
  by (auto simp: fc_map_def and_then_Inr)

text \<open>The \<open>switch\<close> of the constructor; \<open>None\<close> is its \<open>default\<close>.\<close>

definition parse_args :: "args_json \<Rightarrow> uint64 \<Rightarrow> json_object \<Rightarrow> (fc_fault + action_args) option" where
  "parse_args J n obj =
     (if n = string_to_uint64_c ''voter.add'' then Some (fc_map ArgsVoterAdd (fromVoterAdd J obj))
      else if n = string_to_uint64_c ''voter.remove'' then Some (fc_map ArgsVoterRemove (fromVoterRemove J obj))
      else if n = string_to_uint64_c ''group.copy'' then Some (fc_map ArgsGroupCopy (fromGroupNames J obj))
      else if n = string_to_uint64_c ''group.rename'' then Some (fc_map ArgsGroupRename (fromGroupNames J obj))
      else if n = string_to_uint64_c ''cntst.new'' then Some (fc_map ArgsCntstNew (fromCntstNew J obj))
      else if n = string_to_uint64_c ''cntst.modify'' then Some (fc_map ArgsCntstModify (fromCntstModify J obj))
      else if n = string_to_uint64_c ''cntst.tally'' then Some (fc_map ArgsCntstTally (fromContestIds J obj))
      else if n = string_to_uint64_c ''cntst.delete'' then Some (fc_map ArgsCntstDelete (fromContestIds J obj))
      else if n = string_to_uint64_c ''dcsn.set'' then Some (fc_map ArgsDcsnSet (fromDcsnSet J obj))
      else None)"

text \<open>The constructor from a \<open>QObject\<close>: a null pointer and an unknown name are only logged.\<close>

definition make_action :: "args_json \<Rightarrow> Action option \<Rightarrow> fc_fault + action" where
  "make_action J a =
     (case a of
        None \<Rightarrow> Inr new_action
      | Some a \<Rightarrow>
          (let act = \<lparr>acAccount = make_name (account a), acName = make_name (actionName a),
                 acAuthorization = map make_permission_level (authorizations a), acData = []\<rparr>
           in case parse_args J (acName act) (arguments a) of
                None \<Rightarrow> Inr act
              | Some m \<Rightarrow> and_then m (\<lambda>args. fc_map (\<lambda>d. act\<lparr>acData := d\<rparr>) (pack_args args))))"

text \<open>\<open>fromQList\<close>: the pointers are dereferenced one after the other.\<close>

fun fromQList :: "args_json \<Rightarrow> (nat \<Rightarrow> Action option) \<Rightarrow> nat list \<Rightarrow> key_fault + action list" where
  "fromQList J objects [] = Inr []"
| "fromQList J objects (p # ps) =
     (case objects p of
        None \<Rightarrow> Inl (Dangling p)
      | Some a \<Rightarrow> and_then (fc (make_action J (Some a))) (\<lambda>x.
          and_then (fromQList J objects ps) (\<lambda>xs. Inr (x # xs))))"

subsection \<open>Transactions\<close>

record transaction_header =
  expiration :: uint32
  ref_block_num :: uint16
  ref_block_prefix :: uint32
  max_net_usage_words :: uint32
  max_cpu_usage_ms :: uint8
  delay_sec :: uint32

record transaction = transaction_header +
  context_free_actions :: "action list"
  actions :: "action list"
  transaction_extensions :: "(uint16 \<times> bytes) list"

record signed_transaction = transaction +
  signatures :: "string list"
  context_free_data :: "bytes list"

definition new_signed_transaction :: signed_transaction where
  "new_signed_transaction = \<lparr>expiration = 0, ref_block_num = 0, ref_block_prefix = 0,
     max_net_usage_words = 0, max_cpu_usage_ms = 0, delay_sec = 0,
     context_free_actions = [], actions = [], transaction_extensions = [],
     signatures = [], context_free_data = []\<rparr>"

text \<open>The part of a signed transaction that is a \<open>transaction\<close>: the slice of the base class.\<close>

definition base_transaction :: "signed_transaction \<Rightarrow> transaction" where
  "base_transaction t = transaction.truncate t"

subsection \<open>Binary formats\<close>

definition pack_permission_level :: "permission_level packer" where
  "pack_permission_level = pack_via (\<lambda>r. (plActor r, plPermission r)) (pack_pair pack_u64 pack_u64)"

definition unpack_permission_level :: "permission_level unpacker" where
  "unpack_permission_level = unpack_via (\<lambda>(a, p). \<lparr>plActor = a, plPermission = p\<rparr>) (unpack_pair unpack_u64 unpack_u64)"

definition pack_action :: "action packer" where
  "pack_action = pack_via (\<lambda>r. (acAccount r, acName r, acAuthorization r, acData r))
     (pack_pair pack_u64 (pack_pair pack_u64 (pack_pair (pack_vector pack_permission_level) pack_bytes)))"

definition unpack_action :: "action unpacker" where
  "unpack_action = unpack_via (\<lambda>(a, n, p, d). \<lparr>acAccount = a, acName = n, acAuthorization = p, acData = d\<rparr>)
     (unpack_pair unpack_u64 (unpack_pair unpack_u64 (unpack_pair (unpack_vector unpack_permission_level) unpack_bytes)))"

definition pack_u16 :: "uint16 packer" where "pack_u16 = pack_word 2"
definition unpack_u16 :: "uint16 unpacker" where "unpack_u16 = unpack_word 2"
definition pack_u8 :: "uint8 packer" where "pack_u8 = pack_word 1"
definition unpack_u8 :: "uint8 unpacker" where "unpack_u8 = unpack_word 1"

definition pack_extensions :: "(uint16 \<times> bytes) list packer" where
  "pack_extensions = pack_vector (pack_pair pack_u16 pack_bytes)"

definition unpack_extensions :: "(uint16 \<times> bytes) list unpacker" where
  "unpack_extensions = unpack_vector (unpack_pair unpack_u16 unpack_bytes)"

definition pack_transaction :: "transaction packer" where
  "pack_transaction = pack_via
     (\<lambda>t. (expiration t, ref_block_num t, ref_block_prefix t, max_net_usage_words t, max_cpu_usage_ms t,
          delay_sec t, context_free_actions t, actions t, transaction_extensions t))
     (pack_pair pack_u32 (pack_pair pack_u16 (pack_pair pack_u32 (pack_pair pack_varint (pack_pair pack_u8
       (pack_pair pack_varint (pack_pair (pack_vector pack_action) (pack_pair (pack_vector pack_action)
         pack_extensions))))))))"

definition unpack_transaction :: "transaction unpacker" where
  "unpack_transaction = unpack_via
     (\<lambda>(e, n, p, w, c, d, cf, a, x). \<lparr>expiration = e, ref_block_num = n, ref_block_prefix = p,
        max_net_usage_words = w, max_cpu_usage_ms = c, delay_sec = d,
        context_free_actions = cf, actions = a, transaction_extensions = x\<rparr>)
     (unpack_pair unpack_u32 (unpack_pair unpack_u16 (unpack_pair unpack_u32 (unpack_pair unpack_varint (unpack_pair unpack_u8
       (unpack_pair unpack_varint (unpack_pair (unpack_vector unpack_action) (unpack_pair (unpack_vector unpack_action)
         unpack_extensions))))))))"

lemma u16_codec [codec_intros]: "codec (\<lambda>_. True) pack_u16 unpack_u16"
  unfolding pack_u16_def unpack_u16_def by (rule word_codec) simp

lemma u8_codec [codec_intros]: "codec (\<lambda>_. True) pack_u8 unpack_u8"
  unfolding pack_u8_def unpack_u8_def by (rule word_codec) simp

declare varint_codec [codec_intros] bytes_codec [codec_intros]

lemma permission_level_codec [codec_intros]: "codec (\<lambda>_. True) pack_permission_level unpack_permission_level"
  unfolding pack_permission_level_def unpack_permission_level_def by (rule via_total) (intro codec_intros, simp)

lemma action_codec [codec_intros]: "codec (\<lambda>_. True) pack_action unpack_action"
  unfolding pack_action_def unpack_action_def by (rule via_total) (intro codec_intros, simp)

lemma extensions_codec [codec_intros]: "codec (\<lambda>_. True) pack_extensions unpack_extensions"
  unfolding pack_extensions_def unpack_extensions_def by (intro codec_intros)

lemma transaction_codec: "codec (\<lambda>_. True) pack_transaction unpack_transaction"
  unfolding pack_transaction_def unpack_transaction_def by (rule via_total) (intro codec_intros, simp)

interpretation action_format: codec "\<lambda>_. True" pack_action unpack_action
  by (rule action_codec)

interpretation transaction_format: codec "\<lambda>_. True" pack_transaction unpack_transaction
  by (rule transaction_codec)

end
