(* ===== verification/Broadcast.thy ===== *)
theory Broadcast
  imports Strings
begin

text \<open>
  \<open>cpp/BroadcastableTransaction.*\<close>: the life of a transaction after it is sent.  The replies of the
  node arrive as JSON objects (\<open>QJsonDocument::fromJson(...).object()\<close> is empty for anything that is
  no object).  The state counts the connections to \<open>headBlockChanged\<close> and the block requests whose
  replies are still to come.
\<close>

subsection \<open>State\<close>

datatype broadcast_signal =
    StatusChanged TransactionStatus
  | BlockNumberChanged uint64
  | BroadcastConfirmed uint64 string
  | BroadcastIrreversible
  | BroadcastFailed string

record broadcast =
  bcId :: string
  bcStatus :: TransactionStatus
  bcBlockNumber :: uint64
  bcHasBlockchain :: bool
  bcConnections :: nat
  bcRequests :: "uint64 list"
  bcSignals :: "broadcast_signal list"

definition new_broadcast :: "bool \<Rightarrow> string \<Rightarrow> broadcast" where
  "new_broadcast hasBlockchain i = \<lparr>bcId = i, bcStatus = Pending, bcBlockNumber = 0,
     bcHasBlockchain = hasBlockchain, bcConnections = 0, bcRequests = [], bcSignals = []\<rparr>"

definition bc_emit :: "broadcast_signal \<Rightarrow> broadcast \<Rightarrow> broadcast" where
  "bc_emit s b = b\<lparr>bcSignals := bcSignals b @ [s]\<rparr>"

definition set_status :: "TransactionStatus \<Rightarrow> broadcast \<Rightarrow> broadcast" where
  "set_status s b = bc_emit (StatusChanged s) (b\<lparr>bcStatus := s\<rparr>)"

subsection \<open>The reply to the broadcast\<close>

definition failure_text :: "(string \<times> json) list \<Rightarrow> string" where
  "failure_text response =
     (if jcontains response Error_str \<and> jcontains (toObject (jmember response Error_str)) What
      then toString (jmember (toObject (jmember response Error_str)) What)
      else [])"

definition broadcastFinished :: "qt \<Rightarrow> (string \<times> json) list \<Rightarrow> broadcast \<Rightarrow> broadcast" where
  "broadcastFinished Q response b =
     (if jcontains response Error_str then
        bc_emit (BroadcastFailed (failure_text response)) (set_status Failed b)
      else
        let processed = toObject (jmember response Processed);
            b1 = (if jcontains response Processed \<and> jcontains processed BlockNum then
                    let trxBlock = as_ulong Q (json_variant (jmember processed BlockNum)) in
                    bc_emit (BroadcastConfirmed trxBlock (bcId b))
                      (bc_emit (BlockNumberChanged trxBlock)
                        ((set_status Confirmed b)\<lparr>bcBlockNumber := trxBlock\<rparr>))
                  else b)
        in if bcHasBlockchain b1 then b1\<lparr>bcConnections := Suc (bcConnections b1)\<rparr> else b1)"

subsection \<open>A new head block\<close>

text \<open>
  The slot, called once per connection.  \<open>head\<close> is the head block number of the blockchain object;
  the object is the stored one or the sender of the signal.
\<close>

definition headBlockChanged :: "uint64 \<Rightarrow> broadcast \<Rightarrow> broadcast" where
  "headBlockChanged head b0 =
     (let b = b0\<lparr>bcHasBlockchain := True\<rparr> in
      if bcStatus b \<noteq> Confirmed then b\<lparr>bcConnections := 0\<rparr>
      else if bcBlockNumber b \<le> head then b\<lparr>bcRequests := bcRequests b @ [bcBlockNumber b]\<rparr>
      else b)"

text \<open>
  The signal calls the slot once per connection that is still there: the first slot that disconnects
  ends the round.
\<close>

fun head_block_signal :: "nat \<Rightarrow> uint64 \<Rightarrow> broadcast \<Rightarrow> broadcast" where
  "head_block_signal 0 head b = b"
| "head_block_signal (Suc n) head b =
     (let b1 = headBlockChanged head b in
      if bcConnections b1 = 0 then b1 else head_block_signal n head b1)"

subsection \<open>The reply with the block\<close>

text \<open>The first entry of the block that is an object with an id, as the loop over the entries finds it.\<close>

definition entry_id :: "json \<Rightarrow> string option" where
  "entry_id trx =
     (if isObject trx \<and> jcontains (toObject trx) Trx \<and> isObject (jmember (toObject trx) Trx) then
        let trxObject = toObject (jmember (toObject trx) Trx) in
        if jcontains trxObject Id_str \<and> isString (jmember trxObject Id_str)
        then Some (toString (jmember trxObject Id_str)) else None
      else None)"

fun check_entries :: "json list \<Rightarrow> broadcast \<Rightarrow> broadcast" where
  "check_entries [] b = set_status Unknown b"
| "check_entries (trx # trxs) b =
     (case entry_id trx of
        Some i \<Rightarrow>
          if i = bcId b then bc_emit BroadcastIrreversible (set_status Irreversible b)
          else set_status Unknown b
      | None \<Rightarrow> check_entries trxs b)"

definition block_reply :: "bool \<Rightarrow> (string \<times> json) list \<Rightarrow> broadcast \<Rightarrow> broadcast" where
  "block_reply failed response b =
     (if failed then b
      else if jcontains response Transactions \<and> isArray (jmember response Transactions)
      then check_entries (toArray (jmember response Transactions)) b
      else set_status Unknown b)"

subsection \<open>Steps\<close>

text \<open>
  The reply to the broadcast arrives once, head blocks at any time, and each block request is
  answered once, in any order.
\<close>

datatype bc_event =
    BroadcastReply "(string \<times> json) list"
  | HeadBlock uint64
  | BlockReply uint64 bool "(string \<times> json) list"

definition bc_apply :: "qt \<Rightarrow> bc_event \<Rightarrow> broadcast \<Rightarrow> broadcast" where
  "bc_apply Q e b = (case e of
     BroadcastReply response \<Rightarrow> broadcastFinished Q response b
   | HeadBlock head \<Rightarrow> head_block_signal (bcConnections b) head b
   | BlockReply n failed response \<Rightarrow>
       block_reply failed response (b\<lparr>bcRequests := remove1 n (bcRequests b)\<rparr>))"

text \<open>\<open>replied\<close> says whether the reply to the broadcast has come.\<close>

inductive bc_reachable :: "qt \<Rightarrow> string \<Rightarrow> bool \<Rightarrow> broadcast \<Rightarrow> bool" for Q i where
  bc_start: "bc_reachable Q i False (new_broadcast h i)"
| bc_reply: "bc_reachable Q i False b \<Longrightarrow> bc_reachable Q i True (bc_apply Q (BroadcastReply response) b)"
| bc_head: "bc_reachable Q i r b \<Longrightarrow> bc_reachable Q i r (bc_apply Q (HeadBlock head) b)"
| bc_block: "bc_reachable Q i r b \<Longrightarrow> n \<in> set (bcRequests b) \<Longrightarrow>
    bc_reachable Q i r (bc_apply Q (BlockReply n failed response) b)"

end
