(* ===== verification/Blockchain.thy ===== *)
theory Blockchain
  imports Tables Actions
begin

text \<open>
  \<open>cpp/BlockchainInterface.*\<close>: the connection to a node of the chain.  It keeps the properties QML
  sees, polls the node with a timer, follows the journal of the database and hands its entries to the
  tables, and owns the tables: one of polling groups, one of members for each group asked for.  A table
  is an object with an address; \<open>memberTables\<close> holds the living members tables, and a use of an
  address that is not there is the value \<open>DestroyedObject\<close>.
\<close>

subsection \<open>Status\<close>

datatype SyncStatus =
    Idle
  | WaitingForConnection
  | RecoveringConnection
  | Connected
  | Synchronized
  | SynchronizedStale

fun sync_status_number :: "SyncStatus \<Rightarrow> nat" where
  "sync_status_number Idle = 0"
| "sync_status_number WaitingForConnection = 1"
| "sync_status_number RecoveringConnection = 2"
| "sync_status_number Connected = 7"
| "sync_status_number Synchronized = 8"
| "sync_status_number SynchronizedStale = 9"

text \<open>The code compares statuses with \<open><\<close> and \<open>>\<close>: the order of the numbers.\<close>

instantiation SyncStatus :: linorder
begin

definition less_eq_SyncStatus :: "SyncStatus \<Rightarrow> SyncStatus \<Rightarrow> bool" where
  "s \<le> s' \<longleftrightarrow> sync_status_number s \<le> sync_status_number s'"

definition less_SyncStatus :: "SyncStatus \<Rightarrow> SyncStatus \<Rightarrow> bool" where
  "s < s' \<longleftrightarrow> sync_status_number s < sync_status_number s'"

instance
proof
  fix s s' :: SyncStatus
  show "s = s'" if "s \<le> s'" "s' \<le> s"
    using that by (cases s; cases s') (simp_all add: less_eq_SyncStatus_def)
qed (auto simp: less_eq_SyncStatus_def less_SyncStatus_def)

end

subsection \<open>What is not in the repository\<close>

text \<open>
  The conversions of Qt, what uninitialised members hold, the row counts the group sizes are read from,
  the parser of addresses and the parser of ISO dates (seconds since the epoch, \<open>None\<close> for a null date).
\<close>

record url =
  urlText :: string
  urlEmpty :: bool
  urlValid :: bool

record env =
  envQt :: qt
  envWeight :: uint32
  envGroupId :: uint64
  envMembers :: "uint64 \<Rightarrow> nat option"
  fromUserInput :: "string \<Rightarrow> url"
  isoSeconds :: "string \<Rightarrow> int option"

definition member_row :: "env \<Rightarrow> (GroupMember, string, unit) row_type" where
  "member_row E = group_member_row (envQt E) (envWeight E)"

definition group_row :: "env \<Rightarrow> (PollingGroup, uint64, size_field) row_type" where
  "group_row E = polling_group_row (envQt E) (envGroupId E) (envMembers E)"

type_synonym member_table = "(GroupMember, string, unit) table"
type_synonym group_table = "(PollingGroup, uint64, size_field) table"

subsection \<open>Journal entries from JSON\<close>

text \<open>\<open>QJsonValue::toInt\<close>: zero for anything but a number in the range of \<open>int\<close>.\<close>

definition json_int :: "json \<Rightarrow> int" where
  "json_int j = (case j of JNum n \<Rightarrow> if -(2^31) \<le> n \<and> n < 2^31 then n else 0 | _ \<Rightarrow> 0)"

definition entry_type_of :: "int \<Rightarrow> entry_type" where
  "entry_type_of n = (if n = 0 then AddRow else if n = 1 then DeleteRow else if n = 2 then ModifyRow else OtherEntry n)"

definition json_ulong :: "env \<Rightarrow> json \<Rightarrow> uint64" where
  "json_ulong E j = as_ulong (envQt E) (json_variant j)"

definition entry_of_json :: "env \<Rightarrow> json_object \<Rightarrow> journal_entry" where
  "entry_of_json E js =
     \<lparr>entryId = json_ulong E (jmember js Id_str),
      entryTime = isoSeconds E (toString (jmember js Timestamp)),
      entryTable = toString (jmember js Table_str),
      entryScope = json_ulong E (jmember js Scope),
      entryKey = json_ulong E (jmember js Key_str),
      entryType = entry_type_of (json_int (jmember js Modification))\<rparr>"

definition entries_of_json :: "env \<Rightarrow> json list \<Rightarrow> journal_entry list" where
  "entries_of_json E array = map (\<lambda>v. entry_of_json E (toObject v)) array"

definition entry_isValid :: "journal_entry \<Rightarrow> bool" where
  "entry_isValid e \<longleftrightarrow> entryTime e \<noteq> None"

text \<open>The value-initialised private data: the constructor of the entry leaves the zeros.\<close>

definition no_entry :: journal_entry where
  "no_entry = \<lparr>entryId = 0, entryTime = None, entryTable = [], entryScope = 0, entryKey = 0, entryType = AddRow\<rparr>"

subsection \<open>State\<close>

datatype chain_signal =
    SyncStatusChanged SyncStatus
  | NodeUrlChanged string
  | ChainIdChanged string
  | HeadBlockChanged
  | SyncIntervalChanged uint32
  | SyncStaleSecondsChanged uint32
  | ServerLatencyChanged uint64
  | NodeError int
  | NodeResponseNonsense
  | NewJournalEntries "journal_entry list"
  | RefreshAllTables

datatype content =
    Text string
  | JsonText json_object

datatype chain_call =
    InfoCall
  | JournalCall
  | BlockCall uint64
  | PushCall

record chain =
  nodeUrl :: url
  chainId :: string
  headBlockId :: string
  headBlockNumber :: uint64
  irreversibleBlockNumber :: uint64
  headBlockTime :: "int option"
  serverLatency :: uint64
  syncStatus :: SyncStatus
  syncInterval :: uint32
  syncStaleSeconds :: uint32
  syncTimer :: "uint32 option"
  lastJournalEntry :: journal_entry
  pollingGroupTable :: "(nat \<times> group_table) option"
  groupAccountsTables :: "uint64 \<rightharpoonup> nat"
  memberTables :: "nat \<rightharpoonup> member_table"
  memberCreatedFor :: "nat \<rightharpoonup> uint64"
  orphans :: "nat list"
  calls :: "(chain_call \<times> string \<times> content) list"
  chainSignals :: "chain_signal list"

definition new_chain :: chain where
  "new_chain = \<lparr>nodeUrl = \<lparr>urlText = [], urlEmpty = True, urlValid = False\<rparr>, chainId = [], headBlockId = [],
     headBlockNumber = 0, irreversibleBlockNumber = 0, headBlockTime = None, serverLatency = 0,
     syncStatus = Idle, syncInterval = 2500, syncStaleSeconds = 10, syncTimer = None,
     lastJournalEntry = no_entry, pollingGroupTable = None, groupAccountsTables = Map.empty,
     memberTables = Map.empty, memberCreatedFor = Map.empty, orphans = [], calls = [], chainSignals = []\<rparr>"

definition chain_emit :: "chain_signal \<Rightarrow> chain \<Rightarrow> chain" where
  "chain_emit s c = c\<lparr>chainSignals := chainSignals c @ [s]\<rparr>"

definition makeCall :: "chain_call \<Rightarrow> string \<Rightarrow> content \<Rightarrow> chain \<Rightarrow> chain" where
  "makeCall k apiPath body c = c\<lparr>calls := calls c @ [(k, urlText (nodeUrl c) @ apiPath, body)]\<rparr>"

definition updateSyncStatus :: "SyncStatus \<Rightarrow> chain \<Rightarrow> chain" where
  "updateSyncStatus status c =
     (if status \<noteq> syncStatus c then chain_emit (SyncStatusChanged status) (c\<lparr>syncStatus := status\<rparr>) else c)"

subsection \<open>Tables\<close>

definition global_scope :: uint64 where
  "global_scope = (case string_to_uint64_t Global of Inr n \<Rightarrow> n | Inl _ \<Rightarrow> 0)"

text \<open>\<open>a\<close> is the address \<open>new\<close> returns.\<close>

definition getPollingGroupTable :: "env \<Rightarrow> nat \<Rightarrow> chain \<Rightarrow> nat \<times> chain" where
  "getPollingGroupTable E a c =
     (case pollingGroupTable c of
        Some (a', _) \<Rightarrow> (a', c)
      | None \<Rightarrow> (a, c\<lparr>pollingGroupTable := Some (a, new_table (group_row E) (number (unat global_scope)))\<rparr>))"

definition pollingGroupTableDestroyed :: "chain \<Rightarrow> chain" where
  "pollingGroupTableDestroyed c = c\<lparr>pollingGroupTable := None\<rparr>"

definition getGroupMembersTable :: "env \<Rightarrow> uint64 \<Rightarrow> nat \<Rightarrow> chain \<Rightarrow> nat \<times> chain" where
  "getGroupMembersTable E g a c =
     (case groupAccountsTables c g of
        Some a' \<Rightarrow> (a', c)
      | None \<Rightarrow> (a, c\<lparr>groupAccountsTables := (groupAccountsTables c)(g \<mapsto> a),
                     memberTables := (memberTables c)(a \<mapsto> new_table (member_row E) (number (unat g))),
                     memberCreatedFor := (memberCreatedFor c)(a \<mapsto> g)\<rparr>))"

text \<open>The slot on \<open>destroyed\<close> removes the id that was captured when the table was created.\<close>

definition memberTableDestroyed :: "nat \<Rightarrow> chain \<Rightarrow> chain" where
  "memberTableDestroyed a c =
     c\<lparr>memberTables := (memberTables c)(a := None),
       groupAccountsTables := (case memberCreatedFor c a of
         Some g \<Rightarrow> (groupAccountsTables c)(g := None) | None \<Rightarrow> groupAccountsTables c)\<rparr>"

datatype object_fault = DestroyedObject nat

definition rescopeGroupMembersTable :: "env \<Rightarrow> uint64 \<Rightarrow> uint64 \<Rightarrow> chain \<Rightarrow> object_fault + chain" where
  "rescopeGroupMembersTable E oldGroup newGroup c =
     (case groupAccountsTables c oldGroup of
        None \<Rightarrow> Inr c
      | Some a \<Rightarrow>
          (case memberTables c a of
             None \<Rightarrow> Inl (DestroyedObject a)
           | Some t \<Rightarrow>
               let c1 = c\<lparr>groupAccountsTables := (groupAccountsTables c)(oldGroup := None),
                          memberTables := (memberTables c)(a \<mapsto> updateScope (member_row E) (number (unat newGroup)) t)\<rparr>
               in if groupAccountsTables c1 newGroup \<noteq> None
                  then Inr (c1\<lparr>orphans := orphans c1 @ [a]\<rparr>)
                  else Inr (c1\<lparr>groupAccountsTables := (groupAccountsTables c1)(newGroup \<mapsto> a)\<rparr>)))"

text \<open>A signal to all tables, orphans included: their connections stay.\<close>

definition notify_tables ::
  "(group_table \<Rightarrow> group_table) \<Rightarrow> (member_table \<Rightarrow> member_table) \<Rightarrow> chain \<Rightarrow> chain" where
  "notify_tables f g c =
     c\<lparr>pollingGroupTable := map_option (map_prod id f) (pollingGroupTable c),
       memberTables := (\<lambda>a. map_option g (memberTables c a))\<rparr>"

definition emit_newJournalEntries :: "env \<Rightarrow> int \<Rightarrow> journal_entry list \<Rightarrow> chain \<Rightarrow> chain" where
  "emit_newJournalEntries E now entries c =
     notify_tables (processJournal (group_row E) now entries) (processJournal (member_row E) now entries)
       (chain_emit (NewJournalEntries entries) c)"

definition emit_refreshAllTables :: "env \<Rightarrow> chain \<Rightarrow> chain" where
  "emit_refreshAllTables E c =
     notify_tables (fullRefresh (group_row E)) (fullRefresh (member_row E)) (chain_emit RefreshAllTables c)"

subsection \<open>Synchronisation\<close>

text \<open>\<open>resetTimer\<close>\<close>

definition stopTimer :: "chain \<Rightarrow> chain" where
  "stopTimer c = c\<lparr>syncTimer := None\<rparr>"

definition resetTimer :: "uint32 \<Rightarrow> chain \<Rightarrow> chain" where
  "resetTimer interval c = (stopTimer c)\<lparr>syncTimer := Some interval\<rparr>"

definition journal_request :: "chain \<Rightarrow> string" where
  "journal_request c =
     (if entry_isValid (lastJournalEntry c)
      then getTableJson_from Journal Global (number (unat (entryId (lastJournalEntry c) + 1)))
      else getTableJson_limit Journal Global (number (unat (entryId (lastJournalEntry c)))) 1 True)"

definition beginSync :: "chain \<Rightarrow> chain" where
  "beginSync c =
     (let c1 = makeCall InfoCall GetInfo (Text ''{}'') c
      in makeCall JournalCall GetTableRows (Text (journal_request c1)) c1)"

definition disconnect :: "chain \<Rightarrow> chain" where
  "disconnect c =
     stopTimer (if syncStatus c \<noteq> Idle then chain_emit (SyncStatusChanged Idle) (c\<lparr>syncStatus := Idle\<rparr>) else c)"

definition connectNow :: "chain \<Rightarrow> chain" where
  "connectNow c =
     (if urlEmpty (nodeUrl c) then c
      else if \<not> urlValid (nodeUrl c) then c
      else let c1 = disconnect c;
               c2 = chain_emit (SyncStatusChanged WaitingForConnection) (c1\<lparr>syncStatus := WaitingForConnection\<rparr>);
               c3 = beginSync c2
           in resetTimer (syncInterval c3) c3)"

text \<open>The constructor connects \<open>nodeUrlChanged\<close> to \<open>connectNow\<close>.\<close>

definition setNodeUrl :: "env \<Rightarrow> string \<Rightarrow> chain \<Rightarrow> chain" where
  "setNodeUrl E txt c =
     (let u = fromUserInput E txt in
      if nodeUrl c = u then c
      else connectNow (chain_emit (NodeUrlChanged (urlText u)) (c\<lparr>nodeUrl := u\<rparr>)))"

definition setSyncInterval :: "uint32 \<Rightarrow> chain \<Rightarrow> chain" where
  "setSyncInterval r c =
     (if syncInterval c = r then c else chain_emit (SyncIntervalChanged r) (c\<lparr>syncInterval := r\<rparr>))"

definition setSyncStaleSeconds :: "uint32 \<Rightarrow> chain \<Rightarrow> chain" where
  "setSyncStaleSeconds s c =
     (if syncStaleSeconds c = s then c else chain_emit (SyncStaleSecondsChanged s) (c\<lparr>syncStaleSeconds := s\<rparr>))"

definition getBlock :: "uint64 \<Rightarrow> chain \<Rightarrow> chain" where
  "getBlock n c = makeCall (BlockCall n) GetBlock
     (Text (''{'' @ quoted BlockNumOrId @ '': '' @ number (unat n) @ ''}'')) c"

text \<open>The argument is the transaction's JSON, \<open>None\<close> a null pointer.\<close>

definition submitTransaction :: "json_object option \<Rightarrow> chain \<Rightarrow> chain" where
  "submitTransaction trx c =
     (case trx of None \<Rightarrow> c
      | Some js \<Rightarrow> makeCall PushCall ''/v1/chain/push_transaction'' (JsonText js) c)"

subsection \<open>Replies\<close>

datatype network_error =
    NoError
  | ProtocolUnknownError
  | ConnectionRefusedError
  | OtherNetworkError

text \<open>
  A finished reply: its error, the HTTP status attribute (0 without one), the parsed content, the times
  in milliseconds when it was sent and now, and the current time in seconds.
\<close>

record net_reply =
  nrError :: network_error
  nrHttp :: int
  nrDoc :: json
  nrSent :: int
  nrNow :: int
  nrSecs :: int

text \<open>The slot \<open>makeCall\<close> connects first: the difference is computed in unsigned 64 bits.\<close>

definition rtt_slot :: "net_reply \<Rightarrow> chain \<Rightarrow> chain" where
  "rtt_slot r c =
     (let rtt = word_of_int (nrNow r) - word_of_int (nrSent r) in
      if rtt \<noteq> serverLatency c then chain_emit (ServerLatencyChanged rtt) (c\<lparr>serverLatency := rtt\<rparr>) else c)"

definition headSeconds :: "chain \<Rightarrow> int" where
  "headSeconds c = (case headBlockTime c of Some s \<Rightarrow> s | None \<Rightarrow> 0)"

text \<open>The two slots of \<open>connectNetworkReply\<close>.\<close>

definition finished_slot :: "net_reply \<Rightarrow> chain \<Rightarrow> chain" where
  "finished_slot r c =
     (if nrError r \<noteq> NoError then c
      else if nrSecs r - headSeconds c > 10 then updateSyncStatus SynchronizedStale c
      else updateSyncStatus Synchronized c)"

definition error_slot :: "net_reply \<Rightarrow> chain \<Rightarrow> chain" where
  "error_slot r c =
     (let c1 = chain_emit (NodeError (case nrError r of ProtocolUnknownError \<Rightarrow> -1
                 | ConnectionRefusedError \<Rightarrow> -2 | _ \<Rightarrow> nrHttp r)) c
      in if Connected < syncStatus c1 then updateSyncStatus RecoveringConnection c1
         else updateSyncStatus WaitingForConnection c1)"

definition processInfoReply :: "env \<Rightarrow> net_reply \<Rightarrow> chain \<Rightarrow> chain" where
  "processInfoReply E r c =
     (if nrError r \<noteq> NoError then c
      else if \<not> isObject (nrDoc r) \<or> \<not> jcontains (toObject (nrDoc r)) HeadBlockId then
        updateSyncStatus RecoveringConnection (chain_emit NodeResponseNonsense c)
      else
        let response = toObject (nrDoc r);
            i = toString (jmember response ChainId);
            c1 = (if i \<noteq> chainId c then chain_emit (ChainIdChanged i) (c\<lparr>chainId := i\<rparr>) else c)
        in chain_emit HeadBlockChanged
             (c1\<lparr>headBlockId := toString (jmember response HeadBlockId),
                 headBlockNumber := json_ulong E (jmember response HeadBlockNum),
                 irreversibleBlockNumber := json_ulong E (jmember response LastIrreversibleBlockNum),
                 headBlockTime := isoSeconds E (toString (jmember response HeadBlockTime))\<rparr>))"

definition processJournalReply :: "env \<Rightarrow> net_reply \<Rightarrow> chain \<Rightarrow> chain" where
  "processJournalReply E r c =
     (if nrError r \<noteq> NoError then c
      else (case parseRows (nrDoc r) of
        None \<Rightarrow> updateSyncStatus RecoveringConnection (chain_emit NodeResponseNonsense c)
      | Some (rows, _) \<Rightarrow>
          if rows = [] then c
          else let entries = entries_of_json E rows;
                   c1 = (if entry_isValid (lastJournalEntry c) \<and>
                            entryId (hd entries) = entryId (lastJournalEntry c) + 1
                         then emit_newJournalEntries E (nrSecs r) entries c
                         else emit_refreshAllTables E c)
               in c1\<lparr>lastJournalEntry := last entries\<rparr>))"

text \<open>
  What runs when a reply is complete, in the order of the connections; an error signal comes before
  \<open>finished\<close>.  The replies to the journal and to pushed transactions have no status slots.
\<close>

definition with_error :: "net_reply \<Rightarrow> chain \<Rightarrow> chain" where
  "with_error r c = (if nrError r \<noteq> NoError then error_slot r c else c)"

definition infoReply :: "env \<Rightarrow> net_reply \<Rightarrow> chain \<Rightarrow> chain" where
  "infoReply E r c = finished_slot r (processInfoReply E r (rtt_slot r (with_error r c)))"

definition journalReply :: "env \<Rightarrow> net_reply \<Rightarrow> chain \<Rightarrow> chain" where
  "journalReply E r c = processJournalReply E r (rtt_slot r c)"

definition connectedReply :: "net_reply \<Rightarrow> chain \<Rightarrow> chain" where
  "connectedReply r c = finished_slot r (rtt_slot r (with_error r c))"

text \<open>The reply to a table's own request: the slots of \<open>makeApiCaller\<close>, then the table's.\<close>

definition reply_of :: "net_reply \<Rightarrow> reply" where
  "reply_of r = \<lparr>replyFailed = (nrError r \<noteq> NoError), replyBody = nrDoc r\<rparr>"

definition memberReply :: "env \<Rightarrow> nat \<Rightarrow> string request \<Rightarrow> net_reply \<Rightarrow> chain \<Rightarrow> chain" where
  "memberReply E a q r c =
     (let c1 = connectedReply r c in
      c1\<lparr>memberTables := (memberTables c1)(a := map_option
        (case q of RowRequest i \<Rightarrow> rowReply (member_row E) i (reply_of r)
                 | RowsRequest n \<Rightarrow> rowsReply (member_row E) n (reply_of r)) (memberTables c1 a))\<rparr>)"

text \<open>
  The reply to the table of polling groups.  The hook of each settled group rescopes a members table;
  the model runs the hooks after the table's update, in their order, which only touch members tables.
\<close>

fun rescopes :: "(PollingGroup, uint64) event list \<Rightarrow> (uint64 \<times> uint64) list" where
  "rescopes [] = []"
| "rescopes (PendingAddSettled d r # es) =
     (case group_settled d r of Some x \<Rightarrow> x # rescopes es | None \<Rightarrow> rescopes es)"
| "rescopes (e # es) = rescopes es"

fun rescope_all :: "env \<Rightarrow> (uint64 \<times> uint64) list \<Rightarrow> chain \<Rightarrow> object_fault + chain" where
  "rescope_all E [] c = Inr c"
| "rescope_all E ((old, new) # xs) c =
     (case rescopeGroupMembersTable E old new c of Inl e \<Rightarrow> Inl e | Inr c1 \<Rightarrow> rescope_all E xs c1)"

definition groupReply :: "env \<Rightarrow> uint64 request \<Rightarrow> net_reply \<Rightarrow> chain \<Rightarrow> object_fault + chain" where
  "groupReply E q r c =
     (let c1 = connectedReply r c in
      (case pollingGroupTable c1 of
         None \<Rightarrow> Inr c1
       | Some (a, t) \<Rightarrow>
           let t1 = (case q of RowRequest i \<Rightarrow> rowReply (group_row E) i (reply_of r) t
                             | RowsRequest n \<Rightarrow> rowsReply (group_row E) n (reply_of r) t)
           in rescope_all E (rescopes (drop (length (out t)) (out t1)))
                (c1\<lparr>pollingGroupTable := Some (a, t1)\<rparr>)))"

end
