(* ===== verification/KeyManager.thy ===== *)
theory KeyManager
  imports EosioTypes Broadcast Blockchain
begin

text \<open>
  Hashes as text (\<open>vendor/fc/src/crypto/hex.cpp\<close>, \<open>sha256.cpp\<close>), the reference block, digests and
  packed form of a transaction, and the operations of \<open>KeyManager\<close> on transactions
  (\<open>cpp/KeyManager.cpp\<close>, lines 338 to 558 and 608 to 675).  Keys, signatures, sha256, zlib and the
  conversions of whole transactions from and to JSON are the parameter \<open>fc_env\<close>.
\<close>

subsection \<open>Hexadecimal text\<close>

definition from_hex :: "char \<Rightarrow> fc_fault + uint8" where
  "from_hex c =
     (if CHR ''0'' \<le> c \<and> c \<le> CHR ''9'' then Inr (of_char c - of_char (CHR ''0''))
      else if CHR ''a'' \<le> c \<and> c \<le> CHR ''f'' then Inr (of_char c - of_char (CHR ''a'') + 10)
      else if CHR ''A'' \<le> c \<and> c \<le> CHR ''F'' then Inr (of_char c - of_char (CHR ''A'') + 10)
      else Inl (BadHexCharacter c))"

text \<open>\<open>n\<close> is the room left in the output; a single last digit is the high half of a byte.\<close>

fun from_hex_text :: "nat \<Rightarrow> string \<Rightarrow> fc_fault + bytes" where
  "from_hex_text 0 s = Inr []"
| "from_hex_text (Suc n) [] = Inr []"
| "from_hex_text (Suc n) [c] = fc_map (\<lambda>h. [push_bit 4 h]) (from_hex c)"
| "from_hex_text (Suc n) (c # d # s) =
     and_then (from_hex c) (\<lambda>h. and_then (from_hex d) (\<lambda>l.
       fc_map ((#) (push_bit 4 h OR l)) (from_hex_text n s)))"

definition hex_digits :: string where "hex_digits = ''0123456789abcdef''"

definition to_hex :: "bytes \<Rightarrow> string" where
  "to_hex d = concat (map (\<lambda>b. [hex_digits ! unat (drop_bit 4 b), hex_digits ! unat (b AND 0x0f)]) d)"

text \<open>The constructor of \<open>sha256\<close> from text fills up with zeros.\<close>

definition sha256_of_hex :: "string \<Rightarrow> fc_fault + bytes" where
  "sha256_of_hex s = fc_map (\<lambda>d. d @ replicate (32 - length d) 0) (from_hex_text 32 s)"

definition sha256_word :: "nat \<Rightarrow> bytes \<Rightarrow> uint64" where
  "sha256_word i h = of_nat (le_value (take 8 (drop (8 * i) h)))"

subsection \<open>The reference block\<close>

definition endian_reverse_u32 :: "uint32 \<Rightarrow> uint32" where
  "endian_reverse_u32 x =
     (drop_bit 0x18 x AND 0xFF)
     OR push_bit 0x08 (drop_bit 0x10 x AND 0xFF)
     OR push_bit 0x10 (drop_bit 0x08 x AND 0xFF)
     OR push_bit 0x18 (x AND 0xFF)"

definition set_reference_block :: "bytes \<Rightarrow> signed_transaction \<Rightarrow> signed_transaction" where
  "set_reference_block h t =
     t\<lparr>ref_block_num := ucast (endian_reverse_u32 (ucast (sha256_word 0 h))),
       ref_block_prefix := ucast (sha256_word 1 h)\<rparr>"

subsection \<open>Digests and the packed form\<close>

datatype compression_type = CompressionNone | CompressionZlib

record packed_transaction =
  ptSignatures :: "string list"
  ptCompression :: compression_type
  ptContextFreeData :: bytes
  ptTrx :: bytes
  ptUnpacked :: signed_transaction
  ptTrxId :: bytes

record 'key fc_env =
  hash :: "bytes \<Rightarrow> bytes"
  zlib :: "bytes \<Rightarrow> bytes"
  keyFromText :: "string \<Rightarrow> fc_fault + 'key"
  signWith :: "'key \<Rightarrow> bytes \<Rightarrow> string"
  actionFromJson :: "string \<Rightarrow> fc_fault + action"
  transactionToJson :: "signed_transaction \<Rightarrow> fc_fault + json_object"
  transactionFromJson :: "json_object \<Rightarrow> fc_fault + signed_transaction"
  packedToJson :: "packed_transaction \<Rightarrow> fc_fault + json_object"
  isoDate :: "int \<Rightarrow> string"

text \<open>What \<open>sig_digest\<close> writes into the encoder.\<close>

definition cfd_digest :: "(bytes \<Rightarrow> bytes) \<Rightarrow> bytes list \<Rightarrow> fc_fault + bytes" where
  "cfd_digest H cfd =
     (if cfd \<noteq> [] then fc_map H (pack_vector pack_bytes cfd) else Inr (replicate 32 0))"

definition signed_message :: "(bytes \<Rightarrow> bytes) \<Rightarrow> bytes \<Rightarrow> transaction \<Rightarrow> bytes list \<Rightarrow> fc_fault + bytes" where
  "signed_message H chain t cfd = pack_seq (Inr chain) (pack_seq (pack_transaction t) (cfd_digest H cfd))"

definition sig_digest :: "(bytes \<Rightarrow> bytes) \<Rightarrow> bytes \<Rightarrow> transaction \<Rightarrow> bytes list \<Rightarrow> fc_fault + bytes" where
  "sig_digest H chain t cfd = fc_map H (signed_message H chain t cfd)"

definition transaction_id :: "(bytes \<Rightarrow> bytes) \<Rightarrow> transaction \<Rightarrow> fc_fault + bytes" where
  "transaction_id H t = fc_map H (pack_transaction t)"

definition sign_transaction :: "'key fc_env \<Rightarrow> 'key \<Rightarrow> bytes \<Rightarrow> signed_transaction \<Rightarrow> fc_fault + string" where
  "sign_transaction E key chain t =
     fc_map (signWith E key) (sig_digest (hash E) chain (base_transaction t) (context_free_data t))"

definition pack_context_free_data :: "bytes list packer" where
  "pack_context_free_data cfd = (if cfd = [] then Inr [] else pack_vector pack_bytes cfd)"

definition zlib_compress_context_free_data :: "'key fc_env \<Rightarrow> bytes list packer" where
  "zlib_compress_context_free_data E cfd =
     (if cfd = [] then Inr [] else fc_map (zlib E) (pack_context_free_data cfd))"

definition zlib_compress_transaction :: "'key fc_env \<Rightarrow> transaction packer" where
  "zlib_compress_transaction E t = fc_map (zlib E) (pack_transaction t)"

definition make_packed_transaction ::
  "'key fc_env \<Rightarrow> signed_transaction \<Rightarrow> compression_type \<Rightarrow> fc_fault + packed_transaction" where
  "make_packed_transaction E t c =
     and_then (transaction_id (hash E) (base_transaction t)) (\<lambda>i.
     and_then (case c of CompressionNone \<Rightarrow> pack_transaction (base_transaction t)
                       | CompressionZlib \<Rightarrow> zlib_compress_transaction E (base_transaction t)) (\<lambda>trx.
     and_then (case c of CompressionNone \<Rightarrow> pack_context_free_data (context_free_data t)
                       | CompressionZlib \<Rightarrow> zlib_compress_context_free_data E (context_free_data t)) (\<lambda>cfd.
     Inr \<lparr>ptSignatures = signatures t, ptCompression = c, ptContextFreeData = cfd, ptTrx = trx,
          ptUnpacked = t, ptTrxId = i\<rparr>)))"

subsection \<open>The manager\<close>

text \<open>
  \<open>now\<close> is the time in milliseconds, as dates are; \<open>chain\<close> is the blockchain interface, \<open>None\<close> before
  it is set.  Each operation gives its result, or a null pointer (\<open>None\<close>) or the exception it lets
  escape, and the object it was called with.
\<close>

definition toSecsSinceEpoch :: "int \<Rightarrow> int" where
  "toSecsSinceEpoch ms = (if 0 \<le> ms then ms div 1000 else - ((- ms) div 1000))"

definition addSecs :: "int \<Rightarrow> int \<Rightarrow> int" where
  "addSecs s ms = ms + s * 1000"

text \<open>\<open>setRefBlockId\<close> takes over a block id that differs from the empty one, so never a null byte array.\<close>

definition with_defaults :: "int \<Rightarrow> chain \<Rightarrow> MutableTransaction \<Rightarrow> MutableTransaction" where
  "with_defaults now c t =
     (let t1 = (if trxRefBlockIdNull t then setRefBlockId (headBlockId c) False t else t)
      in if trxExpiration t1 = None then setExpiration (Some (addSecs 10 now)) t1 else t1)"

definition transaction_fields :: "MutableTransaction \<Rightarrow> bytes \<Rightarrow> action list \<Rightarrow> signed_transaction" where
  "transaction_fields t h acts =
     (let x0 = new_signed_transaction;
          x1 = x0\<lparr>expiration := of_int (toSecsSinceEpoch (the (trxExpiration t)))\<rparr>;
          x2 = set_reference_block h x1;
          x3 = x2\<lparr>max_net_usage_words := ucast (trxMaxNetWords t), max_cpu_usage_ms := trxMaxCpuMs t,
                 delay_sec := ucast (trxDelaySeconds t)\<rparr>
      in x3\<lparr>actions := acts\<rparr>)"

definition prepareForSigning ::
  "args_json \<Rightarrow> 'key fc_env \<Rightarrow> int \<Rightarrow> chain option \<Rightarrow> MutableTransaction option
     \<Rightarrow> (key_fault + SignableTransaction option) \<times> MutableTransaction option" where
  "prepareForSigning J E now blockchain trx =
     (case trx of None \<Rightarrow> (Inr None, None) | Some t \<Rightarrow>
      case blockchain of None \<Rightarrow> (Inr None, Some t) | Some c \<Rightarrow>
        let t1 = with_defaults now c t in
        (and_then (fc (sha256_of_hex (trxRefBlockId t1))) (\<lambda>h.
         and_then (fromQList J (trxObjects t1) (trxActions t1)) (\<lambda>acts.
         and_then (fc (transactionToJson E (transaction_fields t1 h acts))) (\<lambda>js.
         Inr (Some (new_SignableTransaction js))))), Some t1))"

definition signTransaction ::
  "'key fc_env \<Rightarrow> int \<Rightarrow> chain option \<Rightarrow> SignableTransaction option \<Rightarrow> string
     \<Rightarrow> (key_fault + unit) \<times> SignableTransaction option" where
  "signTransaction E now blockchain trx privateKey =
     (case trx of None \<Rightarrow> (Inr (), None) | Some s \<Rightarrow>
      case keyFromText E privateKey of Inl e \<Rightarrow> (Inl (Fc e), Some s) | Inr key \<Rightarrow>
      case signable_setExpiration (isoDate E (addSecs 10 now)) s of None \<Rightarrow> (Inl NullPointer, Some s) | Some s1 \<Rightarrow>
      case transactionFromJson E (signableJson s1) of Inl e \<Rightarrow> (Inl (Fc e), Some s1) | Inr t \<Rightarrow>
      case blockchain of None \<Rightarrow> (Inl NullPointer, Some s1) | Some c \<Rightarrow>
      case and_then (sha256_of_hex (chainId c)) (\<lambda>cid. sign_transaction E key cid t) of
        Inl e \<Rightarrow> (Inl (Fc e), Some s1)
      | Inr sig \<Rightarrow> (Inr (), Some (addSignature sig s1)))"

text \<open>The key of the private test network is written into the program.\<close>

definition testnet_key :: string where
  "testnet_key = ''5KXAfKzbKoBAPCAMbHN4gkwCu3EeidTMvxrVBFqebjs3MmEwxzk''"

definition signTransaction_default ::
  "'key fc_env \<Rightarrow> int \<Rightarrow> chain option \<Rightarrow> SignableTransaction option
     \<Rightarrow> (key_fault + unit) \<times> SignableTransaction option" where
  "signTransaction_default E now blockchain trx = signTransaction E now blockchain trx testnet_key"

definition prepareForBroadcast ::
  "'key fc_env \<Rightarrow> chain option \<Rightarrow> SignableTransaction option
     \<Rightarrow> fc_fault + (broadcast \<times> json_object) option" where
  "prepareForBroadcast E blockchain trx =
     (case trx of None \<Rightarrow> Inr None | Some s \<Rightarrow>
        and_then (transactionFromJson E (signableJson s)) (\<lambda>t.
        and_then (make_packed_transaction E t CompressionZlib) (\<lambda>p.
        and_then (transaction_id (hash E) (base_transaction t)) (\<lambda>i.
        and_then (packedToJson E p) (\<lambda>js.
        Inr (Some (new_broadcast (blockchain \<noteq> None) (to_hex i), js)))))))"

subsection \<open>Decoding an action\<close>

definition unpack_args :: "uint64 \<Rightarrow> bytes \<Rightarrow> (fc_fault + (action_args \<times> bytes)) option" where
  "unpack_args n d =
     (if n = string_to_uint64_c ''voter.add'' then Some (unpack_via ArgsVoterAdd unpack_voter_add d)
      else if n = string_to_uint64_c ''voter.remove'' then Some (unpack_via ArgsVoterRemove unpack_voter_remove d)
      else if n = string_to_uint64_c ''group.copy'' then Some (unpack_via ArgsGroupCopy unpack_group_names d)
      else if n = string_to_uint64_c ''group.rename'' then Some (unpack_via ArgsGroupRename unpack_group_names d)
      else if n = string_to_uint64_c ''cntst.new'' then Some (unpack_via ArgsCntstNew unpack_cntst_new d)
      else if n = string_to_uint64_c ''cntst.modify'' then Some (unpack_via ArgsCntstModify unpack_cntst_modify d)
      else if n = string_to_uint64_c ''cntst.tally'' then Some (unpack_via ArgsCntstTally unpack_contest_ids d)
      else if n = string_to_uint64_c ''cntst.delete'' then Some (unpack_via ArgsCntstDelete unpack_contest_ids d)
      else if n = string_to_uint64_c ''dcsn.set'' then Some (unpack_via ArgsDcsnSet unpack_dcsn_set d)
      else None)"

text \<open>Bytes after the struct are ignored; an unknown name has no arguments.\<close>

definition decode_args :: "args_json \<Rightarrow> uint64 \<Rightarrow> bytes \<Rightarrow> fc_fault + json_object" where
  "decode_args J n d =
     (case unpack_args n d of None \<Rightarrow> Inr [] | Some m \<Rightarrow> and_then m (\<lambda>(args, rest). toArgs J args))"

definition emit_from :: "(Action \<Rightarrow> Action \<times> action_signal list) \<Rightarrow> Action \<times> action_signal list
    \<Rightarrow> Action \<times> action_signal list" where
  "emit_from f as = (let (a, s) = f (fst as) in (a, snd as @ s))"

text \<open>
  The result is the exception that escapes, if any, and the action with the signals it emitted: the
  account, the name and the authorizations are set before the arguments are decoded.
\<close>

definition decodeAction :: "args_json \<Rightarrow> 'key fc_env \<Rightarrow> string \<Rightarrow> Action option
    \<Rightarrow> (fc_fault + unit) \<times> (Action \<times> action_signal list) option" where
  "decodeAction J E js target =
     (case target of None \<Rightarrow> (Inr (), None) | Some a \<Rightarrow>
      case actionFromJson E js of Inl e \<Rightarrow> (Inl e, Some (a, [])) | Inr decoded \<Rightarrow>
        let auths = map (\<lambda>p. authorization (name_text (plActor p)) (name_text (plPermission p))) (acAuthorization decoded);
            a1 = emit_from (setAccount (name_text (acAccount decoded))) (a, []);
            a2 = emit_from (setActionName (name_text (acName decoded))) a1;
            a3 = emit_from (setAuthorizations auths) a2
        in case decode_args J (acName decoded) (acData decoded) of
             Inl e \<Rightarrow> (Inl e, Some a3)
           | Inr args \<Rightarrow> (Inr (), Some (emit_from (setArguments args) a3)))"

end
