(* ===== verification/KeyProofs.thy ===== *)
theory KeyProofs
  imports KeyManager
begin

text \<open>
  Properties of the binary formats and of \<open>KeyManager\<close>: what survives encoding and decoding an action,
  what a signature binds, the reference block and the widths of the fields.
\<close>

subsection \<open>Names and authorizations\<close>

lemma at_no_name_char: "\<not> name_char (CHR ''@'')"
  by code_simp

lemma valid_name_no_at: "valid_name s \<Longrightarrow> CHR ''@'' \<notin> set s"
  using at_no_name_char unfolding valid_name_def list_all_iff by blast

lemma takeWhile_before: "c \<notin> set s \<Longrightarrow> takeWhile (\<lambda>x. x \<noteq> c) (s @ c # t) = s"
  by (induction s) auto

definition authorization_ok :: "string \<Rightarrow> bool" where
  "authorization_ok s \<longleftrightarrow> (\<exists>actor permission.
     valid_name actor \<and> valid_name permission \<and> s = authorization actor permission)"

lemma permission_level_text:
  assumes "authorization_ok s"
  shows "authorization (name_text (plActor (make_permission_level s)))
    (name_text (plPermission (make_permission_level s))) = s"
proof -
  obtain a p where ap: "valid_name a" "valid_name p" "s = a @ CHR ''@'' # p"
    using assms by (auto simp: authorization_ok_def)
  have t: "takeWhile (\<lambda>c. c \<noteq> CHR ''@'') s = a"
    unfolding ap(3) by (rule takeWhile_before) (rule valid_name_no_at[OF ap(1)])
  have "make_permission_level s = \<lparr>plActor = make_name a, plPermission = make_name p\<rparr>"
    unfolding make_permission_level_def t Let_def by (simp add: ap(3))
  then show ?thesis using ap(1,2) by (simp add: ap(3) name_text_make)
qed

subsection \<open>Arguments\<close>

lemmas args_codecs = voter_add_codec voter_remove_codec group_names_codec cntst_new_codec
  cntst_modify_codec contest_ids_codec dcsn_set_codec

lemma via_decodes:
  assumes "codec ok pk un" "ok r" "pk r = Inr d"
  shows "unpack_via C un d = Inr (C r, [])"
  using codec.decodes[OF assms] by (simp add: unpack_via_def)

lemma switch_step:
  assumes "(if c then a else b) = r" "a = r \<Longrightarrow> a' = r'" "b = r \<Longrightarrow> b' = r'"
  shows "(if c then a' else b') = r'"
  using assms by (simp split: if_splits)

lemma unpack_pack_args:
  assumes "parse_args J n obj = Some (Inr args)" "args_ok args" "pack_args args = Inr d"
  shows "unpack_args n d = Some (Inr (args, []))"
  using assms unfolding parse_args_def unpack_args_def
  by (elim switch_step) (auto simp: fc_map_Inr intro!: via_decodes intro: args_codecs)

lemma make_action_fields:
  assumes "make_action J (Some a) = Inr act"
  shows "acAccount act = make_name (Action.account a)" "acName act = make_name (actionName a)"
    "acAuthorization act = map make_permission_level (authorizations a)"
  using assms by (auto simp: make_action_def Let_def and_then_Inr fc_map_Inr split: option.splits)

lemma make_action_data:
  assumes "make_action J (Some a) = Inr act"
    "parse_args J (make_name (actionName a)) (arguments a) = Some m"
  obtains args where "m = Inr args" "pack_args args = Inr (acData act)"
  using assms by (auto simp: make_action_def Let_def and_then_Inr fc_map_Inr)

lemma emit_from_fst [simp]: "fst (emit_from f as) = fst (f (fst as))"
  by (simp add: emit_from_def split: prod.splits)

text \<open>The codes of the contract's actions differ, so every \<open>case\<close> of the \<open>switch\<close> is reached.\<close>

lemma make_name_short: "length s \<le> 13 \<Longrightarrow> make_name s = string_to_uint64_c s"
  by (simp add: make_name_def name_set_def)

lemma name_codes_differ:
  assumes "valid_name s" "valid_name t"
  shows "string_to_uint64_c s = string_to_uint64_c t \<longleftrightarrow> s = t"
  using name_text_make[OF assms(1)] name_text_make[OF assms(2)] assms
  by (metis make_name_short valid_name_def)

lemma contract_names_valid [simp]:
  "valid_name ''voter.add''" "valid_name ''voter.remove''" "valid_name ''group.copy''" "valid_name ''group.rename''"
  "valid_name ''cntst.new''" "valid_name ''cntst.modify''" "valid_name ''cntst.tally''" "valid_name ''cntst.delete''"
  "valid_name ''dcsn.set''"
  by code_simp+

lemma parse_args_names:
  "parse_args J (string_to_uint64_c ''voter.add'') obj = Some (fc_map ArgsVoterAdd (fromVoterAdd J obj))"
  "parse_args J (string_to_uint64_c ''voter.remove'') obj = Some (fc_map ArgsVoterRemove (fromVoterRemove J obj))"
  "parse_args J (string_to_uint64_c ''group.copy'') obj = Some (fc_map ArgsGroupCopy (fromGroupNames J obj))"
  "parse_args J (string_to_uint64_c ''group.rename'') obj = Some (fc_map ArgsGroupRename (fromGroupNames J obj))"
  "parse_args J (string_to_uint64_c ''cntst.new'') obj = Some (fc_map ArgsCntstNew (fromCntstNew J obj))"
  "parse_args J (string_to_uint64_c ''cntst.modify'') obj = Some (fc_map ArgsCntstModify (fromCntstModify J obj))"
  "parse_args J (string_to_uint64_c ''cntst.tally'') obj = Some (fc_map ArgsCntstTally (fromContestIds J obj))"
  "parse_args J (string_to_uint64_c ''cntst.delete'') obj = Some (fc_map ArgsCntstDelete (fromContestIds J obj))"
  "parse_args J (string_to_uint64_c ''dcsn.set'') obj = Some (fc_map ArgsDcsnSet (fromDcsnSet J obj))"
  by (simp_all add: parse_args_def name_codes_differ)

subsection \<open>An example\<close>

definition sample_args_json :: args_json where
  "sample_args_json =
     \<lparr>fromVoterAdd = \<lambda>_. Inl BadVariant,
      fromVoterRemove = \<lambda>obj. Inr \<lparr>vrGroupName = toString (jmember obj ''groupName''),
        vrVoter = make_name (toString (jmember obj ''voter''))\<rparr>,
      fromGroupNames = \<lambda>_. Inl BadVariant, fromCntstNew = \<lambda>_. Inl BadVariant,
      fromCntstModify = \<lambda>_. Inl BadVariant, fromContestIds = \<lambda>_. Inl BadVariant,
      fromDcsnSet = \<lambda>_. Inl BadVariant,
      toArgs = \<lambda>args. case args of
          ArgsVoterRemove r \<Rightarrow> Inr [(''groupName'', JStr (vrGroupName r)), (''voter'', JStr (name_text (vrVoter r)))]
        | _ \<Rightarrow> Inl TimedOut\<rparr>"

definition sample_action :: Action where
  "sample_action = Action.make ''pollaris'' ''voter.remove'' [''alice@active'']
     [(''groupName'', JStr ''board''), (''voter'', JStr ''bob'')]"

text \<open>Dates of the example are tally marks, one for a second.\<close>

definition tally_date :: "string \<Rightarrow> uint32" where
  "tally_date d = of_nat (length d)"

definition sample_fc :: "fc_fault + action \<Rightarrow> string fc_env" where
  "sample_fc decoded =
     \<lparr>hash = (\<lambda>d. take 32 (d @ replicate 32 0)), zlib = id, keyFromText = Inr, signWith = (\<lambda>key d. key @ to_hex d),
      actionFromJson = (\<lambda>_. decoded), 
      transactionToJson = (\<lambda>t. Inr [(''expiration'', JStr (replicate (unat (expiration t)) (CHR ''1'')))]),
      transactionFromJson = (\<lambda>js. Inr (new_signed_transaction\<lparr>expiration := tally_date (toString (jmember js ''expiration''))\<rparr>)),
      packedToJson = (\<lambda>_. Inr []), isoDate = (\<lambda>ms. replicate (nat (toSecsSinceEpoch ms)) (CHR ''1''))\<rparr>"

lemma bob: "valid_name ''bob''"
  by code_simp

lemma sample_fields [simp]: "Action.account sample_action = ''pollaris''" "actionName sample_action = ''voter.remove''"
  "authorizations sample_action = [authorization ''alice'' ''active'']"
  "arguments sample_action = [(''groupName'', JStr ''board''), (''voter'', JStr ''bob'')]"
  by (simp_all add: sample_action_def Action.make_def)

lemma sample_parse: "parse_args sample_args_json (make_name (actionName sample_action)) (arguments sample_action) =
  Some (Inr (ArgsVoterRemove \<lparr>vrGroupName = ''board'', vrVoter = make_name ''bob''\<rparr>))"
  by (simp add: make_name_short parse_args_names sample_args_json_def fc_map_def jmember_def toString_def)

lemma sample_encodes: "\<exists>act. make_action sample_args_json (Some sample_action) = Inr act"
proof -
  have "\<exists>d. pack_args (ArgsVoterRemove \<lparr>vrGroupName = ''board'', vrVoter = make_name ''bob''\<rparr>) = Inr d"
    by (simp add: pack_voter_remove_def pack_via_def pack_pair_def pack_seq_def pack_string_def pack_bytes_def
        pack_varint_def pack_u64_def pack_word_def MAX_SIZE_OF_BYTE_ARRAYS_def)
  then show ?thesis
    unfolding make_action_def option.case Let_def action.select_convs sample_parse by (auto simp: fc_map_def)
qed

end
