(* ===== verification/ActionProofs.thy ===== *)
theory ActionProofs
  imports Actions
begin

text \<open>
  What the checks of \<open>cpp/Action.hpp\<close> accept, what a transaction built by QML can hold, how long
  the interpolated texts of a description get, and how signatures accumulate.
\<close>

subsection \<open>Names of actions\<close>

lemma legal_names:
  "map fst LegalActionArguments =
     [VoterAdd, VoterRemove, GroupCopy, GroupRename, CntstNew, CntstModify, CntstTally, CntstDelete, DcsnSet]"
  by (simp add: LegalActionArguments_def)

lemma validateName_iff:
  "validateName n \<longleftrightarrow> n \<in> {VoterAdd, VoterRemove, GroupCopy, GroupRename, CntstNew, CntstModify, CntstTally, CntstDelete, DcsnSet}"
  by (simp add: validateName_def legal_names)

lemma legalArguments_unknown: "\<not> validateName n \<Longrightarrow> legalArguments n = {}"
  by (simp add: validateName_def legalArguments_def map_of_eq_None_iff split: option.split)
    (metis domI dom_map_of_conv_image_fst)

lemma arguments_nonempty: "args \<in> snd ` set LegalActionArguments \<Longrightarrow> args \<noteq> {}"
  by (auto simp: LegalActionArguments_def VoterAddArgs_def VoterRemoveArgs_def GroupCopyArgs_def
    GroupRenameArgs_def CntstNewArgs_def CntstModifyArgs_def CntstTallyArgs_def CntstDeleteArgs_def DcsnSetArgs_def)

lemma legalArguments_known: "validateName n \<Longrightarrow> legalArguments n \<noteq> {}"
proof -
  assume "validateName n"
  then obtain args where "map_of LegalActionArguments n = Some args"
    by (metis validateName_def list.set_map map_of_eq_None_iff option.exhaust)
  then show ?thesis
    using arguments_nonempty[of args] by (force simp: legalArguments_def dest: map_of_SomeD)
qed

text \<open>
  The arguments of a known action are accepted exactly when their names are the action's
  argument names; under an unknown action the empty argument list, and only it, is accepted, and
  the description of such an action is \<open>Unknown action\<close> rather than \<open>Invalid action\<close>.
\<close>

lemma argument_check:
  "(validateName n \<longrightarrow> validateArguments n args = (set (map fst args) = legalArguments n) \<and> \<not> validateArguments n []) \<and>
   (\<not> validateName n \<longrightarrow> validateArguments n args = (args = []) \<and>
      describe k \<lparr>account = acc, actionName = n, authorizations = auths, arguments = args\<rparr> =
        (if args = [] then ''Unknown action'' else ''Invalid action''))"
proof (intro conjI impI)
  assume "validateName n"
  then show "\<not> validateArguments n []"
    using legalArguments_known[of n] by (simp add: validateArguments_def)
next
  assume "\<not> validateName n"
  then show "describe k \<lparr>account = acc, actionName = n, authorizations = auths, arguments = args\<rparr> =
        (if args = [] then ''Unknown action'' else ''Invalid action'')"
    using legalArguments_unknown[of n] unfolding validateName_iff
    by (simp add: validateArguments_def describe_def)
qed (auto simp: validateArguments_def legalArguments_unknown)

lemma argument_check_witness:
  "validateArguments VoterRemove [(GroupName, JStr ''g''), (Voter, JStr ''bob'')] \<and>
   validateArguments ''mint'' [] \<and> \<not> validateArguments ''mint'' [(Voter, JStr ''bob'')]"
proof -
  have known: "validateName VoterRemove" by (simp add: validateName_iff)
  have unknown: "\<not> validateName ''mint''" unfolding validateName_iff by (simp add: strings_defs)
  have "legalArguments VoterRemove = {GroupName, Voter}"
    by (simp add: legalArguments_def LegalActionArguments_def VoterRemoveArgs_def strings_defs)
  then show ?thesis
    using argument_check[of VoterRemove "[(GroupName, JStr ''g''), (Voter, JStr ''bob'')]"]
      argument_check[of "''mint''" "[]"] argument_check[of "''mint''" "[(Voter, JStr ''bob'')]"] known unknown
    by auto
qed

subsection \<open>Elided texts\<close>

lemma half_bounds: "0 \<le> n \<Longrightarrow> 0 \<le> half n \<and> 2 * half n \<le> n"
  by (simp add: half_def)

text \<open>
  For a limit that is not negative, a text within the limit is unchanged; a longer one becomes
  its first and last \<open>limit / 2\<close> characters around three dots, at most three longer than the limit.
\<close>

lemma elide_bounds:
  assumes "0 \<le> n"
  shows "(int (length s) \<le> n \<longrightarrow> elide n s = s) \<and>
    (n < int (length s) \<longrightarrow>
       elide n s = take (nat n div 2) s @ ''...'' @ drop (length s - nat n div 2) s \<and>
       length (elide n s) \<le> nat n + 3)"
proof (intro conjI impI)
  assume long: "n < int (length s)"
  have h: "half n = int (nat n div 2)" using assms by (simp add: half_def zdiv_int)
  have short: "\<not> int (length s) \<le> half n" using half_bounds[OF assms] assms long by linarith
  have cut: "nat n div 2 \<le> length s" using long assms by linarith
  show e: "elide n s = take (nat n div 2) s @ ''...'' @ drop (length s - nat n div 2) s"
    using long short h by (simp add: elide_def left_def right_def)
  show "length (elide n s) \<le> nat n + 3" unfolding e using cut by simp
qed (simp add: elide_def)

lemma elide_bounds_witness:
  "elide 6 ''abcdefghij'' = ''abc...hij'' \<and> elide 10 ''abcdefghij'' = ''abcdefghij''"
  using elide_bounds[of 6 "''abcdefghij''"] elide_bounds[of 10 "''abcdefghij''"] by simp

subsection \<open>Transactions built by QML\<close>

text \<open>
  What the interface lets QML do with a transaction.  \<open>D\<close> are the actions QML has its hands on beyond the
  transaction's interface: those it made itself (\<open>Action\<close> is a QML type) and those it wrote.  Writing
  covers every slot of \<open>Action\<close> - the four setters and \<open>loadJson\<close>, which check nothing -, so the contents
  it leaves are arbitrary.  \<open>setActions\<close> takes any of them, and any action the transaction has made, in any
  order and number, with nulls between.
\<close>

inductive built :: "nat set \<Rightarrow> MutableTransaction \<Rightarrow> bool" for D where
  built_new: "built D new_MutableTransaction"
| built_add: "built D t \<Longrightarrow> p \<notin> dom (trxObjects t) \<Longrightarrow> built D (addAction p name args t)"
| built_delete: "built D t \<Longrightarrow> built D (deleteAction i t)"
| built_set: "built D t \<Longrightarrow> set (non_null ps) \<subseteq> dom (trxObjects t) \<union> D \<Longrightarrow> built D (setActions ps t)"
| built_make: "built D t \<Longrightarrow> p \<in> D \<Longrightarrow> p \<notin> dom (trxObjects t) \<Longrightarrow>
    built D (t\<lparr>trxObjects := (trxObjects t)(p \<mapsto> new_Action)\<rparr>)"
| built_write: "built D t \<Longrightarrow> p \<in> D \<Longrightarrow> built D (t\<lparr>trxObjects := (trxObjects t)(p := map_option f (trxObjects t p))\<rparr>)"
| built_expiration: "built D t \<Longrightarrow> built D (setExpiration e t)"
| built_block: "built D t \<Longrightarrow> built D (setRefBlockId b n t)"
| built_words: "built D t \<Longrightarrow> built D (setMaxNetWords w t)"
| built_cpu: "built D t \<Longrightarrow> built D (setMaxCpuMs c t)"
| built_delay: "built D t \<Longrightarrow> built D (setDelaySeconds d t)"

definition required_authorization :: "Action \<Rightarrow> string list" where
  "required_authorization a =
     [(if actionName a = DcsnSet then arg_text a VoterName else Contract_name) @ ''@'' @ Active]"

definition sound_action :: "Action \<Rightarrow> bool" where
  "sound_action a \<longleftrightarrow> account a = Contract_name \<and> validateName (actionName a) \<and>
     validateArguments (actionName a) (arguments a) \<and> authorizations a = required_authorization a"

definition sound_transaction :: "nat set \<Rightarrow> MutableTransaction \<Rightarrow> bool" where
  "sound_transaction D t \<longleftrightarrow> set (trxActions t) \<subseteq> dom (trxObjects t) \<union> D \<and>
     (\<forall>p a. p \<notin> D \<longrightarrow> trxObjects t p = Some a \<longrightarrow> sound_action a)"

lemma built_action_sound:
  "validateName name \<Longrightarrow> validateArguments name args \<Longrightarrow> sound_action (built_action name args)"
  by (auto simp: sound_action_def built_action_def Let_def required_authorization_def arg_text_def)

lemma trx_signal_fields [simp]:
  "trxActions (trx_signal s t) = trxActions t" "trxObjects (trx_signal s t) = trxObjects t"
  "trxDoomed (trx_signal s t) = trxDoomed t" "trxSignals (trx_signal s t) = trxSignals t @ [s]"
  by (simp_all add: trx_signal_def)

lemma built_sound: "built D t \<Longrightarrow> sound_transaction D t"
proof (induction rule: built.induct)
  case (built_add t p name args)
  then show ?case
    using built_action_sound[of name args]
    by (auto simp: sound_transaction_def addAction_def)
next
  case (built_delete t i)
  then show ?case
    by (auto simp: sound_transaction_def deleteAction_def Let_def remove_at_def dest!: in_set_takeD in_set_dropD)
next
  case (built_set t ps)
  then show ?case by (auto simp: sound_transaction_def setActions_def Let_def)
qed (auto simp: sound_transaction_def new_MutableTransaction_def setExpiration_def setRefBlockId_def
      setMaxNetWords_def setMaxCpuMs_def setDelaySeconds_def)

lemma described: "sound_action a \<Longrightarrow> describe k a \<notin> {''Invalid action'', ''Unknown action''}"
  unfolding sound_action_def validateName_iff describe_def
  by (auto simp: less_eq_char_def)

text \<open>
  C21. Whatever QML does with a transaction, the actions it made itself or wrote apart: every other action
  of the transaction was made by \<open>addAction\<close>, is on the contract's account, has a legal name with exactly
  its legal arguments, and carries one authorization - that of the voter for a decision and that of the
  contract otherwise; no description calls it invalid or unknown.  Of the actions in \<open>D\<close> nothing is
  known: neither \<open>setActions\<close> nor the setters of \<open>Action\<close> repeat the checks of \<open>addAction\<close>.
\<close>

theorem built_transactions_sound:
  assumes "built D t" "p \<in> set (trxActions t)" "p \<notin> D"
  shows "\<exists>a. trxObjects t p = Some a \<and> account a = Contract_name \<and> validateName (actionName a) \<and>
    validateArguments (actionName a) (arguments a) \<and> authorizations a = required_authorization a \<and>
    describe k a \<notin> {''Invalid action'', ''Unknown action''}"
proof -
  have s: "sound_transaction D t" using built_sound[OF assms(1)] .
  then obtain a where a: "trxObjects t p = Some a"
    using assms(2,3) by (auto simp: sound_transaction_def)
  then have "sound_action a" using s assms(3) by (simp add: sound_transaction_def)
  then show ?thesis using a described[of a k] by (auto simp: sound_action_def)
qed

definition vote_args :: json_object where
  "vote_args = [(ContestId, JNum 7), (GroupId, JNum 3), (Opinions, JObj []), (Tags, JArr []), (VoterName, JStr ''bob'')]"

text \<open>QML adds an action, makes one of its own, renames it, and sets the list to both.\<close>

definition mixed_transaction :: MutableTransaction where
  "mixed_transaction = setActions [Some 6, None, Some 5]
     ((addAction 5 DcsnSet vote_args new_MutableTransaction)\<lparr>trxObjects := [5 \<mapsto> built_action DcsnSet vote_args,
        6 \<mapsto> new_Action\<lparr>actionName := ''mint''\<rparr>]\<rparr>)"

lemma vote_args_valid: "validateArguments DcsnSet vote_args"
  by (auto simp: validateArguments_def legalArguments_def LegalActionArguments_def DcsnSetArgs_def
      vote_args_def strings_defs)

lemma mixed_transaction_built: "built {6} mixed_transaction"
proof -
  let ?t = "addAction 5 DcsnSet vote_args new_MutableTransaction"
  have t: "trxObjects ?t = [5 \<mapsto> built_action DcsnSet vote_args]"
    using vote_args_valid by (simp add: addAction_def validateName_iff new_MutableTransaction_def)
  have b: "built {6} ?t" by (intro built_add built_new) (simp add: new_MutableTransaction_def)
  have m: "built {6} (?t\<lparr>trxObjects := (trxObjects ?t)(6 \<mapsto> new_Action)\<rparr>)"
    by (rule built_make[OF b]) (simp_all add: t)
  have "built {6} (?t\<lparr>trxObjects := [5 \<mapsto> built_action DcsnSet vote_args, 6 \<mapsto> new_Action\<lparr>actionName := ''mint''\<rparr>]\<rparr>)"
    using built_write[OF m, of 6 "\<lambda>a. fst (setActionName ''mint'' a)"] by (simp add: t fun_upd_def cong: if_cong)
  then show ?thesis unfolding mixed_transaction_def
    by (rule built_set) (simp add: non_null_def)
qed

theorem built_transactions_sound_witness:
  "trxActions mixed_transaction = [6, 5] \<and>
   (\<exists>a. trxObjects mixed_transaction 5 = Some a \<and>
     authorizations a = [''bob@active''] \<and> describe 25 a \<noteq> ''Invalid action'')"
proof -
  have t: "trxActions mixed_transaction = [6, 5]"
    "trxObjects mixed_transaction 5 = Some (built_action DcsnSet vote_args)"
    using vote_args_valid
    by (simp_all add: mixed_transaction_def setActions_def Let_def non_null_def addAction_def validateName_iff
        new_MutableTransaction_def)
  have auth: "required_authorization (built_action DcsnSet vote_args) = [''bob@active'']"
    by (simp add: required_authorization_def built_action_def Let_def arg_text_def vote_args_def jmember_def
      toString_def strings_defs)
  show ?thesis
    using built_transactions_sound[OF mixed_transaction_built, of 5 25] t auth by auto
qed

subsection \<open>Signatures\<close>

definition signatures :: "SignableTransaction \<Rightarrow> json list" where
  "signatures s = toArray (jmember (signableJson s) ''signatures'')"

lemma addSignature_simps [simp]:
  "signatures (addSignature x s) = signatures s @ [JStr x]"
  "k \<noteq> ''signatures'' \<Longrightarrow> jmember (signableJson (addSignature x s)) k = jmember (signableJson s) k"
  "length (signableLog (addSignature x s)) = Suc (length (signableLog s))"
  by (simp_all add: signatures_def addSignature_def Let_def jmember_def toArray_def)

text \<open>
  Signing repeatedly appends the signatures in order, announces every one of them, and changes
  no other member of the transaction.
\<close>

lemma signatures_accumulate:
  "signatures (fold addSignature sigs s) = signatures s @ map JStr sigs \<and>
   length (signableLog (fold addSignature sigs s)) = length (signableLog s) + length sigs \<and>
   (k \<noteq> ''signatures'' \<longrightarrow> jmember (signableJson (fold addSignature sigs s)) k = jmember (signableJson s) k)"
  by (induction sigs arbitrary: s) simp_all

lemma signatures_accumulate_witness:
  "signatures (fold addSignature [''a'', ''b''] (new_SignableTransaction [(''actions'', JArr [])])) =
     [JStr ''a'', JStr ''b''] \<and>
   jmember (signableJson (fold addSignature [''a'', ''b''] (new_SignableTransaction [(''actions'', JArr [])]))) ''actions'' = JArr []"
  using signatures_accumulate[of "[''a'', ''b'']" "new_SignableTransaction [(''actions'', JArr [])]" "''actions''"]
  by (simp add: new_SignableTransaction_def signatures_def jmember_def toArray_def)

end
