(* ===== verification/FcVariant.thy ===== *)
theory FcVariant
  imports EosioTypes
begin

text \<open>
  Values between structs and JSON, as the vendored library fc converts them: \<open>fc::variant\<close>
  (\<open>vendor/fc/src/variant.cpp\<close>), the containers of \<open>vendor/fc/include/fc/variant.hpp\<close> and the visitors of
  reflected structs (\<open>vendor/fc/include/fc/reflect/variant.hpp\<close>).  A variant is a \<open>json\<close>; what is written
  is the value as \<open>fc::json::to_string\<close> shows it, so a number above 0xffffffff is a text
  (\<open>to_stream\<close> in \<open>vendor/fc/src/io/json.cpp\<close>).  Numbers with a fraction are not modelled.
\<close>

subsection \<open>What is not in the sources\<close>

text \<open>
  \<open>parsed\<close> is the text of the object read by \<open>fc::json::from_string\<close>; \<open>printed\<close> the text of
  \<open>fc::json::to_string\<close>, which may miss its deadline, read by \<open>QJsonDocument\<close>.  \<open>digitsIn\<close> and
  \<open>signedDigitsIn\<close> are boost's \<open>lexical_cast\<close> to \<open>uint64_t\<close> and \<open>int64_t\<close>, \<open>dateIn\<close> and \<open>dateOut\<close> the dates
  of boost.
\<close>

record fc_values =
  parsed :: "json_object \<Rightarrow> fc_fault + json_object"
  printed :: "json_object \<Rightarrow> fc_fault + json_object"
  digitsIn :: "string \<Rightarrow> fc_fault + uint64"
  signedDigitsIn :: "string \<Rightarrow> fc_fault + uint64"
  dateIn :: "string \<Rightarrow> fc_fault + uint32"
  dateOut :: "uint32 \<Rightarrow> string"

subsection \<open>The contract of a conversion\<close>

locale conversion =
  fixes ok :: "'v \<Rightarrow> bool"
    and wr :: "'v \<Rightarrow> fc_fault + json"
    and rd :: "json \<Rightarrow> fc_fault + 'v"
  assumes reads_written: "ok v \<Longrightarrow> wr v = Inr j \<Longrightarrow> rd j = Inr v"
    and not_null: "wr v = Inr j \<Longrightarrow> j \<noteq> JNull"

lemma conversion_weaken: "conversion ok wr rd \<Longrightarrow> (\<And>v. ok' v \<Longrightarrow> ok v) \<Longrightarrow> conversion ok' wr rd"
  by (simp add: conversion_def)

subsection \<open>Numbers and texts\<close>

definition int_text :: "int \<Rightarrow> string" where
  "int_text n = (if n < 0 then CHR ''-'' # number (nat (- n)) else number (nat n))"

definition as_string :: "json \<Rightarrow> fc_fault + string" where
  "as_string j = (case j of
     JStr s \<Rightarrow> Inr s | JNum n \<Rightarrow> Inr (int_text n) | JBool b \<Rightarrow> Inr (if b then ''true'' else ''false'')
   | JNull \<Rightarrow> Inr [] | _ \<Rightarrow> Inl BadVariant)"

definition get_string :: "json \<Rightarrow> fc_fault + string" where
  "get_string j = (case j of JStr s \<Rightarrow> Inr s | _ \<Rightarrow> Inl BadVariant)"

definition as_uint64 :: "fc_values \<Rightarrow> json \<Rightarrow> fc_fault + uint64" where
  "as_uint64 C j = (case j of
     JStr s \<Rightarrow> digitsIn C s | JNum n \<Rightarrow> Inr (word_of_int n) | JBool b \<Rightarrow> Inr (if b then 1 else 0)
   | JNull \<Rightarrow> Inr 0 | _ \<Rightarrow> Inl BadVariant)"

definition as_int64 :: "fc_values \<Rightarrow> json \<Rightarrow> fc_fault + uint64" where
  "as_int64 C j = (case j of
     JStr s \<Rightarrow> signedDigitsIn C s | JNum n \<Rightarrow> Inr (word_of_int n) | JBool b \<Rightarrow> Inr (if b then 1 else 0)
   | JNull \<Rightarrow> Inr 0 | _ \<Rightarrow> Inl BadVariant)"

definition text_in :: "json \<Rightarrow> fc_fault + string" where "text_in = as_string"

definition text_out :: "string \<Rightarrow> fc_fault + json" where "text_out s = Inr (JStr s)"

definition u64_in :: "fc_values \<Rightarrow> json \<Rightarrow> fc_fault + uint64" where "u64_in = as_uint64"

definition u64_out :: "uint64 \<Rightarrow> fc_fault + json" where
  "u64_out n = Inr (if n > 0xffffffff then JStr (number (unat n)) else JNum (uint n))"

definition u32_in :: "fc_values \<Rightarrow> json \<Rightarrow> fc_fault + uint32" where
  "u32_in C j = fc_map ucast (as_uint64 C j)"

definition u32_out :: "uint32 \<Rightarrow> fc_fault + json" where "u32_out n = u64_out (ucast n)"

text \<open>An \<open>int32_t\<close> is its 32 bits.\<close>

definition i32_in :: "fc_values \<Rightarrow> json \<Rightarrow> fc_fault + uint32" where
  "i32_in C j = fc_map ucast (as_int64 C j)"

definition i32_out :: "uint32 \<Rightarrow> fc_fault + json" where "i32_out n = Inr (JNum (sint n))"

definition time_in :: "fc_values \<Rightarrow> json \<Rightarrow> fc_fault + uint32" where
  "time_in C j = and_then (as_string j) (dateIn C)"

definition time_out :: "fc_values \<Rightarrow> uint32 \<Rightarrow> fc_fault + json" where
  "time_out C t = Inr (JStr (dateOut C t))"

text \<open>
  A name is read with \<open>get_string\<close> and \<open>set\<close> into the member of the struct, which the constructor made
  zero: a text of more than thirteen characters is logged and leaves it.
\<close>

definition name_in :: "json \<Rightarrow> fc_fault + uint64" where
  "name_in j = fc_map (\<lambda>t. name_set t 0) (get_string j)"

definition name_out :: "uint64 \<Rightarrow> fc_fault + json" where
  "name_out n = Inr (JStr (name_text n))"

subsection \<open>Containers\<close>

fun each :: "('a \<Rightarrow> fc_fault + 'b) \<Rightarrow> 'a list \<Rightarrow> fc_fault + 'b list" where
  "each f [] = Inr []"
| "each f (x # xs) = and_then (f x) (\<lambda>y. fc_map ((#) y) (each f xs))"

definition get_array :: "json \<Rightarrow> fc_fault + json list" where
  "get_array j = (case j of JArr js \<Rightarrow> Inr js | _ \<Rightarrow> Inl BadVariant)"

definition array_in :: "(json \<Rightarrow> fc_fault + 'a) \<Rightarrow> json \<Rightarrow> fc_fault + 'a list" where
  "array_in rd j = and_then (get_array j) (\<lambda>js.
     if length js > MAX_NUM_ARRAY_ELEMENTS then Inl TooLarge else each rd js)"

definition array_out :: "('a \<Rightarrow> fc_fault + json) \<Rightarrow> 'a list \<Rightarrow> fc_fault + json" where
  "array_out wr xs =
     (if length xs > MAX_NUM_ARRAY_ELEMENTS then Inl TooLarge else fc_map JArr (each wr xs))"

text \<open>A pair is read into a new one, which holds \<open>a0\<close> and \<open>b0\<close>: elements that are missing leave them.\<close>

definition pair_in :: "(json \<Rightarrow> fc_fault + 'a) \<Rightarrow> 'a \<Rightarrow> (json \<Rightarrow> fc_fault + 'b) \<Rightarrow> 'b \<Rightarrow> json \<Rightarrow> fc_fault + 'a \<times> 'b" where
  "pair_in rda a0 rdb b0 j = and_then (get_array j) (\<lambda>js.
     and_then (if 0 < length js then rda (js ! 0) else Inr a0) (\<lambda>a.
     fc_map (Pair a) (if 1 < length js then rdb (js ! 1) else Inr b0)))"

definition pair_out :: "('a \<Rightarrow> fc_fault + json) \<Rightarrow> ('b \<Rightarrow> fc_fault + json) \<Rightarrow> 'a \<times> 'b \<Rightarrow> fc_fault + json" where
  "pair_out wra wrb p = and_then (wra (fst p)) (\<lambda>a. fc_map (\<lambda>b. JArr [a, b]) (wrb (snd p)))"

text \<open>A \<open>std::map\<close> is an array of pairs, inserted one after the other.\<close>

definition map_in ::
  "('k \<Rightarrow> 'o::linorder) \<Rightarrow> (json \<Rightarrow> fc_fault + 'k) \<Rightarrow> 'k \<Rightarrow> (json \<Rightarrow> fc_fault + 'v) \<Rightarrow> 'v \<Rightarrow> json \<Rightarrow> fc_fault + ('k \<times> 'v) list" where
  "map_in key rdk k0 rdv v0 j = fc_map (\<lambda>kvs. fold (map_put key) kvs []) (array_in (pair_in rdk k0 rdv v0) j)"

definition map_out :: "('k \<Rightarrow> fc_fault + json) \<Rightarrow> ('v \<Rightarrow> fc_fault + json) \<Rightarrow> ('k \<times> 'v) list \<Rightarrow> fc_fault + json" where
  "map_out wrk wrv = array_out (pair_out wrk wrv)"

text \<open>An optional: null makes it empty.\<close>

definition optional_in :: "(json \<Rightarrow> fc_fault + 'v) \<Rightarrow> json \<Rightarrow> fc_fault + 'v option" where
  "optional_in rd j = (if j = JNull then Inr None else fc_map Some (rd j))"

subsection \<open>Reflected structs\<close>

text \<open>A member: its name, how a value is read into the struct, how it is written (not at all when unset).\<close>

type_synonym 's member = "string \<times> (json \<Rightarrow> 's \<Rightarrow> fc_fault + 's) \<times> ('s \<Rightarrow> fc_fault + json option)"

text \<open>\<open>from_variant_visitor\<close>: a member the object lacks keeps what it holds.\<close>

fun visit_from :: "'s member list \<Rightarrow> json_object \<Rightarrow> 's \<Rightarrow> fc_fault + 's" where
  "visit_from [] obj s = Inr s"
| "visit_from ((n, rd, wr) # ms) obj s =
     and_then (case map_of obj n of Some v \<Rightarrow> rd v s | None \<Rightarrow> Inr s) (visit_from ms obj)"

text \<open>\<open>to_variant_visitor\<close>: an optional without a value is left out.\<close>

fun visit_to :: "'s member list \<Rightarrow> 's \<Rightarrow> fc_fault + json_object" where
  "visit_to [] s = Inr []"
| "visit_to ((n, rd, wr) # ms) s = and_then (wr s) (\<lambda>v.
     fc_map (\<lambda>obj. case v of Some j \<Rightarrow> (n, j) # obj | None \<Rightarrow> obj) (visit_to ms s))"

definition member ::
  "string \<Rightarrow> (json \<Rightarrow> fc_fault + 'v) \<Rightarrow> ('v \<Rightarrow> fc_fault + json) \<Rightarrow> ('s \<Rightarrow> 'v) \<Rightarrow> ('v \<Rightarrow> 's \<Rightarrow> 's) \<Rightarrow> 's member" where
  "member n rd wr get put = (n, (\<lambda>j s. fc_map (\<lambda>v. put v s) (rd j)), (\<lambda>s. fc_map Some (wr (get s))))"

definition optional_member ::
  "string \<Rightarrow> (json \<Rightarrow> fc_fault + 'v) \<Rightarrow> ('v \<Rightarrow> fc_fault + json) \<Rightarrow> ('s \<Rightarrow> 'v option) \<Rightarrow> ('v option \<Rightarrow> 's \<Rightarrow> 's) \<Rightarrow> 's member" where
  "optional_member n rd wr get put =
     (n, (\<lambda>j s. fc_map (\<lambda>v. put v s) (optional_in rd j)),
      (\<lambda>s. case get s of None \<Rightarrow> Inr None | Some v \<Rightarrow> fc_map Some (wr v)))"

text \<open>A struct inside another: an object, its members in the key order of \<open>QJsonObject\<close>.\<close>

definition object_in :: "'s member list \<Rightarrow> 's \<Rightarrow> json \<Rightarrow> fc_fault + 's" where
  "object_in ms fresh j = (case j of JObj obj \<Rightarrow> visit_from ms obj fresh | _ \<Rightarrow> Inl BadVariant)"

definition object_out :: "'s member list \<Rightarrow> 's \<Rightarrow> fc_fault + json" where
  "object_out ms s = fc_map (\<lambda>obj. JObj (sort_key fst obj)) (visit_to ms s)"

subsection \<open>Values of the contract\<close>

definition tags_in :: "json \<Rightarrow> fc_fault + string list" where "tags_in = array_in text_in"

definition tags_out :: "string list \<Rightarrow> fc_fault + json" where "tags_out = array_out text_out"

definition contestant_members :: "ContestantDescriptor member list" where
  "contestant_members =
     [member ''name'' text_in text_out cdName (\<lambda>v. cdName_update (\<lambda>_. v)),
      member ''description'' text_in text_out cdDescription (\<lambda>v. cdDescription_update (\<lambda>_. v)),
      member ''tags'' tags_in tags_out cdTags (\<lambda>v. cdTags_update (\<lambda>_. v))]"

definition new_contestant :: ContestantDescriptor where
  "new_contestant = \<lparr>cdName = [], cdDescription = [], cdTags = []\<rparr>"

definition contestant_in :: "json \<Rightarrow> fc_fault + ContestantDescriptor" where
  "contestant_in = object_in contestant_members new_contestant"

definition contestant_out :: "ContestantDescriptor \<Rightarrow> fc_fault + json" where
  "contestant_out = object_out contestant_members"

definition contestants_in :: "json \<Rightarrow> fc_fault + ContestantDescriptor list" where
  "contestants_in = array_in contestant_in"

definition contestants_out :: "ContestantDescriptor list \<Rightarrow> fc_fault + json" where
  "contestants_out = array_out contestant_out"

definition ids_in :: "fc_values \<Rightarrow> json \<Rightarrow> fc_fault + uint64 list" where "ids_in C = array_in (u64_in C)"

definition ids_out :: "uint64 list \<Rightarrow> fc_fault + json" where "ids_out = array_out u64_out"

definition opinions_members :: "fc_values \<Rightarrow> FullOpinions member list" where
  "opinions_members C =
     [member ''contestantOpinions'' (map_in id (u64_in C) 0 (i32_in C) 0) (map_out u64_out i32_out)
        contestantOpinions (\<lambda>v. contestantOpinions_update (\<lambda>_. v)),
      member ''writeInOpinions'' (map_in contestant_key contestant_in new_contestant (i32_in C) 0)
        (map_out contestant_out i32_out) writeInOpinions (\<lambda>v. writeInOpinions_update (\<lambda>_. v))]"

definition new_opinions :: FullOpinions where
  "new_opinions = \<lparr>contestantOpinions = [], writeInOpinions = []\<rparr>"

definition opinions_in :: "fc_values \<Rightarrow> json \<Rightarrow> fc_fault + FullOpinions" where
  "opinions_in C = object_in (opinions_members C) new_opinions"

definition opinions_out :: "fc_values \<Rightarrow> FullOpinions \<Rightarrow> fc_fault + json" where
  "opinions_out C = object_out (opinions_members C)"

subsection \<open>Written values are read back\<close>

lemma fc_map_simps [simp]: "fc_map f (Inr x) = Inr (f x)" "fc_map f (Inl e) = Inl e" "fc_map Some m \<noteq> Inr None"
  by (cases m, simp_all add: fc_map_def)+

text \<open>What the code relies on in boost: the digits of a number are read as that number, a date as that date.\<close>

definition digits_ok :: "fc_values \<Rightarrow> bool" where
  "digits_ok C \<longleftrightarrow> (\<forall>n. digitsIn C (number (unat n)) = Inr n)"

definition date_ok :: "fc_values \<Rightarrow> uint32 \<Rightarrow> bool" where
  "date_ok C t \<longleftrightarrow> dateIn C (dateOut C t) = Inr t"

interpretation text_value: conversion "\<lambda>_. True" text_out text_in
  by unfold_locales (auto simp: text_out_def text_in_def as_string_def)

interpretation name_value: conversion "\<lambda>_. True" name_out name_in
  by unfold_locales (auto simp: name_out_def name_in_def get_string_def name_text_make_all[unfolded make_name_def])

interpretation time_value: conversion "date_ok C" "time_out C" "time_in C"
  by unfold_locales (auto simp: time_out_def time_in_def as_string_def date_ok_def)

interpretation i32_value: conversion "\<lambda>_. True" i32_out "i32_in C"
proof
  fix v j assume "i32_out v = Inr j"
  then have j: "j = JNum (sint v)" by (simp add: i32_out_def)
  have "(ucast (word_of_int (sint v) :: uint64) :: uint32) = v"
    by (rule bit_word_eqI) (simp add: bit_simps)
  then show "i32_in C j = Inr v" by (simp add: j i32_in_def as_int64_def)
qed (auto simp: i32_out_def)

lemma u64_conversion: "digits_ok C \<Longrightarrow> conversion (\<lambda>_. True) u64_out (u64_in C)"
  by unfold_locales (auto simp: u64_out_def u64_in_def as_uint64_def digits_ok_def split: if_splits)

interpretation u32_value: conversion "\<lambda>_. True" u32_out "u32_in C"
proof
  fix v j assume "u32_out v = Inr j"
  moreover have "\<not> (ucast v :: uint64) > 0xffffffff"
  proof -
    have "unat v < 2 ^ 32" by (rule unat_bound32)
    then have "unat (ucast v :: uint64) \<le> 0xffffffff" by (simp add: unsigned_ucast_eq take_bit_eq_mod)
    then show ?thesis by (simp add: word_less_nat_alt)
  qed
  ultimately have j: "j = JNum (uint (ucast v :: uint64))" by (simp add: u32_out_def u64_out_def)
  have "(ucast (ucast v :: uint64) :: uint32) = v" by (rule bit_word_eqI) (simp add: bit_simps)
  then show "u32_in C j = Inr v" by (simp add: j u32_in_def as_uint64_def)
next
  fix v :: uint32 and j assume "u32_out v = Inr j"
  then show "j \<noteq> JNull" by (auto simp: u32_out_def u64_out_def split: if_splits)
qed

lemma each_back:
  "conversion ok wr rd \<Longrightarrow> list_all ok xs \<Longrightarrow> each wr xs = Inr js \<Longrightarrow> each rd js = Inr xs \<and> length js = length xs"
  by (induction xs arbitrary: js) (auto simp: and_then_Inr fc_map_Inr conversion.reads_written)

lemma array_conversion: "conversion ok wr rd \<Longrightarrow> conversion (list_all ok) (array_out wr) (array_in rd)"
  by unfold_locales (auto simp: array_out_def array_in_def get_array_def fc_map_Inr dest: each_back split: if_splits)

lemma pair_conversion:
  assumes "conversion oka wra rda" "conversion okb wrb rdb"
  shows "conversion (\<lambda>p. oka (fst p) \<and> okb (snd p)) (pair_out wra wrb) (pair_in rda a0 rdb b0)"
proof
  fix p j assume ok: "oka (fst p) \<and> okb (snd p)" and "pair_out wra wrb p = Inr j"
  then obtain a b where ab: "wra (fst p) = Inr a" "wrb (snd p) = Inr b" "j = JArr [a, b]"
    by (auto simp: pair_out_def and_then_Inr fc_map_Inr)
  have "rda a = Inr (fst p)" "rdb b = Inr (snd p)"
    using ok conversion.reads_written[OF assms(1) _ ab(1)] conversion.reads_written[OF assms(2) _ ab(2)] by simp_all
  then show "pair_in rda a0 rdb b0 j = Inr p" by (simp add: ab(3) pair_in_def get_array_def)
qed (auto simp: pair_out_def and_then_Inr fc_map_Inr)

lemma map_conversion:
  assumes "conversion okk wrk rdk" "conversion okv wrv rdv"
  shows "conversion (\<lambda>m. map_ok key m \<and> list_all (\<lambda>kv. okk (fst kv) \<and> okv (snd kv)) m)
    (map_out wrk wrv) (map_in key rdk k0 rdv v0)"
proof -
  have c: "conversion (list_all (\<lambda>kv. okk (fst kv) \<and> okv (snd kv))) (array_out (pair_out wrk wrv))
      (array_in (pair_in rdk k0 rdv v0))"
    by (rule array_conversion[OF pair_conversion[OF assms]])
  show ?thesis
  proof
    fix m j assume "map_ok key m \<and> list_all (\<lambda>kv. okk (fst kv) \<and> okv (snd kv)) m" "map_out wrk wrv m = Inr j"
    then show "map_in key rdk k0 rdv v0 j = Inr m"
      using conversion.reads_written[OF c, of m j] fold_map_put[of key "[]" m] by (simp add: map_in_def map_out_def)
  qed (use conversion.not_null[OF c] in \<open>auto simp: map_out_def\<close>)
qed

text \<open>Whatever is inserted, in whatever order, the result is a map.\<close>

lemma map_put_keys: "fst ` set (map_put key kv m) \<subseteq> insert (fst kv) (fst ` set m)"
  by (induction m) auto

lemma map_put_ok: "map_ok key m \<Longrightarrow> map_ok key (map_put key kv m)"
proof (induction m)
  case (Cons kv' m)
  have tail: "map_ok key m" "\<And>k. k \<in> fst ` set m \<Longrightarrow> key (fst kv') < key k"
    using Cons.prems by (auto simp: map_ok_def)
  consider "key (fst kv) < key (fst kv')" | "key (fst kv) = key (fst kv')" | "key (fst kv') < key (fst kv)"
    by (rule linorder_cases)
  then show ?case
  proof cases
    case 1
    then show ?thesis using Cons.prems tail(2) by (auto simp: map_ok_def intro: less_trans)
  next
    case 3
    have "\<forall>k \<in> fst ` set (map_put key kv m). key (fst kv') < key k"
    proof
      fix k assume "k \<in> fst ` set (map_put key kv m)"
      then have "k = fst kv \<or> k \<in> fst ` set m" using map_put_keys[of key kv m] by blast
      then show "key (fst kv') < key k" using tail(2) 3 by blast
    qed
    then have "map_ok key (kv' # map_put key kv m)" using Cons.IH[OF tail(1)] unfolding map_ok_def by simp
    moreover have "map_put key kv (kv' # m) = kv' # map_put key kv m"
      using less_imp_not_less[OF 3] less_imp_neq[OF 3] by simp
    ultimately show ?thesis by (simp only:)
  qed (use Cons.prems in simp)
qed (simp add: map_ok_def)

lemma fold_map_put_ok: "map_ok key m \<Longrightarrow> map_ok key (fold (map_put key) kvs m)"
  by (induction kvs arbitrary: m) (simp_all add: map_put_ok)

lemma map_in_ok: "map_in key rdk k0 rdv v0 j = Inr m \<Longrightarrow> map_ok key m"
  by (auto simp: map_in_def fc_map_Inr map_ok_def intro!: fold_map_put_ok[unfolded map_ok_def])

lemma unpack_map_ok: "unpack_map key uk uv bs = Inr (m, rest) \<Longrightarrow> map_ok key m"
  by (auto simp: unpack_map_def and_then_Inr map_ok_def intro!: fold_map_put_ok[unfolded map_ok_def])

lemma unpack_opinions_ok: "unpack_opinions bs = Inr (os, rest) \<Longrightarrow> opinions_ok os"
  by (auto simp: unpack_opinions_def unpack_via_def unpack_pair_def and_then_Inr opinions_ok_def dest: unpack_map_ok)

subsection \<open>Written structs are read back\<close>

text \<open>Each member of \<open>s\<close> copied over \<open>f\<close>.\<close>

fun copy_members :: "'s member list \<Rightarrow> 's \<Rightarrow> 's \<Rightarrow> fc_fault + 's" where
  "copy_members [] s f = Inr f"
| "copy_members ((n, rd, wr) # ms) s f =
     and_then (wr s) (\<lambda>v. and_then (case v of Some j \<Rightarrow> rd j f | None \<Rightarrow> Inr f) (copy_members ms s))"

lemma visit_to_new: "visit_to ms s = Inr obj \<Longrightarrow> k \<notin> fst ` set ms \<Longrightarrow> map_of obj k = None"
  by (induction ms arbitrary: obj) (auto simp: and_then_Inr fc_map_Inr split: option.splits)

lemma visit_to_member:
  "visit_to ms s = Inr obj \<Longrightarrow> distinct (map fst ms) \<Longrightarrow> (n, rd, wr) \<in> set ms \<Longrightarrow> wr s = Inr (map_of obj n)"
proof (induction ms arbitrary: obj)
  case (Cons m ms)
  obtain n' rd' wr' where m: "m = (n', rd', wr')" by (cases m)
  obtain v obj' where v: "wr' s = Inr v" "visit_to ms s = Inr obj'"
    "obj = (case v of Some j \<Rightarrow> (n', j) # obj' | None \<Rightarrow> obj')"
    using Cons.prems(1) by (auto simp: m and_then_Inr fc_map_Inr)
  have new: "map_of obj' n' = None" using visit_to_new[OF v(2)] Cons.prems(2) m by auto
  show ?case
  proof (cases "(n, rd, wr) = m")
    case True
    then show ?thesis using v(1,3) new m by (auto split: option.splits)
  next
    case False
    then have i: "(n, rd, wr) \<in> set ms" "n \<noteq> n'" using Cons.prems(2,3) m by force+
    then have "wr s = Inr (map_of obj' n)" using Cons.IH[OF v(2)] Cons.prems(2) by simp
    then show ?thesis using v(3) i(2) by (auto split: option.splits)
  qed
qed simp

lemma visit_from_copies:
  "(\<And>m. m \<in> set ms \<Longrightarrow> snd (snd m) s = Inr (map_of obj (fst m))) \<Longrightarrow> visit_from ms obj f = copy_members ms s f"
proof (induction ms arbitrary: f)
  case (Cons m ms)
  obtain n rd wr where m: "m = (n, rd, wr)" by (cases m)
  have "wr s = Inr (map_of obj n)" using Cons.prems[of m] by (simp add: m)
  moreover have "visit_from ms obj = copy_members ms s"
    by (rule ext, rule Cons.IH) (simp add: Cons.prems)
  ultimately show ?case by (simp add: m)
qed simp

lemma visit_round:
  assumes "distinct (map fst ms)" "visit_to ms s = Inr obj" "map_of o' = map_of obj"
  shows "visit_from ms o' f = copy_members ms s f"
proof (rule visit_from_copies)
  fix m assume "m \<in> set ms"
  then show "snd (snd m) s = Inr (map_of o' (fst m))"
    using visit_to_member[OF assms(2,1), of "fst m" "fst (snd m)" "snd (snd m)"] assms(3) by simp
qed

lemma copy_member:
  "conversion ok wr rd \<Longrightarrow> ok (get s) \<Longrightarrow> copy_members (member n rd wr get put # ms) s f =
     and_then (wr (get s)) (\<lambda>_. copy_members ms s (put (get s) f))"
  by (cases "wr (get s)") (simp_all add: member_def conversion.reads_written)

lemma copy_optional_member:
  assumes "conversion ok wr rd" "pred_option ok (get s)" "put None f = f"
  shows "copy_members (optional_member n rd wr get put # ms) s f =
    and_then (case get s of None \<Rightarrow> Inr None | Some v \<Rightarrow> fc_map Some (wr v)) (\<lambda>_. copy_members ms s (put (get s) f))"
proof (cases "get s")
  case None
  then show ?thesis using assms(3) by (simp add: optional_member_def)
next
  case (Some v)
  then show ?thesis using assms(1,2) conversion.reads_written[OF assms(1), of v] conversion.not_null[OF assms(1), of v]
    by (cases "wr v") (auto simp: optional_member_def optional_in_def)
qed

lemma visit_to_Cons: "visit_to (member n rd wr get put # ms) s = Inr obj \<Longrightarrow>
    (\<exists>j. wr (get s) = Inr j) \<and> (\<exists>obj'. visit_to ms s = Inr obj')"
  "visit_to (optional_member n rd wr get' put' # ms) s = Inr obj \<Longrightarrow>
    (\<exists>v. (case get' s of None \<Rightarrow> Inr None | Some v \<Rightarrow> fc_map Some (wr v)) = Inr v) \<and> (\<exists>obj'. visit_to ms s = Inr obj')"
  by (auto simp: member_def optional_member_def and_then_Inr fc_map_Inr)

lemma map_of_sort_key: "distinct (map fst xs) \<Longrightarrow> map_of (sort_key fst xs) = map_of xs"
  by (rule map_of_inject_set[THEN iffD2]) (simp_all add: distinct_map)

lemma visit_to_distinct: "visit_to ms s = Inr obj \<Longrightarrow> distinct (map fst ms) \<Longrightarrow> distinct (map fst obj)"
proof (induction ms arbitrary: obj)
  case (Cons m ms)
  obtain n rd wr where m: "m = (n, rd, wr)" by (cases m)
  obtain v obj' where v: "visit_to ms s = Inr obj'" "obj = (case v of Some j \<Rightarrow> (n, j) # obj' | None \<Rightarrow> obj')"
    using Cons.prems(1) by (auto simp: m and_then_Inr fc_map_Inr)
  have "n \<notin> fst ` set obj'"
    using visit_to_new[OF v(1), of n] Cons.prems(2) unfolding m map_of_eq_None_iff by simp
  then show ?case using Cons.IH[OF v(1)] Cons.prems(2) v(2) by (auto simp: m split: option.splits)
qed simp

lemma object_conversion:
  assumes "distinct (map fst ms)" "\<And>s obj. ok s \<Longrightarrow> visit_to ms s = Inr obj \<Longrightarrow> copy_members ms s fresh = Inr s"
  shows "conversion ok (object_out ms) (object_in ms fresh)"
proof
  fix s j assume ok: "ok s" and "object_out ms s = Inr j"
  then obtain obj where obj: "visit_to ms s = Inr obj" "j = JObj (sort_key fst obj)"
    by (auto simp: object_out_def fc_map_Inr)
  have "map_of (sort_key fst obj) = map_of obj"
    by (rule map_of_sort_key) (rule visit_to_distinct[OF obj(1) assms(1)])
  then show "object_in ms fresh j = Inr s"
    using visit_round[OF assms(1) obj(1)] assms(2)[OF ok obj(1)] by (simp add: object_in_def obj(2))
qed (auto simp: object_out_def fc_map_Inr)

interpretation tags_value: conversion "\<lambda>_. True" tags_out tags_in
  unfolding tags_out_def tags_in_def
  by (rule conversion_weaken[OF array_conversion[OF text_value.conversion_axioms]]) (simp add: list_all_triv)

interpretation contestant_value: conversion "\<lambda>_. True" contestant_out contestant_in
  unfolding contestant_out_def contestant_in_def
proof (rule object_conversion)
  fix s obj assume w: "visit_to contestant_members s = Inr obj"
  show "copy_members contestant_members s new_contestant = Inr s"
    using w unfolding contestant_members_def
    by (auto dest!: visit_to_Cons simp: copy_member[OF text_value.conversion_axioms] copy_member[OF tags_value.conversion_axioms])
qed (simp add: contestant_members_def member_def)

interpretation contestants_value: conversion "\<lambda>_. True" contestants_out contestants_in
  unfolding contestants_out_def contestants_in_def
  by (rule conversion_weaken[OF array_conversion[OF contestant_value.conversion_axioms]]) (simp add: list_all_triv)

lemma ids_conversion: "digits_ok C \<Longrightarrow> conversion (\<lambda>_. True) ids_out (ids_in C)"
  unfolding ids_out_def ids_in_def
  by (rule conversion_weaken[OF array_conversion[OF u64_conversion]]) (simp_all add: list_all_triv)

lemma opinions_conversion:
  assumes "digits_ok C"
  shows "conversion opinions_ok (opinions_out C) (opinions_in C)"
  unfolding opinions_out_def opinions_in_def
proof (rule object_conversion)
  have c: "conversion (map_ok id) (map_out u64_out i32_out) (map_in id (u64_in C) 0 (i32_in C) 0)"
    by (rule conversion_weaken[OF map_conversion[OF u64_conversion[OF assms] i32_value.conversion_axioms]])
      (simp add: list_all_triv)
  have w: "conversion (map_ok contestant_key) (map_out contestant_out i32_out)
      (map_in contestant_key contestant_in new_contestant (i32_in C) 0)"
    by (rule conversion_weaken[OF map_conversion[OF contestant_value.conversion_axioms i32_value.conversion_axioms]])
      (simp add: list_all_triv)
  fix s obj assume "opinions_ok s" "visit_to (opinions_members C) s = Inr obj"
  then show "copy_members (opinions_members C) s new_opinions = Inr s"
    unfolding opinions_members_def opinions_ok_def
    by (auto dest!: visit_to_Cons simp: copy_member[OF c] copy_member[OF w])
qed (simp add: opinions_members_def member_def)

lemma opinions_in_ok: "opinions_in C j = Inr os \<Longrightarrow> opinions_ok os"
  by (auto simp: opinions_in_def object_in_def opinions_members_def member_def opinions_ok_def new_opinions_def
      and_then_Inr fc_map_Inr map_ok_def split: json.splits option.splits dest!: map_in_ok)

end
