(* ===== verification/ReflectedArgs.thy ===== *)
theory ReflectedArgs
  imports KeyProofs ActionProofs FcVariant
begin

text \<open>
  The arguments of an action between JSON and the contract's structs: \<open>FC_REFLECT\<close> in
  \<open>cpp/KeyManager.cpp\<close> gives each struct its list of members, read and written by the visitors and the
  conversions of \<open>FcVariant\<close>.  The theory compares the members with the argument names that
  \<open>cpp/Action.hpp\<close> checks, and shows what survives encoding and decoding an action.
\<close>

subsection \<open>The structs\<close>

definition voter_add_members :: "fc_values \<Rightarrow> voter_add member list" where
  "voter_add_members C =
     [member ''groupName'' text_in text_out vaGroupName (\<lambda>v. vaGroupName_update (\<lambda>_. v)),
      member ''voter'' name_in name_out vaVoter (\<lambda>v. vaVoter_update (\<lambda>_. v)),
      member ''weight'' (u32_in C) u32_out vaWeight (\<lambda>v. vaWeight_update (\<lambda>_. v)),
      member ''tags'' tags_in tags_out vaTags (\<lambda>v. vaTags_update (\<lambda>_. v))]"

definition voter_remove_members :: "voter_remove member list" where
  "voter_remove_members =
     [member ''groupName'' text_in text_out vrGroupName (\<lambda>v. vrGroupName_update (\<lambda>_. v)),
      member ''voter'' name_in name_out vrVoter (\<lambda>v. vrVoter_update (\<lambda>_. v))]"

text \<open>\<open>group_copy\<close> and \<open>group_rename\<close> have the same members, and so have \<open>cntst_tally\<close> and \<open>cntst_delete\<close>.\<close>

definition group_names_members :: "group_names member list" where
  "group_names_members =
     [member ''groupName'' text_in text_out gnGroupName (\<lambda>v. gnGroupName_update (\<lambda>_. v)),
      member ''newName'' text_in text_out gnNewName (\<lambda>v. gnNewName_update (\<lambda>_. v))]"

definition cntst_new_members :: "fc_values \<Rightarrow> cntst_new member list" where
  "cntst_new_members C =
     [member ''groupId'' (u64_in C) u64_out cnGroupId (\<lambda>v. cnGroupId_update (\<lambda>_. v)),
      member ''name'' text_in text_out cnName (\<lambda>v. cnName_update (\<lambda>_. v)),
      member ''description'' text_in text_out cnDescription (\<lambda>v. cnDescription_update (\<lambda>_. v)),
      member ''contestants'' contestants_in contestants_out cnContestants (\<lambda>v. cnContestants_update (\<lambda>_. v)),
      member ''begin'' (time_in C) (time_out C) cnBegin (\<lambda>v. cnBegin_update (\<lambda>_. v)),
      member ''end'' (time_in C) (time_out C) cnEnd (\<lambda>v. cnEnd_update (\<lambda>_. v)),
      member ''tags'' tags_in tags_out cnTags (\<lambda>v. cnTags_update (\<lambda>_. v))]"

definition cntst_modify_members :: "fc_values \<Rightarrow> cntst_modify member list" where
  "cntst_modify_members C =
     [member ''groupId'' (u64_in C) u64_out cmGroupId (\<lambda>v. cmGroupId_update (\<lambda>_. v)),
      member ''contestId'' (u64_in C) u64_out cmContestId (\<lambda>v. cmContestId_update (\<lambda>_. v)),
      optional_member ''newName'' text_in text_out cmNewName (\<lambda>v. cmNewName_update (\<lambda>_. v)),
      optional_member ''newDescription'' text_in text_out cmNewDescription (\<lambda>v. cmNewDescription_update (\<lambda>_. v)),
      optional_member ''newTags'' tags_in tags_out cmNewTags (\<lambda>v. cmNewTags_update (\<lambda>_. v)),
      member ''deleteContestants'' (ids_in C) ids_out cmDeleteContestants (\<lambda>v. cmDeleteContestants_update (\<lambda>_. v)),
      member ''addContestants'' contestants_in contestants_out cmAddContestants (\<lambda>v. cmAddContestants_update (\<lambda>_. v)),
      optional_member ''newBegin'' (time_in C) (time_out C) cmNewBegin (\<lambda>v. cmNewBegin_update (\<lambda>_. v)),
      optional_member ''newEnd'' (time_in C) (time_out C) cmNewEnd (\<lambda>v. cmNewEnd_update (\<lambda>_. v))]"

definition contest_ids_members :: "fc_values \<Rightarrow> contest_ids member list" where
  "contest_ids_members C =
     [member ''groupId'' (u64_in C) u64_out ciGroupId (\<lambda>v. ciGroupId_update (\<lambda>_. v)),
      member ''contestId'' (u64_in C) u64_out ciContestId (\<lambda>v. ciContestId_update (\<lambda>_. v))]"

definition dcsn_set_members :: "fc_values \<Rightarrow> dcsn_set member list" where
  "dcsn_set_members C =
     [member ''groupId'' (u64_in C) u64_out dsGroupId (\<lambda>v. dsGroupId_update (\<lambda>_. v)),
      member ''contestId'' (u64_in C) u64_out dsContestId (\<lambda>v. dsContestId_update (\<lambda>_. v)),
      member ''voterName'' name_in name_out dsVoterName (\<lambda>v. dsVoterName_update (\<lambda>_. v)),
      member ''opinions'' (opinions_in C) (opinions_out C) dsOpinions (\<lambda>v. dsOpinions_update (\<lambda>_. v)),
      member ''tags'' tags_in tags_out dsTags (\<lambda>v. dsTags_update (\<lambda>_. v))]"

text \<open>What the members of a fresh struct hold: the integers are not initialised.\<close>

record fresh_structs =
  freshVoterAdd :: voter_add
  freshVoterRemove :: voter_remove
  freshGroupNames :: group_names
  freshCntstNew :: cntst_new
  freshCntstModify :: cntst_modify
  freshContestIds :: contest_ids
  freshDcsnSet :: dcsn_set

definition read_struct :: "fc_values \<Rightarrow> 's member list \<Rightarrow> 's \<Rightarrow> json_object \<Rightarrow> fc_fault + 's" where
  "read_struct C ms fresh obj = and_then (parsed C obj) (\<lambda>o'. visit_from ms o' fresh)"

definition write_args :: "fc_values \<Rightarrow> action_args \<Rightarrow> fc_fault + json_object" where
  "write_args C args =
     (case args of
        ArgsVoterAdd r \<Rightarrow> visit_to (voter_add_members C) r
      | ArgsVoterRemove r \<Rightarrow> visit_to voter_remove_members r
      | ArgsGroupCopy r \<Rightarrow> visit_to group_names_members r
      | ArgsGroupRename r \<Rightarrow> visit_to group_names_members r
      | ArgsCntstNew r \<Rightarrow> visit_to (cntst_new_members C) r
      | ArgsCntstModify r \<Rightarrow> visit_to (cntst_modify_members C) r
      | ArgsCntstTally r \<Rightarrow> visit_to (contest_ids_members C) r
      | ArgsCntstDelete r \<Rightarrow> visit_to (contest_ids_members C) r
      | ArgsDcsnSet r \<Rightarrow> visit_to (dcsn_set_members C) r)"

definition reflected_args :: "fc_values \<Rightarrow> fresh_structs \<Rightarrow> args_json" where
  "reflected_args C g =
     \<lparr>fromVoterAdd = read_struct C (voter_add_members C) (freshVoterAdd g),
      fromVoterRemove = read_struct C voter_remove_members (freshVoterRemove g),
      fromGroupNames = read_struct C group_names_members (freshGroupNames g),
      fromCntstNew = read_struct C (cntst_new_members C) (freshCntstNew g),
      fromCntstModify = read_struct C (cntst_modify_members C) (freshCntstModify g),
      fromContestIds = read_struct C (contest_ids_members C) (freshContestIds g),
      fromDcsnSet = read_struct C (dcsn_set_members C) (freshDcsnSet g),
      toArgs = (\<lambda>args. and_then (write_args C args) (printed C))\<rparr>"

text \<open>What the code relies on: \<open>fc::json::from_string\<close> reads the members of the object it is given.\<close>

definition reads_back :: "fc_values \<Rightarrow> json_object \<Rightarrow> bool" where
  "reads_back C obj \<longleftrightarrow> (case parsed C obj of Inr o' \<Rightarrow> map_of o' = map_of obj | Inl _ \<Rightarrow> True)"

subsection \<open>Reading every member\<close>

named_theorems members \<open>the members of the structs\<close>

lemmas [members] = voter_add_members_def voter_remove_members_def group_names_members_def cntst_new_members_def
  cntst_modify_members_def contest_ids_members_def dcsn_set_members_def member_def optional_member_def

text \<open>When every member is in the object, what the struct held before does not matter.\<close>

definition overwrites :: "'s member list \<Rightarrow> bool" where
  "overwrites ms \<longleftrightarrow> (\<forall>obj s s'. fst ` set ms \<subseteq> dom (map_of obj) \<longrightarrow> visit_from ms obj s = visit_from ms obj s')"

lemma overwritesD: "overwrites ms \<Longrightarrow> fst ` set ms \<subseteq> dom (map_of obj) \<Longrightarrow> visit_from ms obj s = visit_from ms obj s'"
  unfolding overwrites_def by simp

lemma and_then_fc_map: "and_then (fc_map f m) g = and_then m (\<lambda>x. g (f x))"
  by (cases m) (simp_all add: fc_map_def)

lemma and_then_eqI: "(\<And>x. m = Inr x \<Longrightarrow> f x = g x) \<Longrightarrow> and_then m f = and_then m g"
  by (cases m) simp_all

lemma voter_add_overwrites: "overwrites (voter_add_members C)"
  by (auto simp: overwrites_def members and_then_fc_map intro!: and_then_eqI)

lemma voter_remove_overwrites: "overwrites voter_remove_members"
  by (auto simp: overwrites_def members and_then_fc_map intro!: and_then_eqI)

lemma group_names_overwrites: "overwrites group_names_members"
  by (auto simp: overwrites_def members and_then_fc_map intro!: and_then_eqI)

lemma contest_ids_overwrites: "overwrites (contest_ids_members C)"
  by (auto simp: overwrites_def members and_then_fc_map intro!: and_then_eqI)

lemma dcsn_set_overwrites: "overwrites (dcsn_set_members C)"
  by (auto simp: overwrites_def members and_then_fc_map intro!: and_then_eqI)

lemma cntst_new_overwrites: "overwrites (cntst_new_members C)"
  by (auto simp: overwrites_def members and_then_fc_map intro!: and_then_eqI)

lemma cntst_modify_overwrites: "overwrites (cntst_modify_members C)"
  by (auto simp: overwrites_def members and_then_fc_map intro!: and_then_eqI)

lemmas all_overwrite = voter_add_overwrites voter_remove_overwrites group_names_overwrites contest_ids_overwrites
  dcsn_set_overwrites cntst_new_overwrites cntst_modify_overwrites

lemma read_struct_overwrites:
  assumes "overwrites ms" "fst ` set ms \<subseteq> fst ` set obj" "reads_back C obj"
  shows "read_struct C ms f obj = read_struct C ms f' obj"
  unfolding read_struct_def
proof (rule and_then_eqI)
  fix o' assume "parsed C obj = Inr o'"
  then have "dom (map_of o') = fst ` set obj" using assms(3) by (simp add: reads_back_def dom_map_of_conv_image_fst)
  then have "fst ` set ms \<subseteq> dom (map_of o')" using assms(2) by simp
  then show "visit_from ms o' f = visit_from ms o' f'" by (rule overwritesD[OF assms(1)])
qed

lemma legal_arguments:
  "legalArguments VoterAdd = fst ` set (voter_add_members C)"
  "legalArguments VoterRemove = fst ` set voter_remove_members"
  "legalArguments GroupCopy = fst ` set group_names_members"
  "legalArguments GroupRename = fst ` set group_names_members"
  "legalArguments CntstNew = fst ` set (cntst_new_members C)"
  "legalArguments CntstModify = fst ` set (cntst_modify_members C)"
  "legalArguments CntstTally = fst ` set (contest_ids_members C)"
  "legalArguments CntstDelete = fst ` set (contest_ids_members C)"
  "legalArguments DcsnSet = fst ` set (dcsn_set_members C)"
  by (simp_all add: legalArguments_def LegalActionArguments_def strings_defs members)

lemma parse_legal:
  "parse_args J (make_name VoterAdd) obj = Some (fc_map ArgsVoterAdd (fromVoterAdd J obj))"
  "parse_args J (make_name VoterRemove) obj = Some (fc_map ArgsVoterRemove (fromVoterRemove J obj))"
  "parse_args J (make_name GroupCopy) obj = Some (fc_map ArgsGroupCopy (fromGroupNames J obj))"
  "parse_args J (make_name GroupRename) obj = Some (fc_map ArgsGroupRename (fromGroupNames J obj))"
  "parse_args J (make_name CntstNew) obj = Some (fc_map ArgsCntstNew (fromCntstNew J obj))"
  "parse_args J (make_name CntstModify) obj = Some (fc_map ArgsCntstModify (fromCntstModify J obj))"
  "parse_args J (make_name CntstTally) obj = Some (fc_map ArgsCntstTally (fromContestIds J obj))"
  "parse_args J (make_name CntstDelete) obj = Some (fc_map ArgsCntstDelete (fromContestIds J obj))"
  "parse_args J (make_name DcsnSet) obj = Some (fc_map ArgsDcsnSet (fromDcsnSet J obj))"
  by (simp_all add: strings_defs make_name_short parse_args_names)

lemma same_struct:
  assumes "validateArguments n args" "reads_back C args"
    and "overwrites ms" "legalArguments n = fst ` set ms"
  shows "read_struct C ms f args = read_struct C ms f' args"
  by (rule read_struct_overwrites[OF assms(3)]) (use assms(1,2,4) in \<open>simp_all add: validateArguments_def\<close>)

text \<open>
  C38. The arguments that pass \<open>Action::validateArguments\<close> fill every member of the struct that
  \<open>KeyManager\<close> packs: the action is one it knows, and neither the outcome nor a single field depends on
  what the new struct's memory held.  \<open>fc::json\<close> is taken to read back the members it was given.
\<close>

theorem checked_arguments_fill_struct:
  assumes "validateName n" "validateArguments n args"
    and "reads_back C args"
  shows "parse_args (reflected_args C g) (make_name n) args \<noteq> None \<and>
    parse_args (reflected_args C g) (make_name n) args = parse_args (reflected_args C h) (make_name n) args"
  using assms unfolding validateName_iff
  by (elim insertE emptyE; hypsubst)
    (simp_all add: parse_legal reflected_args_def, 
     (rule arg_cong[where f = "fc_map c" for c], erule (1) same_struct, rule all_overwrite, rule legal_arguments)+)

subsection \<open>Writing and reading back\<close>

definition prints_back :: "fc_values \<Rightarrow> json_object \<Rightarrow> bool" where
  "prints_back C obj \<longleftrightarrow> (case printed C obj of Inr o' \<Rightarrow> map_of o' = map_of obj | Inl _ \<Rightarrow> True)"

text \<open>The times of the arguments, and what their values need to be read back.\<close>

fun args_times :: "action_args \<Rightarrow> uint32 list" where
  "args_times (ArgsCntstNew r) = [cnBegin r, cnEnd r]"
| "args_times (ArgsCntstModify r) = (case cmNewBegin r of None \<Rightarrow> [] | Some t \<Rightarrow> [t]) @ (case cmNewEnd r of None \<Rightarrow> [] | Some t \<Rightarrow> [t])"
| "args_times _ = []"

definition values_ok :: "fc_values \<Rightarrow> action_args \<Rightarrow> bool" where
  "values_ok C args \<longleftrightarrow> digits_ok C \<and> (\<forall>t \<in> set (args_times args). date_ok C t)"

lemmas copying = copy_member[OF text_value.conversion_axioms] copy_member[OF name_value.conversion_axioms]
  copy_member[OF u32_value.conversion_axioms] copy_member[OF u64_conversion] copy_member[OF tags_value.conversion_axioms]
  copy_member[OF time_value.conversion_axioms] copy_member[OF ids_conversion] copy_member[OF contestants_value.conversion_axioms]
  copy_member[OF opinions_conversion] copy_optional_member[OF text_value.conversion_axioms]
  copy_optional_member[OF tags_value.conversion_axioms] copy_optional_member[OF time_value.conversion_axioms]

lemma copy_voter_add: "visit_to (voter_add_members C) s = Inr obj \<Longrightarrow> copy_members (voter_add_members C) s f = Inr s"
  unfolding voter_add_members_def by (auto dest!: visit_to_Cons simp: copying)

lemma copy_voter_remove: "visit_to voter_remove_members s = Inr obj \<Longrightarrow> copy_members voter_remove_members s f = Inr s"
  unfolding voter_remove_members_def by (auto dest!: visit_to_Cons simp: copying)

lemma copy_group_names: "visit_to group_names_members s = Inr obj \<Longrightarrow> copy_members group_names_members s f = Inr s"
  unfolding group_names_members_def by (auto dest!: visit_to_Cons simp: copying)

lemma copy_cntst_new: "values_ok C (ArgsCntstNew s) \<Longrightarrow> visit_to (cntst_new_members C) s = Inr obj \<Longrightarrow>
    copy_members (cntst_new_members C) s f = Inr s"
  unfolding cntst_new_members_def values_ok_def by (auto dest!: visit_to_Cons simp: copying)

lemma copy_contest_ids: "digits_ok C \<Longrightarrow> visit_to (contest_ids_members C) s = Inr obj \<Longrightarrow>
    copy_members (contest_ids_members C) s f = Inr s"
  unfolding contest_ids_members_def by (auto dest!: visit_to_Cons simp: copying)

lemma copy_dcsn_set: "digits_ok C \<Longrightarrow> opinions_ok (dsOpinions s) \<Longrightarrow> visit_to (dcsn_set_members C) s = Inr obj \<Longrightarrow>
    copy_members (dcsn_set_members C) s f = Inr s"
  unfolding dcsn_set_members_def by (auto dest!: visit_to_Cons simp: copying)

text \<open>An optional that was left out keeps what the fresh struct holds: nothing.\<close>

definition empty_options :: "cntst_modify \<Rightarrow> bool" where
  "empty_options r \<longleftrightarrow> cmNewName r = None \<and> cmNewDescription r = None \<and> cmNewTags r = None \<and>
     cmNewBegin r = None \<and> cmNewEnd r = None"

lemma copy_cntst_modify:
  assumes "values_ok C (ArgsCntstModify s)" "empty_options f" "visit_to (cntst_modify_members C) s = Inr obj"
  shows "copy_members (cntst_modify_members C) s f = Inr s"
proof -
  have times: "pred_option (date_ok C) (cmNewBegin s)" "pred_option (date_ok C) (cmNewEnd s)" "digits_ok C"
    using assms(1) by (cases "cmNewBegin s"; cases "cmNewEnd s"; simp add: values_ok_def)+
  show ?thesis
    using assms(2,3) times unfolding cntst_modify_members_def empty_options_def
    by (cases f) (auto dest!: visit_to_Cons simp: copying pred_option_triv)
qed

lemma distinct_members:
  "distinct (map fst (voter_add_members C))" "distinct (map fst voter_remove_members)"
  "distinct (map fst group_names_members)" "distinct (map fst (cntst_new_members C))"
  "distinct (map fst (cntst_modify_members C))" "distinct (map fst (contest_ids_members C))"
  "distinct (map fst (dcsn_set_members C))"
  by (simp_all add: members)

definition args_action :: "action_args \<Rightarrow> string" where
  "args_action args =
     (case args of
        ArgsVoterAdd _ \<Rightarrow> VoterAdd | ArgsVoterRemove _ \<Rightarrow> VoterRemove | ArgsGroupCopy _ \<Rightarrow> GroupCopy
      | ArgsGroupRename _ \<Rightarrow> GroupRename | ArgsCntstNew _ \<Rightarrow> CntstNew | ArgsCntstModify _ \<Rightarrow> CntstModify
      | ArgsCntstTally _ \<Rightarrow> CntstTally | ArgsCntstDelete _ \<Rightarrow> CntstDelete | ArgsDcsnSet _ \<Rightarrow> DcsnSet)"

lemma read_written:
  assumes "visit_to ms s = Inr obj" "map_of js = map_of obj" "distinct (map fst ms)" "copy_members ms s f = Inr s"
    and "reads_back C js" "parsed C js = Inr o'"
  shows "read_struct C ms f js = Inr s"
proof -
  have "map_of o' = map_of obj" using assms(2,5,6) by (simp add: reads_back_def)
  then show ?thesis using visit_round[OF assms(3,1)] assms(4,6) by (simp add: read_struct_def)
qed

lemma unpack_via_tag: "unpack_via F un d = Inr (args, rest) \<Longrightarrow> \<exists>x. args = F x"
  by (auto simp: unpack_via_def and_then_Inr)

lemma unpacked_action:
  assumes "unpack_args n d = Some (Inr (args, rest))"
  shows "n = make_name (args_action args)"
  using assms unfolding unpack_args_def
  by (auto simp: args_action_def strings_defs make_name_short dest!: unpack_via_tag split: if_splits)

lemma unpacked_args_ok:
  assumes "unpack_args n d = Some (Inr (args, rest))"
  shows "args_ok args"
proof (cases args)
  case (ArgsDcsnSet r)
  then have "unpack_via ArgsDcsnSet unpack_dcsn_set d = Inr (ArgsDcsnSet r, rest)"
    using assms unfolding unpack_args_def by (auto simp: dest!: unpack_via_tag split: if_splits)
  then show ?thesis using ArgsDcsnSet
    by (auto simp: unpack_via_def unpack_dcsn_set_def unpack_pair_def and_then_Inr dest: unpack_opinions_ok)
qed simp_all

lemma read_written_args:
  assumes "values_ok C args" "empty_options (freshCntstModify g)" "write_args C args = Inr obj" "args_ok args"
    and "map_of js = map_of obj" "reads_back C js" "parsed C js = Inr o'"
  shows "parse_args (reflected_args C g) (make_name (args_action args)) js = Some (Inr args)"
proof -
  have "digits_ok C" using assms(1) by (simp add: values_ok_def)
  have digits: "digits_ok C" using assms(1) by (simp add: values_ok_def)
  note read = read_written[OF _ assms(5) _ _ assms(6,7)]
  note unfold = args_action_def write_args_def parse_legal reflected_args_def
  show ?thesis
  proof (cases args)
    case (ArgsVoterAdd r)
    have w: "visit_to (voter_add_members C) r = Inr obj" using assms(3) by (simp add: ArgsVoterAdd write_args_def)
    show ?thesis using read[OF w distinct_members(1) copy_voter_add[OF w]] by (simp add: ArgsVoterAdd unfold)
  next
    case (ArgsVoterRemove r)
    have w: "visit_to voter_remove_members r = Inr obj" using assms(3) by (simp add: ArgsVoterRemove write_args_def)
    show ?thesis using read[OF w distinct_members(2) copy_voter_remove[OF w]] by (simp add: ArgsVoterRemove unfold)
  next
    case (ArgsGroupCopy r)
    have w: "visit_to group_names_members r = Inr obj" using assms(3) by (simp add: ArgsGroupCopy write_args_def)
    show ?thesis using read[OF w distinct_members(3) copy_group_names[OF w]] by (simp add: ArgsGroupCopy unfold)
  next
    case (ArgsGroupRename r)
    have w: "visit_to group_names_members r = Inr obj" using assms(3) by (simp add: ArgsGroupRename write_args_def)
    show ?thesis using read[OF w distinct_members(3) copy_group_names[OF w]] by (simp add: ArgsGroupRename unfold)
  next
    case (ArgsCntstNew r)
    have w: "visit_to (cntst_new_members C) r = Inr obj" using assms(3) by (simp add: ArgsCntstNew write_args_def)
    show ?thesis using read[OF w distinct_members(4) copy_cntst_new[OF assms(1)[unfolded ArgsCntstNew] w]] by (simp add: ArgsCntstNew unfold)
  next
    case (ArgsCntstModify r)
    have w: "visit_to (cntst_modify_members C) r = Inr obj" using assms(3) by (simp add: ArgsCntstModify write_args_def)
    show ?thesis using read[OF w distinct_members(5) copy_cntst_modify[OF assms(1)[unfolded ArgsCntstModify] assms(2) w]] by (simp add: ArgsCntstModify unfold)
  next
    case (ArgsCntstTally r)
    have w: "visit_to (contest_ids_members C) r = Inr obj" using assms(3) by (simp add: ArgsCntstTally write_args_def)
    show ?thesis using read[OF w distinct_members(6) copy_contest_ids[OF digits w]] by (simp add: ArgsCntstTally unfold)
  next
    case (ArgsCntstDelete r)
    have w: "visit_to (contest_ids_members C) r = Inr obj" using assms(3) by (simp add: ArgsCntstDelete write_args_def)
    show ?thesis using read[OF w distinct_members(6) copy_contest_ids[OF digits w]] by (simp add: ArgsCntstDelete unfold)
  next
    case (ArgsDcsnSet r)
    have w: "visit_to (dcsn_set_members C) r = Inr obj" using assms(3) by (simp add: ArgsDcsnSet write_args_def)
    have ok: "opinions_ok (dsOpinions r)" using assms(4) by (simp add: ArgsDcsnSet)
    show ?thesis using read[OF w distinct_members(7) copy_dcsn_set[OF digits ok w]] by (simp add: ArgsDcsnSet unfold)
  qed
qed

lemma decoded_members:
  assumes "unpack_args n d = Some (Inr (args, rest))" "decode_args (reflected_args C g) n d = Inr js"
    and "\<forall>obj. write_args C args = Inr obj \<longrightarrow> prints_back C obj"
  obtains obj where "write_args C args = Inr obj" "map_of js = map_of obj"
  using assms by (auto simp: decode_args_def reflected_args_def and_then_Inr prints_back_def)

text \<open>
  C39. The arguments \<open>decodeAction\<close> shows as JSON are read back by the encoder as the struct that was in
  the binary action, unset options included, whatever the uninitialised fields held: provided that the text
  of the one object that is shown comes back from printing and from parsing (\<open>prints_back\<close>, \<open>reads_back\<close>;
  fc's parser does not undo the escapes of control characters, so texts with these are excluded), that
  parsing succeeds, that a new \<open>fc::optional\<close> is empty, and that boost reads its own digits and these
  dates.
\<close>

theorem shown_arguments_encode_again:
  assumes "unpack_args n d = Some (Inr (args, rest))" "decode_args (reflected_args C g) n d = Inr js"
    and "\<forall>obj. write_args C args = Inr obj \<longrightarrow> prints_back C obj"
    and "reads_back C js" "parsed C js = Inr o'"
    and "values_ok C args" "empty_options (freshCntstModify g)"
  shows "parse_args (reflected_args C g) n js = Some (Inr args)"
  using decoded_members[OF assms(1-3)] read_written_args[OF assms(6,7) _ unpacked_args_ok[OF assms(1)] _ assms(4,5)]
  unfolding unpacked_action[OF assms(1)] by metis

subsection \<open>Encoding and decoding an action\<close>

text \<open>A new \<open>fc::optional\<close> and a new \<open>std::map\<close> are empty.\<close>

definition fresh_ok :: "fresh_structs \<Rightarrow> bool" where
  "fresh_ok g \<longleftrightarrow> empty_options (freshCntstModify g) \<and> dsOpinions (freshDcsnSet g) = new_opinions"

lemma new_opinions_ok: "opinions_ok new_opinions"
  by (simp add: opinions_ok_def new_opinions_def map_ok_def)

lemma visit_from_invariant:
  "\<forall>m \<in> set ms. \<forall>j s s'. fst (snd m) j s = Inr s' \<longrightarrow> P s \<longrightarrow> P s' \<Longrightarrow> visit_from ms obj s = Inr r \<Longrightarrow> P s \<Longrightarrow> P r"
proof (induction ms arbitrary: s)
  case (Cons m ms)
  obtain n rd wr where m: "m = (n, rd, wr)" by (cases m)
  obtain s1 where s1: "(case map_of obj n of Some v \<Rightarrow> rd v s | None \<Rightarrow> Inr s) = Inr s1" "visit_from ms obj s1 = Inr r"
    using Cons.prems(2) by (auto simp: m and_then_Inr)
  have "P s1" using s1(1) Cons.prems(1,3) by (auto simp: m split: option.splits)
  then show ?case using Cons.IH[OF _ s1(2)] Cons.prems(1) by simp
qed simp

lemma parsed_args_ok:
  assumes "parse_args (reflected_args C g) n obj = Some (Inr x)" "fresh_ok g"
  shows "args_ok x"
proof (cases x)
  case (ArgsDcsnSet r)
  then have "read_struct C (dcsn_set_members C) (freshDcsnSet g) obj = Inr r"
    using assms(1) unfolding parse_args_def reflected_args_def by (auto simp: fc_map_Inr split: if_splits)
  then obtain o' where o': "visit_from (dcsn_set_members C) o' (freshDcsnSet g) = Inr r"
    by (auto simp: read_struct_def and_then_Inr)
  have "opinions_ok (dsOpinions r)"
  proof (rule visit_from_invariant[OF _ o'])
    show "opinions_ok (dsOpinions (freshDcsnSet g))" using assms(2) new_opinions_ok by (simp add: fresh_ok_def)
    show "\<forall>m \<in> set (dcsn_set_members C). \<forall>j s s'. fst (snd m) j s = Inr s' \<longrightarrow>
        opinions_ok (dsOpinions s) \<longrightarrow> opinions_ok (dsOpinions s')"
      by (auto simp: dcsn_set_members_def member_def fc_map_Inr dest: opinions_in_ok)
  qed
  then show ?thesis using ArgsDcsnSet by simp
qed simp_all

lemma parsed_succeeds: "parse_args (reflected_args C g) n obj = Some (Inr x) \<Longrightarrow> \<exists>o'. parsed C obj = Inr o'"
  unfolding parse_args_def reflected_args_def by (auto simp: fc_map_Inr read_struct_def and_then_Inr split: if_splits)

lemma contract_name_valid: "validateName n \<Longrightarrow> valid_name n"
  unfolding validateName_iff by (auto simp: strings_defs)

lemma contract_name_parsed: "validateName n \<Longrightarrow> parse_args J (make_name n) obj \<noteq> None"
  unfolding validateName_iff by (auto simp: parse_legal)

text \<open>
  C5. An action turned into its binary form and decoded again, whatever object it is decoded into: same
  account, name and authorizations, and as arguments exactly the written form of the struct that was packed.
  In particular the arguments come back as they were, member by member, when they were given in the form
  the program itself writes - numbers above 0xffffffff as texts, an option that is to stay left out -; other
  forms are normalised, and an option given as null is dropped (\<open>null_option_shown_invalid\<close>).  The action is
  one of the contract's, its names are valid EOSIO names, decoding its data meets the deadline, and the text
  of the one object that is written comes back with the same members (\<open>prints_back\<close>; for the last part also
  that of the arguments, \<open>reads_back\<close>, and of their digits and dates, \<open>values_ok\<close>).
\<close>

theorem action_encoding_roundtrip:
  assumes "make_action (reflected_args C g) (Some a) = Inr act" "fresh_ok g"
    and "valid_name (Action.account a)" "validateName (actionName a)" "list_all authorization_ok (authorizations a)"
    and "actionFromJson E js = Inr act"
    and "decode_args (reflected_args C g) (acName act) (acData act) = Inr shown"
    and "\<forall>x obj. parse_args (reflected_args C g) (make_name (actionName a)) (arguments a) = Some (Inr x) \<longrightarrow>
      write_args C x = Inr obj \<longrightarrow> prints_back C obj"
  shows "\<exists>x obj a'. parse_args (reflected_args C g) (make_name (actionName a)) (arguments a) = Some (Inr x) \<and>
    write_args C x = Inr obj \<and> fst (decodeAction (reflected_args C g) E js (Some b)) = Inr () \<and>
    map_option fst (snd (decodeAction (reflected_args C g) E js (Some b))) = Some a' \<and>
    Action.account a' = Action.account a \<and> actionName a' = actionName a \<and> authorizations a' = authorizations a \<and>
    map_of (arguments a') = map_of obj \<and>
    (\<forall>y obj'. args_action y = actionName a \<and> args_ok y \<and> write_args C y = Inr obj' \<and> map_of (arguments a) = map_of obj' \<and>
       reads_back C (arguments a) \<and> values_ok C y \<longrightarrow> map_of (arguments a') = map_of (arguments a))"
proof -
  let ?J = "reflected_args C g"
  obtain m where m: "parse_args ?J (make_name (actionName a)) (arguments a) = Some m"
    using contract_name_parsed[OF assms(4)] by fast
  obtain x where x: "m = Inr x" "pack_args x = Inr (acData act)" by (rule make_action_data[OF assms(1) m])
  note parsed_x = m[unfolded x(1)]
  have n: "acName act = make_name (actionName a)" by (rule make_action_fields(2)[OF assms(1)])
  have unpacked: "unpack_args (acName act) (acData act) = Some (Inr (x, []))"
    unfolding n by (rule unpack_pack_args[OF parsed_x parsed_args_ok[OF parsed_x assms(2)] x(2)])
  obtain obj where obj: "write_args C x = Inr obj" "map_of shown = map_of obj"
    using decoded_members[OF unpacked assms(7)] assms(8) parsed_x by blast
  have auths: "map (\<lambda>p. authorization (name_text (plActor p)) (name_text (plPermission p))) (acAuthorization act)
      = authorizations a"
    using assms(5) unfolding make_action_fields(3)[OF assms(1)] map_map
    by (intro map_idI) (simp only: list_all_iff comp_apply permission_level_text)
  have names: "name_text (acAccount act) = Action.account a" "name_text (acName act) = actionName a"
    using assms(3) contract_name_valid[OF assms(4)] by (simp_all only: make_action_fields[OF assms(1)] name_text_make)
  have same: "map_of shown = map_of (arguments a)"
    if "args_action y = actionName a" "args_ok y" "write_args C y = Inr obj'" "map_of (arguments a) = map_of obj'"
      "reads_back C (arguments a)" "values_ok C y" for y obj'
  proof -
    obtain o' where "parsed C (arguments a) = Inr o'"
      using parsed_x by (auto dest!: parsed_succeeds)
    then have "x = y"
      using read_written_args[OF that(6) _ that(3,2,4,5), of g o'] assms(2) parsed_x that(1) by (simp add: fresh_ok_def)
    then show ?thesis using obj that(3,4) by simp
  qed
  show ?thesis
    unfolding decodeAction_def Let_def option.case assms(6) sum.case assms(7) auths names
    using parsed_x obj same by (intro exI[of _ x] exI[of _ obj]) auto
qed

subsection \<open>Unset options\<close>

definition unset_option :: "action_args \<Rightarrow> bool" where
  "unset_option args =
     (case args of
        ArgsCntstModify r \<Rightarrow> cmNewName r = None \<or> cmNewDescription r = None \<or> cmNewTags r = None \<or>
          cmNewBegin r = None \<or> cmNewEnd r = None
      | _ \<Rightarrow> False)"

lemma all_written:
  assumes "visit_to ms s = Inr obj" "distinct (map fst ms)"
  shows "fst ` set ms = fst ` set obj \<longleftrightarrow> (\<forall>m\<in>set ms. snd (snd m) s \<noteq> Inr None)"
proof -
  have at: "snd (snd m) s = Inr (map_of obj (fst m))" if "m \<in> set ms" for m
    using visit_to_member[OF assms, of "fst m" "fst (snd m)" "snd (snd m)"] that by simp
  have "fst ` set obj \<subseteq> fst ` set ms"
    using visit_to_new[OF assms(1)] unfolding map_of_eq_None_iff by blast
  then have "fst ` set ms = fst ` set obj \<longleftrightarrow> (\<forall>m\<in>set ms. map_of obj (fst m) \<noteq> None)"
    unfolding map_of_eq_None_iff by blast
  then show ?thesis using at by auto
qed

lemma checked_iff_set:
  assumes "write_args C args = Inr obj" "map_of js = map_of obj"
  shows "validateArguments (args_action args) js \<longleftrightarrow> \<not> unset_option args"
proof -
  have "fst ` set js = fst ` set obj" using assms(2) by (metis dom_map_of_conv_image_fst)
  then have "validateArguments (args_action args) js \<longleftrightarrow> legalArguments (args_action args) = fst ` set obj"
    by (simp add: validateArguments_def)
  also have "\<dots> \<longleftrightarrow> \<not> unset_option args"
    using assms(1)
    by (cases args) (simp_all add: args_action_def write_args_def legal_arguments(1,5-9)[of C] legal_arguments(2-4) all_written distinct_members
      unset_option_def, simp_all add: members split: option.splits)
  finally show ?thesis .
qed

lemma describe_invalid: "\<not> validateArguments n js \<Longrightarrow>
    describe k \<lparr>Action.account = acc, actionName = n, authorizations = auths, arguments = js\<rparr> = ''Invalid action''"
  by (simp add: describe_def)

text \<open>
  C40. What \<open>decodeAction\<close> shows passes the check of \<open>cpp/Action.hpp\<close> exactly when no option is unset: an
  unset option is left out of the JSON, the argument names no longer match, and a valid
  \<open>cntst.modify\<close> that changes only some of a contest is described as an invalid action.  Of fc and Qt only
  this is asked, that the one object written comes back from its text with the same members.
\<close>

theorem unset_options_fail_the_check:
  assumes "unpack_args n d = Some (Inr (args, rest))" "decode_args (reflected_args C g) n d = Inr js"
    and "\<forall>obj. write_args C args = Inr obj \<longrightarrow> prints_back C obj"
  shows "(validateArguments (args_action args) js \<longleftrightarrow> \<not> unset_option args) \<and>
    (unset_option args \<longrightarrow>
       describe k \<lparr>Action.account = acc, actionName = args_action args, authorizations = auths, arguments = js\<rparr> = ''Invalid action'')"
  using decoded_members[OF assms] checked_iff_set[of C args] describe_invalid by metis

subsection \<open>Options given as null\<close>

text \<open>
  The check asks for every option of \<open>cntst.modify\<close>, so one that is to stay as it is has to be given as
  null: such an action passes the check, is encoded, and is shown as invalid when it is decoded.
\<close>

definition option_names :: "string set" where
  "option_names = {NewName, NewDescription, NewTags, NewBegin, NewEnd}"

text \<open>Reading the members \<open>ms\<close> does not touch \<open>get\<close>.\<close>

definition keeps :: "('s \<Rightarrow> 'v) \<Rightarrow> 's member list \<Rightarrow> bool" where
  "keeps get ms \<longleftrightarrow> (\<forall>m \<in> set ms. \<forall>j s s'. fst (snd m) j s = Inr s' \<longrightarrow> get s' = get s)"

lemma visit_from_keeps: "keeps get ms \<Longrightarrow> visit_from ms obj s = Inr r \<Longrightarrow> get r = get s"
proof (induction ms obj s rule: visit_from.induct)
  case (2 n rd wr ms obj s)
  then obtain s1 where s1: "(case map_of obj n of Some v \<Rightarrow> rd v s | None \<Rightarrow> Inr s) = Inr s1" "visit_from ms obj s1 = Inr r"
    by (auto simp: and_then_Inr)
  have "get s1 = get s" using 2(2) s1(1) by (auto simp: keeps_def split: option.splits)
  moreover have "get r = get s1"
    using 2 s1 by (auto simp: keeps_def)
  ultimately show ?case by simp
qed simp

lemma visit_from_drop: "visit_from ms obj s = Inr r \<Longrightarrow> \<exists>s'. visit_from (drop n ms) obj s' = Inr r"
proof (induction n arbitrary: ms s)
  case (Suc n)
  then show ?case by (cases ms) (auto simp: and_then_Inr split: prod.splits)
qed auto

lemma null_option:
  assumes "visit_from ms obj f = Inr r" "map_of obj n = Some JNull" "drop k ms = optional_member n rd wr get put # post"
    and "\<And>s. get (put None s) = None" "keeps get post"
  shows "get r = None"
proof -
  obtain s where "visit_from (optional_member n rd wr get put # post) obj s = Inr r"
    using visit_from_drop[OF assms(1), of k] assms(3) by auto
  then have "visit_from post obj (put None s) = Inr r"
    using assms(2) by (simp add: optional_member_def optional_in_def fc_map_def)
  then show ?thesis using visit_from_keeps[OF assms(5)] assms(4) by simp
qed

lemma keeps_members:
  "keeps get []"
  "keeps get (member n rd wr g p # ms) \<longleftrightarrow> (\<forall>j s v. rd j = Inr v \<longrightarrow> get (p v s) = get s) \<and> keeps get ms"
  "keeps get (optional_member n rd wr g' p' # ms) \<longleftrightarrow> (\<forall>j s v. optional_in rd j = Inr v \<longrightarrow> get (p' v s) = get s) \<and> keeps get ms"
  by (auto simp: keeps_def member_def optional_member_def fc_map_Inr)

lemma null_is_unset:
  assumes read: "visit_from (cntst_modify_members C) obj f = Inr r" and null: "map_of obj k = Some JNull" "k \<in> option_names"
  shows "unset_option (ArgsCntstModify r)"
proof -
  note at = null_option[OF read]
  consider "k = ''newName''" | "k = ''newDescription''" | "k = ''newTags''" | "k = ''newBegin''" | "k = ''newEnd''"
    using null(2) by (auto simp: option_names_def strings_defs)
  then show ?thesis
  proof cases
    case 1
    have "cmNewName r = None"
      by (rule at[OF null(1), of 2], simp add: cntst_modify_members_def 1, simp_all add: keeps_members)
    then show ?thesis by (simp add: unset_option_def)
  next
    case 2
    have "cmNewDescription r = None"
      by (rule at[OF null(1), of 3], simp add: cntst_modify_members_def 2, simp_all add: keeps_members)
    then show ?thesis by (simp add: unset_option_def)
  next
    case 3
    have "cmNewTags r = None"
      by (rule at[OF null(1), of 4], simp add: cntst_modify_members_def 3, simp_all add: keeps_members)
    then show ?thesis by (simp add: unset_option_def)
  next
    case 4
    have "cmNewBegin r = None"
      by (rule at[OF null(1), of 7], simp add: cntst_modify_members_def 4, simp_all add: keeps_members)
    then show ?thesis by (simp add: unset_option_def)
  next
    case 5
    have "cmNewEnd r = None"
      by (rule at[OF null(1), of 8], simp add: cntst_modify_members_def 5, simp_all add: keeps_members)
    then show ?thesis by (simp add: unset_option_def)
  qed
qed

text \<open>
  An action that passes the check with a null option no longer passes it once it was encoded and decoded.
\<close>

lemma null_option_shown_invalid:
  assumes "reads_back C args" "map_of args k = Some JNull" "k \<in> option_names"
    and parse: "parse_args (reflected_args C g) (make_name CntstModify) args = Some (Inr a)"
    and pack: "pack_args a = Inr d" and decode: "decode_args (reflected_args C g) (make_name CntstModify) d = Inr js"
    and "\<forall>obj. write_args C a = Inr obj \<longrightarrow> prints_back C obj"
  shows "\<not> validateArguments CntstModify js"
proof -
  obtain o' r where r: "a = ArgsCntstModify r" "parsed C args = Inr o'"
    "visit_from (cntst_modify_members C) o' (freshCntstModify g) = Inr r"
    using parse by (auto simp: parse_legal reflected_args_def read_struct_def fc_map_Inr and_then_Inr)
  have "map_of o' k = Some JNull" using assms(1,2) r(2) by (simp add: reads_back_def)
  then have unset: "unset_option a" unfolding r(1) using assms(3) by (rule null_is_unset[OF r(3)])
  have "unpack_args (make_name CntstModify) d = Some (Inr (a, []))"
    using unpack_pack_args[OF parse _ pack] by (simp add: r(1))
  then obtain obj where "write_args C a = Inr obj" "map_of js = map_of obj"
    using decode assms(7) by (rule decoded_members)
  from checked_iff_set[OF this] unset show ?thesis by (simp add: r(1) args_action_def)
qed

subsection \<open>An example of the conversions\<close>

text \<open>Decimal digits, and dates written as the number of their seconds.\<close>

definition digits_value :: "string \<Rightarrow> nat" where
  "digits_value s = foldl (\<lambda>n c. 10 * n + (of_char c - 48)) 0 s"

lemma digits_back: "digits_value (number n) = n"
proof (induction n rule: number.induct)
  case (1 n)
  show ?case
  proof (cases "n < 10")
    case True
    then show ?thesis by (simp add: number_small digits_value_def)
  next
    case False
    then have "10 \<le> n" by simp
    from number_rec[OF this] 1[OF False] show ?thesis
      by (simp add: digits_value_def)
  qed
qed

definition plain_values :: fc_values where
  "plain_values =
     \<lparr>parsed = Inr, printed = Inr, digitsIn = (\<lambda>s. Inr (of_nat (digits_value s))),
      signedDigitsIn = (\<lambda>s. Inr (of_nat (digits_value s))),
      dateIn = (\<lambda>s. Inr (of_nat (digits_value s))), dateOut = (\<lambda>t. number (unat t))\<rparr>"

lemma plain_back: "reads_back plain_values obj" "prints_back plain_values obj" "values_ok plain_values args"
  by (simp_all add: reads_back_def prints_back_def values_ok_def digits_ok_def date_ok_def plain_values_def digits_back)

text \<open>New structs whose integers hold \<open>w\<close>.\<close>

definition new_structs :: "nat \<Rightarrow> fresh_structs" where
  "new_structs w =
     \<lparr>freshVoterAdd = \<lparr>vaGroupName = [], vaVoter = 0, vaWeight = of_nat w, vaTags = []\<rparr>,
      freshVoterRemove = \<lparr>vrGroupName = [], vrVoter = 0\<rparr>,
      freshGroupNames = \<lparr>gnGroupName = [], gnNewName = []\<rparr>,
      freshCntstNew = \<lparr>cnGroupId = of_nat w, cnName = [], cnDescription = [], cnContestants = [], cnBegin = 0, cnEnd = 0, cnTags = []\<rparr>,
      freshCntstModify = \<lparr>cmGroupId = of_nat w, cmContestId = of_nat w, cmNewName = None, cmNewDescription = None,
        cmNewTags = None, cmDeleteContestants = [], cmAddContestants = [], cmNewBegin = None, cmNewEnd = None\<rparr>,
      freshContestIds = \<lparr>ciGroupId = of_nat w, ciContestId = of_nat w\<rparr>,
      freshDcsnSet = \<lparr>dsGroupId = of_nat w, dsContestId = of_nat w, dsVoterName = 0,
        dsOpinions = \<lparr>contestantOpinions = [], writeInOpinions = []\<rparr>, dsTags = []\<rparr>\<rparr>"

definition add_bob :: json_object where
  "add_bob = [(GroupName, JStr ''board''), (Voter, JStr ''bob''), (Weight, JNum 3), (Tags, JArr [])]"

theorem checked_arguments_fill_struct_witness:
  "parse_args (reflected_args plain_values (new_structs 0)) (make_name VoterAdd) add_bob \<noteq> None \<and>
   parse_args (reflected_args plain_values (new_structs 0)) (make_name VoterAdd) add_bob =
     parse_args (reflected_args plain_values (new_structs 9)) (make_name VoterAdd) add_bob"
proof (rule checked_arguments_fill_struct)
  show "validateName VoterAdd" by (simp add: validateName_iff)
  show "validateArguments VoterAdd add_bob"
    by (simp add: validateArguments_def legalArguments_def LegalActionArguments_def VoterAddArgs_def add_bob_def)
  show "reads_back plain_values add_bob" by (rule plain_back)
qed

text \<open>
  Arguments that were not checked: without \<open>weight\<close>, the transaction carries what the memory held; a voter
  name of more than thirteen characters becomes the empty name.
\<close>

lemma missing_weight:
  "parse_args (reflected_args plain_values (new_structs w)) (make_name VoterAdd)
     [(GroupName, JStr ''board''), (Voter, JStr ''bob''), (Tags, JArr [])] =
   Some (Inr (ArgsVoterAdd \<lparr>vaGroupName = ''board'', vaVoter = make_name ''bob'', vaWeight = of_nat w, vaTags = []\<rparr>))"
  unfolding parse_legal
  by (simp add: reflected_args_def read_struct_def voter_add_members_def member_def plain_values_def new_structs_def
    strings_defs name_in_def get_string_def text_in_def as_string_def tags_in_def array_in_def get_array_def make_name_def)

lemma long_voter_name:
  assumes "13 < length voter"
  shows "name_in (JStr voter) = Inr 0"
  using assms by (simp add: name_in_def get_string_def name_set_def)

lemma new_structs_ok: "fresh_ok (new_structs w)"
  by (simp add: fresh_ok_def empty_options_def new_structs_def new_opinions_def)

definition remove_bob :: action_args where
  "remove_bob = ArgsVoterRemove \<lparr>vrGroupName = ''board'', vrVoter = make_name ''bob''\<rparr>"

lemma sample_parsed: "parse_args (reflected_args plain_values (new_structs w)) (make_name (actionName sample_action))
    (arguments sample_action) = Some (Inr remove_bob)"
proof -
  have n: "actionName sample_action = VoterRemove" by (simp add: strings_defs)
  show ?thesis
    unfolding n parse_legal unfolding remove_bob_def make_name_def
    by (simp add: reflected_args_def read_struct_def voter_remove_members_def member_def
      plain_values_def new_structs_def name_in_def get_string_def text_in_def as_string_def)
qed

lemma sample_written: "write_args C remove_bob = Inr (arguments sample_action)"
  by (simp add: write_args_def remove_bob_def voter_remove_members_def member_def text_out_def name_out_def
      name_text_make bob)

lemma sample_packs: "\<exists>d. pack_args remove_bob = Inr d"
  by (simp add: remove_bob_def pack_voter_remove_def pack_via_def pack_pair_def pack_seq_def pack_string_def pack_bytes_def
      pack_varint_def pack_u64_def pack_word_def MAX_SIZE_OF_BYTE_ARRAYS_def)

theorem action_encoding_roundtrip_witness:
  "\<exists>act a'. make_action (reflected_args plain_values (new_structs 5)) (Some sample_action) = Inr act \<and>
     map_option fst (snd (decodeAction (reflected_args plain_values (new_structs 5)) (sample_fc (Inr act)) ''{}'' (Some new_Action)))
       = Some a' \<and>
     Action.account a' = ''pollaris'' \<and> authorizations a' = [''alice@active''] \<and>
     map_of (arguments a') = map_of [(''groupName'', JStr ''board''), (''voter'', JStr ''bob'')]"
proof -
  let ?J = "reflected_args plain_values (new_structs 5)"
  obtain d where d: "pack_args remove_bob = Inr d" using sample_packs by blast
  obtain act where act: "make_action ?J (Some sample_action) = Inr act"
    unfolding make_action_def option.case Let_def action.select_convs sample_parsed by (simp add: d)
  have n: "acName act = make_name (actionName sample_action)" by (rule make_action_fields(2)[OF act])
  have data: "acData act = d"
    using make_action_data[OF act sample_parsed] d by (metis sum.inject(2))
  have "unpack_args (acName act) (acData act) = Some (Inr (remove_bob, []))"
    unfolding n data by (rule unpack_pack_args[OF sample_parsed _ d]) (simp add: remove_bob_def)
  then have dec: "decode_args ?J (acName act) (acData act) = Inr (arguments sample_action)"
    by (simp add: decode_args_def reflected_args_def sample_written plain_values_def)
  have names: "valid_name ''alice''" "valid_name ''active''" "valid_name ''pollaris''" by code_simp+
  have known: "valid_name (Action.account sample_action)" "validateName (actionName sample_action)"
    "list_all authorization_ok (authorizations sample_action)"
    using names by (auto simp: validateName_iff strings_defs authorization_ok_def)
  have json: "actionFromJson (sample_fc (Inr act)) ''{}'' = Inr act" by (simp add: sample_fc_def)
  have act_name: "args_action remove_bob = actionName sample_action"
    by (simp add: args_action_def remove_bob_def strings_defs)
  have prints: "\<forall>x obj. parse_args ?J (make_name (actionName sample_action)) (arguments sample_action) = Some (Inr x) \<longrightarrow>
      write_args plain_values x = Inr obj \<longrightarrow> prints_back plain_values obj"
    by (intro allI impI plain_back)
  obtain a' where a': "map_option fst (snd (decodeAction ?J (sample_fc (Inr act)) ''{}'' (Some new_Action))) = Some a'"
    "Action.account a' = Action.account sample_action" "authorizations a' = authorizations sample_action"
    "args_action remove_bob = actionName sample_action \<and> args_ok remove_bob \<and>
       write_args plain_values remove_bob = Inr (arguments sample_action) \<and>
       map_of (arguments sample_action) = map_of (arguments sample_action) \<and>
       reads_back plain_values (arguments sample_action) \<and> values_ok plain_values remove_bob
       \<longrightarrow> map_of (arguments a') = map_of (arguments sample_action)"
    using action_encoding_roundtrip[OF act new_structs_ok known json dec prints, of new_Action] by blast
  have "map_of (arguments a') = map_of (arguments sample_action)"
    using a'(4) act_name sample_written plain_back(1,3) by (simp add: remove_bob_def)
  then show ?thesis using act a'(1-3) by (intro exI[of _ act] exI[of _ a']) simp
qed

definition rename_contest :: cntst_modify where
  "rename_contest = \<lparr>cmGroupId = 1, cmContestId = 2, cmNewName = Some ''b'', cmNewDescription = None, cmNewTags = None,
     cmDeleteContestants = [], cmAddContestants = [], cmNewBegin = None, cmNewEnd = None\<rparr>"

definition shown_rename :: json_object where
  "shown_rename = [(GroupId, JNum 1), (ContestId, JNum 2), (NewName, JStr ''b''), (DeleteContestants, JArr []),
     (AddContestants, JArr [])]"

definition modify_data :: bytes where
  "modify_data = (case pack_cntst_modify rename_contest of Inr d \<Rightarrow> d | Inl _ \<Rightarrow> [])"

lemma unpack_rename: "unpack_cntst_modify modify_data = Inr (rename_contest, [])"
proof -
  have "\<exists>d. pack_cntst_modify rename_contest = Inr d"
    by (simp add: pack_cntst_modify_def rename_contest_def pack_via_def pack_pair_def pack_seq_def pack_string_def
        pack_bytes_def pack_varint_def pack_u64_def pack_word_def pack_optional_def pack_vector_def pack_bool_def
        MAX_SIZE_OF_BYTE_ARRAYS_def)
  then obtain d where d: "pack_cntst_modify rename_contest = Inr d" by blast
  then show ?thesis using codec.decodes[OF cntst_modify_codec _ d] by (simp add: modify_data_def)
qed

lemma unpack_modify: "unpack_args (make_name CntstModify) modify_data = Some (Inr (ArgsCntstModify rename_contest, []))"
  using unpack_rename by (simp add: unpack_args_def strings_defs make_name_short name_codes_differ unpack_via_def)

lemma written_rename: "write_args C (ArgsCntstModify rename_contest) = Inr shown_rename"
  by (simp add: write_args_def cntst_modify_members_def member_def optional_member_def rename_contest_def
    shown_rename_def strings_defs text_out_def u64_out_def ids_out_def contestants_out_def array_out_def)

lemma decode_modify: "decode_args (reflected_args plain_values (new_structs w)) (make_name CntstModify) modify_data = Inr shown_rename"
  unfolding decode_args_def unpack_modify
  by (simp add: reflected_args_def written_rename) (simp add: plain_values_def)

lemma prints_plain: "\<forall>obj. write_args plain_values args = Inr obj \<longrightarrow> prints_back plain_values obj"
  by (intro allI impI plain_back)

theorem shown_arguments_encode_again_witness:
  "parse_args (reflected_args plain_values (new_structs 5)) (make_name CntstModify) shown_rename =
     Some (Inr (ArgsCntstModify rename_contest))"
proof (rule shown_arguments_encode_again[OF unpack_modify decode_modify prints_plain plain_back(1) _ plain_back(3)])
  show "empty_options (freshCntstModify (new_structs 5))" by (simp add: empty_options_def new_structs_def)
  show "parsed plain_values shown_rename = Inr shown_rename" by (simp add: plain_values_def)
qed

theorem unset_options_fail_the_check_witness:
  "\<not> validateArguments CntstModify shown_rename \<and>
   describe 20 \<lparr>Action.account = Contract_name, actionName = CntstModify, authorizations = [], arguments = shown_rename\<rparr> = ''Invalid action''"
  using unset_options_fail_the_check[OF unpack_modify decode_modify prints_plain, of 20 Contract_name "[]"]
  by (simp add: args_action_def unset_option_def rename_contest_def)

end
