(* ===== verification/FcJson.thy ===== *)
theory FcJson
  imports EosioTypes
begin

text \<open>
  Texts in the JSON of the vendored library fc, \<open>vendor/fc/src/io/json.cpp\<close>: how \<open>escape_string\<close> writes
  them and how \<open>parseEscape\<close> and \<open>stringFromStream\<close> read them.  The stream is the list of its characters;
  the deadline is not modelled.  The parser knows fewer escapes than the printer: the last section says
  exactly which texts come back.
\<close>

subsection \<open>Printing\<close>

definition backslash :: char where "backslash = CHR 0x5C"

definition quote :: char where "quote = CHR 0x22"

definition escape_char :: "char \<Rightarrow> string" where
  "escape_char c =
     (if c = CHR 0x08 then [backslash, CHR ''b'']
      else if c = CHR 0x0C then [backslash, CHR ''f'']
      else if c = CHR 0x0A then [backslash, CHR ''n'']
      else if c = CHR 0x0D then [backslash, CHR ''r'']
      else if c = CHR 0x09 then [backslash, CHR ''t'']
      else if c = backslash then [backslash, backslash]
      else if c = quote then [backslash, quote]
      else if of_char c < (32 :: nat)
      then [backslash, CHR ''u'', CHR ''0'', CHR ''0'', ''01'' ! (of_char c div 16), ''0123456789abcdef'' ! (of_char c mod 16)]
      else [c])"

definition escape_string :: "string \<Rightarrow> string" where
  "escape_string s = [quote] @ concat (map escape_char s) @ [quote]"

subsection \<open>Parsing\<close>

text \<open>\<open>parseEscape\<close> after the backslash: any other character stands for itself.\<close>

definition parseEscape :: "char \<Rightarrow> char" where
  "parseEscape c =
     (if c = CHR ''t'' then CHR 0x09 else if c = CHR ''n'' then CHR 0x0A else if c = CHR ''r'' then CHR 0x0D else c)"

text \<open>The loop of \<open>stringFromStream\<close>; \<open>token\<close> is what was read.  The end of the stream throws.\<close>

fun string_loop :: "string \<Rightarrow> string \<Rightarrow> fc_fault + (string \<times> string)" where
  "string_loop token [] = Inl BadVariant"
| "string_loop token [c] = (if c = quote then Inr (token, []) else Inl BadVariant)"
| "string_loop token (c # d # s) =
     (if c = backslash then string_loop (token @ [parseEscape d]) s
      else if c = CHR 0x04 then Inl BadVariant
      else if c = quote then Inr (token, d # s)
      else string_loop (token @ [c]) (d # s))"

definition stringFromStream :: "string \<Rightarrow> fc_fault + (string \<times> string)" where
  "stringFromStream s = (case s of c # r \<Rightarrow> if c = quote then string_loop [] r else Inl BadVariant | [] \<Rightarrow> Inl BadVariant)"

subsection \<open>What is read back\<close>

text \<open>What the parser makes of a printed character.\<close>

definition reread :: "char \<Rightarrow> string" where
  "reread c =
     (if c = CHR 0x08 then ''b'' else if c = CHR 0x0C then ''f''
      else if c = CHR 0x0A \<or> c = CHR 0x0D \<or> c = CHR 0x09 then [c]
      else if of_char c < (32 :: nat)
      then [CHR ''u'', CHR ''0'', CHR ''0'', ''01'' ! (of_char c div 16), ''0123456789abcdef'' ! (of_char c mod 16)]
      else [c])"

definition plain_char :: "char \<Rightarrow> bool" where
  "plain_char c \<longleftrightarrow> 32 \<le> (of_char c :: nat) \<or> c = CHR 0x0A \<or> c = CHR 0x0D \<or> c = CHR 0x09"

lemma loop_escaped: "string_loop token (backslash # d # r) = string_loop (token @ [parseEscape d]) r"
  by simp

lemma loop_plain:
  "c \<noteq> backslash \<Longrightarrow> c \<noteq> CHR 0x04 \<Longrightarrow> c \<noteq> quote \<Longrightarrow> r \<noteq> [] \<Longrightarrow> string_loop token (c # r) = string_loop (token @ [c]) r"
  by (cases r) simp_all

lemma hex_char_plain:
  assumes "n < 16"
  shows "''0123456789abcdef'' ! n \<notin> {backslash, quote, CHR 0x04}"
proof -
  have "list_all (\<lambda>c. c \<noteq> backslash \<and> c \<noteq> quote \<and> c \<noteq> CHR 0x04) ''0123456789abcdef''"
    by (simp add: backslash_def quote_def)
  then show ?thesis using assms by (simp add: list_all_length)
qed

lemma low_char_plain:
  assumes "n < 2"
  shows "''01'' ! n \<notin> {backslash, quote, CHR 0x04}"
  using assms by (auto simp: less_2_cases_iff backslash_def quote_def)

lemma loop_escape_char:
  assumes "r \<noteq> []"
  shows "string_loop token (escape_char c @ r) = string_loop (token @ reread c) r"
proof -
  consider "c = CHR 0x08" | "c = CHR 0x0C" | "c = CHR 0x0A" | "c = CHR 0x0D" | "c = CHR 0x09" | "c = backslash"
    | "c = quote" | (control) "of_char c < (32 :: nat)" "c \<notin> {CHR 0x08, CHR 0x0C, CHR 0x0A, CHR 0x0D, CHR 0x09, backslash, quote}"
    | (other) "\<not> of_char c < (32 :: nat)" "c \<notin> {CHR 0x08, CHR 0x0C, CHR 0x0A, CHR 0x0D, CHR 0x09, backslash, quote}"
    by blast
  then show ?thesis
  proof cases
    case control
    have u: "CHR ''u'' \<noteq> backslash" "CHR ''0'' \<notin> {backslash, quote, CHR 0x04}" "parseEscape (CHR ''u'') = CHR ''u''"
      by (simp_all add: backslash_def quote_def parseEscape_def)
    have h: "''01'' ! (of_char c div 16) \<notin> {backslash, quote, CHR 0x04}"
      "''0123456789abcdef'' ! (of_char c mod 16) \<notin> {backslash, quote, CHR 0x04}"
      using control(1) by (intro low_char_plain hex_char_plain; simp)+
    show ?thesis
      using control u h assms by (simp add: escape_char_def reread_def loop_plain del: nth_Cons_numeral)
  next
    case other
    have "c \<noteq> CHR 0x04" using other(1) by auto
    then show ?thesis using other assms by (simp add: escape_char_def reread_def loop_plain)
  qed (simp_all add: escape_char_def reread_def parseEscape_def backslash_def quote_def)
qed

lemma loop_escaped_text:
  "string_loop token (concat (map escape_char s) @ quote # rest) = Inr (token @ concat (map reread s), rest)"
proof (induction s arbitrary: token)
  case Nil
  then show ?case by (cases rest) (simp_all add: quote_def backslash_def)
qed (simp add: loop_escape_char)

lemma string_reread: "stringFromStream (escape_string s @ rest) = Inr (concat (map reread s), rest)"
  using loop_escaped_text[of "[]" s rest] by (simp add: stringFromStream_def escape_string_def)

lemma reread_plain: "reread c = [c] \<longleftrightarrow> plain_char c"
  by (auto simp: reread_def plain_char_def)

lemma reread_nonempty: "1 \<le> length (reread c)"
  by (simp add: reread_def)

lemma concat_reread_length: "length s \<le> length (concat (map reread s))"
proof (induction s)
  case (Cons c s)
  then show ?case using reread_nonempty[of c] by simp
qed simp

lemma concat_reread_iff: "concat (map reread s) = s \<longleftrightarrow> list_all plain_char s"
proof (induction s)
  case (Cons c s)
  show ?case
  proof (cases "reread c = [c]")
    case True
    then show ?thesis using Cons reread_plain[of c] by simp
  next
    case False
    have "concat (map reread (c # s)) \<noteq> c # s"
    proof
      assume eq: "concat (map reread (c # s)) = c # s"
      then have "length (reread c) + length (concat (map reread s)) = Suc (length s)"
        by (metis concat.simps(2) length_Cons length_append list.simps(9))
      then have "length (reread c) = 1" using concat_reread_length[of s] reread_nonempty[of c] by linarith
      then obtain x where "reread c = [x]" by (auto simp: length_Suc_conv)
      then show False using eq False by simp
    qed
    then show ?thesis using reread_plain[of c] False by simp
  qed
qed simp

text \<open>
  A text that fc has printed is read back by fc exactly when it has no control character but newline,
  carriage return and tab; otherwise it is read, without complaint, as another text.
\<close>

lemma printed_text_read_back:
  "stringFromStream (escape_string s @ rest) = Inr (s, rest) \<longleftrightarrow> list_all plain_char s"
  "\<exists>s'. stringFromStream (escape_string s @ rest) = Inr (s', rest)"
  by (simp_all add: string_reread concat_reread_iff)

lemma bell_misread: "stringFromStream (escape_string [CHR ''a'', CHR 0x07]) = Inr (''au0007'', [])"
  using string_reread[of "[CHR ''a'', CHR 0x07]" "[]"] by (simp add: reread_def)

end
