(* ===== verification/SigningProofs.thy ===== *)
theory SigningProofs
  imports KeyProofs
begin

text \<open>
  Properties of what is packed, signed and prepared: the width of variable-length integers, the message
  of a signature, block ids and the reference block, and the operations of \<open>KeyManager\<close>.
\<close>

subsection \<open>Variable-length integers\<close>

lemma varint_nat_bits:
  "\<exists>xs x. varint_nat n = map (\<lambda>d. of_nat (d + 128)) xs @ [of_nat x] \<and> x < 128 \<and> list_all (\<lambda>d. d < 128) xs"
proof (induction n rule: varint_nat.induct)
  case (1 n)
  show ?case
  proof (cases "n < 128")
    case True
    then show ?thesis by (intro exI[of _ "[]"] exI[of _ n]) (subst varint_nat.simps, simp)
  next
    case False
    obtain xs x where x: "varint_nat (n div 128) = map (\<lambda>d. of_nat (d + 128)) xs @ [of_nat x]" "x < 128"
      "list_all (\<lambda>d. d < 128) xs"
      using 1[OF False] by blast
    show ?thesis
      by (rule exI[of _ "(n mod 128) # xs"], rule exI[of _ x])
        (subst varint_nat.simps, use x False in simp)
  qed
qed

text \<open>
  A variable-length integer takes between one and five bytes, and reading them gives the number
  back, whatever follows.
\<close>

lemma varint_bounds:
  "\<exists>bs. pack_varint v = Inr bs \<and> 1 \<le> length bs \<and> length bs \<le> 5 \<and> (\<forall>rest. unpack_varint (bs @ rest) = Inr (v, rest))"
proof -
  have p: "pack_varint v = Inr (varint_nat (unat v))" by (rule pack_varint_eq)
  have "unat v < 2 ^ (7 * Suc 4)" using unat_bound32[of v] by simp
  then have "length (varint_nat (unat v)) \<le> 5" using length_varint_nat[of "unat v" 4] by simp
  moreover have "1 \<le> length (varint_nat (unat v))" by (subst varint_nat.simps) simp
  ultimately show ?thesis using p varint.roundtrip[OF TrueI p] by blast
qed

subsection \<open>What a signature binds\<close>

lemma signed_message_injective:
  assumes "length c1 = 32" "length c2 = 32"
    and "signed_message H c1 t1 d1 = Inr m" "signed_message H c2 t2 d2 = Inr m"
  shows "c1 = c2 \<and> t1 = t2 \<and> cfd_digest H d1 = cfd_digest H d2"
proof -
  obtain p1 g1 where 1: "pack_transaction t1 = Inr p1" "cfd_digest H d1 = Inr g1" "m = c1 @ p1 @ g1"
    using assms(3) by (auto simp: signed_message_def pack_seq_Inr)
  obtain p2 g2 where 2: "pack_transaction t2 = Inr p2" "cfd_digest H d2 = Inr g2" "m = c2 @ p2 @ g2"
    using assms(4) by (auto simp: signed_message_def pack_seq_Inr)
  have eq: "c1 = c2 \<and> p1 @ g1 = p2 @ g2" using 1(3) 2(3) assms(1,2) by simp
  have "t1 = t2 \<and> g1 = g2"
    by (rule transaction_format.prefix_free[OF TrueI TrueI 1(1) 2(1)]) (use eq in simp)
  then show ?thesis using eq 1(2) 2(2) by simp
qed

text \<open>
  C10. The bytes that are signed determine the chain, the whole transaction and the digest of the
  context-free data: no two different transactions, and no two chains, share a signature's message.
\<close>

theorem signing_binds_transaction:
  assumes "length c1 = 32" "length c2 = 32"
    and "signed_message H c1 t1 d1 = Inr m" "signed_message H c2 t2 d2 = Inr m"
  shows "c1 = c2 \<and> t1 = t2 \<and> cfd_digest H d1 = cfd_digest H d2"
  using assms by (rule signed_message_injective)

text \<open>Members of two transactions that differ in the expiration alone.\<close>

definition blank_transaction :: "uint32 \<Rightarrow> transaction" where
  "blank_transaction e = (base_transaction new_signed_transaction)\<lparr>expiration := e\<rparr>"

lemma blank_packs: "\<exists>m. signed_message H c (blank_transaction e) [] = Inr m"
  by (simp add: signed_message_def cfd_digest_def pack_transaction_def pack_via_def pack_pair_def pack_seq_def
      pack_u32_def pack_u16_def pack_u8_def pack_word_def pack_varint_def pack_vector_def pack_extensions_def
      blank_transaction_def base_transaction_def transaction.truncate_def new_signed_transaction_def)

theorem signing_binds_transaction_witness:
  "signed_message rev (replicate 32 7) (blank_transaction 1) [] \<noteq> signed_message rev (replicate 32 7) (blank_transaction 2) []"
proof
  assume eq: "signed_message rev (replicate 32 7) (blank_transaction 1) [] = signed_message rev (replicate 32 7) (blank_transaction 2) []"
  obtain m where m: "signed_message rev (replicate 32 7) (blank_transaction 1) [] = Inr m" using blank_packs by blast
  have "blank_transaction 1 = blank_transaction 2"
    using signing_binds_transaction[OF _ _ m m[unfolded eq]] by simp
  then show False by (simp add: blank_transaction_def base_transaction_def transaction.truncate_def)
qed

subsection \<open>Block ids\<close>

lemma hex_digit_back: "d < 16 \<Longrightarrow> from_hex (hex_digits ! d) = Inr (of_nat d)"
proof -
  have "\<forall>d < 16. from_hex (hex_digits ! d) = Inr (of_nat d)" by code_simp
  then show "d < 16 \<Longrightarrow> ?thesis" by blast
qed

lemma nibbles: "push_bit 4 (of_nat (unat (drop_bit 4 b))) OR of_nat (unat (b AND 0x0f)) = (b :: uint8)"
proof -
  have "(0x0f :: uint8) = mask 4" by (simp add: mask_eq_exp_minus_1)
  then have "push_bit 4 (of_nat (unat (drop_bit 4 b))) OR of_nat (unat (b AND 0x0f))
      = push_bit 4 (drop_bit 4 b) OR take_bit 4 b"
    by (simp add: take_bit_eq_mask)
  also have "\<dots> = b" by (rule bit_eqI) (auto simp: bit_simps)
  finally show ?thesis .
qed

lemma from_hex_to_hex: "length h \<le> n \<Longrightarrow> from_hex_text n (to_hex h) = Inr h"
proof (induction h arbitrary: n)
  case (Cons b h)
  obtain k where k: "n = Suc k" using Cons.prems by (cases n) auto
  have hi: "unat (drop_bit 4 b) < 16"
    unfolding unat_drop_bit_eq using unsigned_less[of b, where ?'a = nat] by (simp add: drop_bit_eq_div)
  have lo: "unat (b AND 0x0f) < 16"
  proof -
    have m: "(0x0f :: uint8) = mask 4" by (simp add: mask_eq_exp_minus_1)
    have "unat (take_bit 4 b) < 16" unfolding unsigned_take_bit_eq by (simp add: take_bit_eq_mod)
    then show ?thesis unfolding m take_bit_eq_mask .
  qed
  have "from_hex_text k (to_hex h) = Inr h" using Cons k by simp
  then show ?case using hex_digit_back[OF hi] hex_digit_back[OF lo] nibbles[of b]
    by (simp add: k to_hex_def fc_map_def)
next
  case Nil
  then show ?case by (cases n) (simp_all add: to_hex_def)
qed

lemma sha256_back: "length h = 32 \<Longrightarrow> sha256_of_hex (to_hex h) = Inr h"
  by (simp add: sha256_of_hex_def fc_map_def from_hex_to_hex)

text \<open>Bytes read as a number, highest first.\<close>

definition be_value :: "bytes \<Rightarrow> nat" where
  "be_value bs = le_value (rev bs)"

lemma le_value_less: "le_value bs < 256 ^ length bs"
proof (induction bs)
  case (Cons b bs)
  have "unat b < 256" using unsigned_less[of b, where ?'a = nat] by simp
  then show ?case using Cons by simp
qed simp

lemma le_value_append: "le_value (xs @ ys) = le_value xs + 256 ^ length xs * le_value ys"
  by (induction xs) (simp_all add: algebra_simps)

lemma word_of_bytes: "length h = 32 \<Longrightarrow> i < 4 \<Longrightarrow> unat (ucast (sha256_word i h) :: uint32) = le_value (take 4 (drop (8 * i) h))"
proof -
  assume h: "length h = 32" "i < 4"
  define d where "d = take 8 (drop (8 * i) h)"
  have d: "length d = 8" "take 4 (drop (8 * i) h) = take 4 d" using h by (simp_all add: d_def)
  have "le_value d < 2 ^ 64" using le_value_less[of d] d(1) by simp
  then have "unat (ucast (sha256_word i h) :: uint32) = le_value d mod 2 ^ 32"
    by (simp add: sha256_word_def d_def[symmetric] unsigned_ucast_eq unat_of_nat take_bit_eq_mod)
  also have "le_value d = le_value (take 4 d) + 2 ^ 32 * le_value (drop 4 d)"
    using le_value_append[of "take 4 d" "drop 4 d"] d(1) by simp
  also have "\<dots> mod 2 ^ 32 = le_value (take 4 d)"
    using le_value_less[of "take 4 d"] d(1) by simp
  finally show ?thesis by (simp add: d(2))
qed

lemma byte_of_word: "drop_bit k x AND 0xFF = (of_nat (unat x div 2 ^ k mod 256) :: uint32)"
proof -
  have "(0xFF :: uint32) = mask 8" by (simp add: mask_eq_exp_minus_1)
  then have "drop_bit k x AND 0xFF = take_bit 8 (drop_bit k (of_nat (unat x)))" by (simp add: take_bit_eq_mask)
  also have "\<dots> = of_nat (take_bit 8 (drop_bit k (unat x)))"
    by (intro bit_eqI) (simp add: bit_simps)
  finally show ?thesis by (simp add: take_bit_eq_mod drop_bit_eq_div)
qed

lemma push_byte: "push_bit k (of_nat d :: uint32) = of_nat (d * 2 ^ k)"
  unfolding push_bit_of_nat by (simp add: push_bit_eq_mult)

lemma or_four:
  assumes "a < 256" "b < 256" "c < 256"
  shows "(of_nat a OR of_nat (b * 2 ^ 8) OR of_nat (c * 2 ^ 16) OR of_nat (d * 2 ^ 24) :: uint32)
    = of_nat (a + b * 2 ^ 8 + c * 2 ^ 16 + d * 2 ^ 24)"
  using or_high[of a 8 b, where ?'a = 32] or_high[of "a + b * 2 ^ 8" 16 c, where ?'a = 32]
    or_high[of "a + b * 2 ^ 8 + c * 2 ^ 16" 24 d, where ?'a = 32] assms
  unfolding or.assoc[symmetric] by (simp del: of_nat_add of_nat_mult of_nat_power)

lemma four_less: "a < 256 \<Longrightarrow> b < 256 \<Longrightarrow> c < 256 \<Longrightarrow> d < 256 \<Longrightarrow>
    a + b * 2 ^ 8 + c * 2 ^ 16 + d * 2 ^ 24 < (2::nat) ^ 32"
  by simp

lemma le_bytes4: "le_bytes 4 n =
  [of_nat (n div 2 ^ 0 mod 256), of_nat (n div 2 ^ 8 mod 256), of_nat (n div 2 ^ 16 mod 256), of_nat (n div 2 ^ 24 mod 256)]"
proof -
  have "(4::nat) = Suc (Suc (Suc (Suc 0)))" by simp
  then have "le_bytes 4 n = [of_nat (n mod 256), of_nat (n div 256 mod 256), of_nat (n div 256 div 256 mod 256),
      of_nat (n div 256 div 256 div 256 mod 256)]"
    by (simp only: le_bytes.simps)
  then show ?thesis unfolding div_mult2_eq[symmetric] by simp
qed

lemma unat_reversed:
  fixes x :: uint32
  shows "unat (endian_reverse_u32 x) = be_value (le_bytes 4 (unat x))"
proof -
  let ?n = "unat x"
  let ?b = "\<lambda>k. ?n div 2 ^ k mod 256"
  have low: "x AND 0xFF = of_nat (?b 0)" using byte_of_word[of 0 x] by simp
  have "endian_reverse_u32 x = of_nat (?b 24 + ?b 16 * 2 ^ 8 + ?b 8 * 2 ^ 16 + ?b 0 * 2 ^ 24)"
    unfolding endian_reverse_u32_def byte_of_word low push_byte by (rule or_four) simp_all
  moreover have "?b 24 + ?b 16 * 2 ^ 8 + ?b 8 * 2 ^ 16 + ?b 0 * 2 ^ 24 < 2 ^ 32"
    by (rule four_less) simp_all
  moreover have "be_value (le_bytes 4 ?n) = ?b 24 + ?b 16 * 2 ^ 8 + ?b 8 * 2 ^ 16 + ?b 0 * 2 ^ 24"
    unfolding le_bytes4 be_value_def by (simp add: unat_of_nat)
  ultimately show ?thesis by (simp add: unat_of_nat del: of_nat_add of_nat_mult of_nat_power)
qed

lemma le_bytes_value: "le_bytes (length bs) (le_value bs) = bs"
proof (induction bs)
  case (Cons b bs)
  have "unat b < 256" using unsigned_less[of b, where ?'a = nat] by simp
  then show ?case using Cons by simp
qed simp

text \<open>
  For a block id given as 64 hexadecimal digits, \<open>ref_block_num\<close> is the low half of the number
  in its first four bytes, highest first, and \<open>ref_block_prefix\<close> the number in bytes eight to eleven,
  lowest first.
\<close>

lemma reference_block:
  assumes "length h = 32"
  shows "sha256_of_hex (to_hex h) = Inr h \<and>
    unat (ref_block_num (set_reference_block h t)) = be_value (take 4 h) mod 2 ^ 16 \<and>
    unat (ref_block_prefix (set_reference_block h t)) = le_value (take 4 (drop 8 h))"
proof (intro conjI)
  have w: "unat (ucast (sha256_word 0 h) :: uint32) = le_value (take 4 h)"
    using word_of_bytes[OF assms, of 0] by simp
  have "unat (endian_reverse_u32 (ucast (sha256_word 0 h))) = be_value (take 4 h)"
    unfolding unat_reversed w using le_bytes_value[of "take 4 h"] assms by simp
  then show "unat (ref_block_num (set_reference_block h t)) = be_value (take 4 h) mod 2 ^ 16"
    by (simp add: set_reference_block_def unsigned_ucast_eq take_bit_eq_mod)
  show "unat (ref_block_prefix (set_reference_block h t)) = le_value (take 4 (drop 8 h))"
    using word_of_bytes[OF assms, of 1] by (simp add: set_reference_block_def)
qed (rule sha256_back[OF assms])

lemma reference_block_witness:
  "unat (ref_block_num (set_reference_block ([0x04, 0x8d, 0x15, 0x9e] @ replicate 28 0x10) new_signed_transaction)) = 0x159e"
  using reference_block[of "[0x04, 0x8d, 0x15, 0x9e] @ replicate 28 0x10" new_signed_transaction]
  by (simp add: be_value_def)

subsection \<open>Preparing and signing\<close>

lemma with_defaults_fields:
  "trxMaxNetWords (with_defaults now c t) = trxMaxNetWords t"
  "trxDelaySeconds (with_defaults now c t) = trxDelaySeconds t"
  "trxMaxCpuMs (with_defaults now c t) = trxMaxCpuMs t"
  "trxActions (with_defaults now c t) = trxActions t"
  "trxObjects (with_defaults now c t) = trxObjects t"
  "trxExpiration (with_defaults now c t) = Some (case trxExpiration t of Some e \<Rightarrow> e | None \<Rightarrow> now + 10000)"
  "trxRefBlockId (with_defaults now c t) = (if trxRefBlockIdNull t then headBlockId c else trxRefBlockId t)"
  by (auto simp: with_defaults_def setRefBlockId_def setExpiration_def trx_signal_def addSecs_def Let_def split: option.splits)

lemma fromQList_all:
  "fromQList J objects ps = Inr acts \<Longrightarrow>
    list_all2 (\<lambda>p x. \<exists>a. objects p = Some a \<and> make_action J (Some a) = Inr x) ps acts"
  by (induction ps arbitrary: acts) (auto simp: and_then_Inr fc_Inr split: option.splits)

lemma transaction_fields_simps [simp]:
  "unat (max_net_usage_words (transaction_fields t h acts)) = unat (trxMaxNetWords t) mod 2 ^ 32"
  "unat (delay_sec (transaction_fields t h acts)) = unat (trxDelaySeconds t) mod 2 ^ 32"
  "max_cpu_usage_ms (transaction_fields t h acts) = trxMaxCpuMs t"
  "uint (expiration (transaction_fields t h acts)) = toSecsSinceEpoch (the (trxExpiration t)) mod 2 ^ 32"
  "actions (transaction_fields t h acts) = acts"
  by (simp_all add: transaction_fields_def Let_def set_reference_block_def unsigned_ucast_eq take_bit_eq_mod uint_word_of_int
     new_signed_transaction_def)


lemma prepareForSigning_step: "prepareForSigning J E now (Some c) (Some t) =
   (let t1 = with_defaults now c t in
        (and_then (fc (sha256_of_hex (trxRefBlockId t1))) (\<lambda>h.
         and_then (fromQList J (trxObjects t1) (trxActions t1)) (\<lambda>acts.
         and_then (fc (transactionToJson E (transaction_fields t1 h acts))) (\<lambda>js.
         Inr (Some (new_SignableTransaction js))))), Some t1))"
  by (simp add: prepareForSigning_def Let_def)

lemma prepared_cases:
  assumes "prepareForSigning J E now (Some c) (Some t) = (Inr (Some s), Some t')"
  obtains h acts js where "t' = with_defaults now c t" "fromQList J (trxObjects t) (trxActions t) = Inr acts"
    "transactionToJson E (transaction_fields (with_defaults now c t) h acts) = Inr js" "s = new_SignableTransaction js"
  using assms unfolding prepareForSigning_step Let_def prod.inject option.inject and_then_Inr fc_Inr with_defaults_fields(4,5)
  by (elim exE conjE) (simp only: sum.inject option.inject)

text \<open>
  C24. A prepared transaction carries the actions in order, the processor limit unchanged, and the
  network limit, the delay and the expiration modulo 2^32; a missing expiration is ten seconds from
  now, a missing reference block the head block.
\<close>

theorem prepared_fields_wrap:
  assumes "prepareForSigning J E now (Some c) (Some t) = (Inr (Some s), Some t')"
  shows "\<exists>x. transactionToJson E x = Inr (signableJson s) \<and>
    unat (max_net_usage_words x) = unat (trxMaxNetWords t) mod 2 ^ 32 \<and>
    unat (delay_sec x) = unat (trxDelaySeconds t) mod 2 ^ 32 \<and>
    max_cpu_usage_ms x = trxMaxCpuMs t \<and>
    uint (expiration x) = toSecsSinceEpoch (case trxExpiration t of Some e \<Rightarrow> e | None \<Rightarrow> now + 10000) mod 2 ^ 32 \<and>
    list_all2 (\<lambda>p a. \<exists>q. trxObjects t p = Some q \<and> make_action J (Some q) = Inr a) (trxActions t) (actions x) \<and>
    trxRefBlockId t' = (if trxRefBlockIdNull t then headBlockId c else trxRefBlockId t)"
proof -
  obtain h acts js where x: "t' = with_defaults now c t" "fromQList J (trxObjects t) (trxActions t) = Inr acts"
    "transactionToJson E (transaction_fields (with_defaults now c t) h acts) = Inr js" "s = new_SignableTransaction js"
    using assms by (rule prepared_cases)
  show ?thesis
    unfolding x(1,4)
    by (rule exI[of _ "transaction_fields (with_defaults now c t) h acts"])
      (intro conjI, use x(3) fromQList_all[OF x(2)] in
        \<open>simp_all only: new_SignableTransaction_def SignableTransaction.select_convs with_defaults_fields
          transaction_fields_simps option.sel\<close>)
qed

definition listed_signatures :: "SignableTransaction \<Rightarrow> json list" where
  "listed_signatures s = toArray (jmember (signableJson s) ''signatures'')"

lemma addSignature_listed [simp]:
  "listed_signatures (addSignature x s) = listed_signatures s @ [JStr x]"
  "k \<noteq> ''signatures'' \<Longrightarrow> jmember (signableJson (addSignature x s)) k = jmember (signableJson s) k"
  by (simp_all add: listed_signatures_def addSignature_def Let_def jmember_def toArray_def)

lemma from_hex_text_length: "from_hex_text n s = Inr d \<Longrightarrow> length d \<le> n"
  by (induction n s arbitrary: d rule: from_hex_text.induct) (auto simp: fc_map_Inr and_then_Inr)

lemma sha256_length: "sha256_of_hex s = Inr h \<Longrightarrow> length h = 32"
  using from_hex_text_length[of 32 s] by (auto simp: sha256_of_hex_def fc_map_Inr)

lemma base_transaction_expiration: "expiration (base_transaction t) = expiration t"
  by (simp add: base_transaction_def transaction.truncate_def)

definition date_text :: "string \<Rightarrow> string" where
  "date_text d = (if last d = CHR ''Z'' then butlast d else d)"

lemma setExpiration_member:
  assumes "signable_setExpiration d s = Some s'"
  shows "jmember (signableJson s') ''expiration'' = JStr (date_text d)"
    "k \<noteq> ''expiration'' \<Longrightarrow> jmember (signableJson s') k = jmember (signableJson s) k"
    "listed_signatures s' = listed_signatures s"
  using assms by (auto simp: signable_setExpiration_def date_text_def jmember_def listed_signatures_def split: if_splits)

lemma signTransaction_cases:
  assumes "signTransaction E now blockchain (Some s) key = (r, s')"
  obtains (key) e where "r = Inl (Fc e)" "s' = Some s" "keyFromText E key = Inl e"
  | (date) "r = Inl NullPointer" "s' = Some s" "isoDate E (addSecs 10 now) = []"
  | (failed) f s1 where "r = Inl f" "s' = Some s1" "signable_setExpiration (isoDate E (addSecs 10 now)) s = Some s1"
  | (signed) s1 k t c cid sig where "r = Inr ()" "s' = Some (addSignature sig s1)"
      "signable_setExpiration (isoDate E (addSecs 10 now)) s = Some s1" "keyFromText E key = Inr k"
      "transactionFromJson E (signableJson s1) = Inr t" "blockchain = Some c"
      "sha256_of_hex (chainId c) = Inr cid" "sign_transaction E k cid t = Inr sig"
  using assms unfolding signTransaction_def
  by (auto simp: and_then_Inr signable_setExpiration_def split: sum.splits option.splits if_splits)

text \<open>
  Signing appends one signature when it succeeds and none when an exception escapes; apart from the
  expiration, which it may already have moved, every other member of the transaction is unchanged.
\<close>

lemma signing_outcomes:
  assumes "signTransaction E now blockchain (Some s) key = (r, Some s')"
  shows "(if r = Inr () then \<exists>sig. listed_signatures s' = listed_signatures s @ [JStr sig]
      else listed_signatures s' = listed_signatures s) \<and>
    jmember (signableJson s') ''expiration'' \<in>
      {jmember (signableJson s) ''expiration'', JStr (date_text (isoDate E (addSecs 10 now)))} \<and>
    (\<forall>k. k \<noteq> ''expiration'' \<and> k \<noteq> ''signatures'' \<longrightarrow>
      jmember (signableJson s') k = jmember (signableJson s) k)"
  using assms
  by (rule signTransaction_cases) (simp_all add: setExpiration_member)

text \<open>
  C23. Signing a transaction with a second key moves its expiration, so the first signature was made over
  another message than the one the transaction now has: with two signatures the first does not fit.
  The date of the transaction is the one in its JSON, and the two moments give different dates.
\<close>

theorem second_signature_orphans_first:
  assumes "signTransaction E now1 (Some c) (Some s) key1 = (Inr (), Some s1)"
    and "signTransaction E now2 (Some c) (Some s1) key2 = (Inr (), Some s2)"
    and reads: "\<forall>js t d. transactionFromJson E js = Inr t \<longrightarrow> jmember js ''expiration'' = JStr d \<longrightarrow> expiration t = readDate d"
    and differ: "readDate (date_text (isoDate E (addSecs 10 now1))) \<noteq> readDate (date_text (isoDate E (addSecs 10 now2)))"
    and final: "transactionFromJson E (signableJson s2) = Inr t"
  shows "\<exists>sig1 sig2 k1 t1 cid. listed_signatures s2 = listed_signatures s @ [JStr sig1, JStr sig2] \<and>
    keyFromText E key1 = Inr k1 \<and> sign_transaction E k1 cid t1 = Inr sig1 \<and> sha256_of_hex (chainId c) = Inr cid \<and>
    expiration t1 \<noteq> expiration t \<and>
    signed_message (hash E) cid (base_transaction t1) (context_free_data t1) \<noteq>
      signed_message (hash E) cid (base_transaction t) (context_free_data t)"
proof -
  obtain s0 k1 t1 cid sig1 where 1: "s1 = addSignature sig1 s0"
      "signable_setExpiration (isoDate E (addSecs 10 now1)) s = Some s0" "keyFromText E key1 = Inr k1"
      "transactionFromJson E (signableJson s0) = Inr t1" "sha256_of_hex (chainId c) = Inr cid"
      "sign_transaction E k1 cid t1 = Inr sig1"
    using assms(1) by (rule signTransaction_cases) auto
  obtain s3 sig2 where 2: "s2 = addSignature sig2 s3"
      "signable_setExpiration (isoDate E (addSecs 10 now2)) s1 = Some s3"
    using assms(2) by (rule signTransaction_cases) auto
  have e1: "expiration t1 = readDate (date_text (isoDate E (addSecs 10 now1)))"
    using reads 1(4) setExpiration_member(1)[OF 1(2)] by blast
  have "jmember (signableJson s2) ''expiration'' = JStr (date_text (isoDate E (addSecs 10 now2)))"
    using setExpiration_member(1)[OF 2(2)] by (simp add: 2(1))
  then have e2: "expiration t = readDate (date_text (isoDate E (addSecs 10 now2)))" using reads final by blast
  have ne: "expiration t1 \<noteq> expiration t" using differ by (simp add: e1 e2)
  obtain m where m: "signed_message (hash E) cid (base_transaction t1) (context_free_data t1) = Inr m"
    using 1(6) by (auto simp: sign_transaction_def sig_digest_def fc_map_Inr)
  have "signed_message (hash E) cid (base_transaction t1) (context_free_data t1) \<noteq>
      signed_message (hash E) cid (base_transaction t) (context_free_data t)"
  proof
    assume eq: "signed_message (hash E) cid (base_transaction t1) (context_free_data t1) =
      signed_message (hash E) cid (base_transaction t) (context_free_data t)"
    have "length cid = 32" using 1(5) by (rule sha256_length)
    then have "base_transaction t1 = base_transaction t" using signed_message_injective m m[unfolded eq] by blast
    then show False using ne by (metis base_transaction_expiration)
  qed
  moreover have "listed_signatures s2 = listed_signatures s @ [JStr sig1, JStr sig2]"
    using setExpiration_member(3)[OF 1(2)] setExpiration_member(3)[OF 2(2)] by (simp add: 1(1) 2(1))
  ultimately show ?thesis using 1(3,5,6) ne by blast
qed

abbreviation sample_env :: "string fc_env" where "sample_env \<equiv> sample_fc (Inl BadVariant)"

lemma sample_signs: "\<exists>sig. sign_transaction sample_env k c (new_signed_transaction\<lparr>expiration := e\<rparr>) = Inr sig"
proof -
  have b: "base_transaction (new_signed_transaction\<lparr>expiration := e\<rparr>) = blank_transaction e"
    by (simp add: blank_transaction_def base_transaction_def transaction.truncate_def new_signed_transaction_def)
  have "context_free_data (new_signed_transaction\<lparr>expiration := e\<rparr>) = []" by (simp add: new_signed_transaction_def)
  then show ?thesis using blank_packs[of "hash sample_env" c e]
    by (auto simp: sign_transaction_def sig_digest_def fc_map_def b)
qed

lemma sample_signed:
  assumes "signable_setExpiration (isoDate sample_env (addSecs 10 now)) s = Some s0"
  shows "\<exists>sig. signTransaction sample_env now (Some new_chain) (Some s) key = (Inr (), Some (addSignature sig s0))"
proof -
  obtain cid where c: "sha256_of_hex (chainId new_chain) = Inr cid"
    by (simp add: new_chain_def sha256_of_hex_def numeral_eq_Suc fc_map_def)
  obtain sig where "sign_transaction sample_env key cid (new_signed_transaction\<lparr>expiration :=
      tally_date (toString (jmember (signableJson s0) ''expiration''))\<rparr>) = Inr sig"
    using sample_signs by blast
  then show ?thesis using assms c by (intro exI[of _ sig]) (simp add: signTransaction_def sample_fc_def)
qed

lemma signing_outcomes_witness:
  "\<exists>s'. signTransaction sample_env 0 (Some new_chain) (Some (new_SignableTransaction [])) ''k'' = (Inr (), Some s') \<and>
    (\<exists>sig. listed_signatures s' = [JStr sig])"
proof -
  obtain s0 where s0: "signable_setExpiration (isoDate sample_env (addSecs 10 0)) (new_SignableTransaction []) = Some s0"
    by (simp add: signable_setExpiration_def sample_fc_def addSecs_def toSecsSinceEpoch_def)
  obtain sig where sig: "signTransaction sample_env 0 (Some new_chain) (Some (new_SignableTransaction [])) ''k'' =
      (Inr (), Some (addSignature sig s0))"
    using sample_signed[OF s0] by blast
  have "listed_signatures (new_SignableTransaction []) = []"
    by (simp add: listed_signatures_def new_SignableTransaction_def jmember_def toArray_def)
  then show ?thesis using signing_outcomes[OF sig] sig by auto
qed

theorem second_signature_orphans_first_witness:
  "\<exists>sig1 sig2 s2 cid t1 t. listed_signatures s2 = [JStr sig1, JStr sig2] \<and>
    sign_transaction sample_env ''a'' cid t1 = Inr sig1 \<and>
    transactionFromJson sample_env (signableJson s2) = Inr t \<and> expiration t1 \<noteq> expiration t"
proof -
  have iso: "isoDate sample_env (addSecs 10 0) = replicate 10 (CHR ''1'')"
    "isoDate sample_env (addSecs 10 1000) = replicate 11 (CHR ''1'')"
    by (simp_all add: sample_fc_def addSecs_def toSecsSinceEpoch_def)
  obtain s0 where s0: "signable_setExpiration (isoDate sample_env (addSecs 10 0)) (new_SignableTransaction []) = Some s0"
    unfolding iso by (simp add: signable_setExpiration_def)
  obtain sig1 where 1: "signTransaction sample_env 0 (Some new_chain) (Some (new_SignableTransaction [])) ''a'' =
      (Inr (), Some (addSignature sig1 s0))"
    using sample_signed[OF s0] by blast
  obtain s3 where s3: "signable_setExpiration (isoDate sample_env (addSecs 10 1000)) (addSignature sig1 s0) = Some s3"
    unfolding iso by (simp add: signable_setExpiration_def)
  obtain sig2 where 2: "signTransaction sample_env 1000 (Some new_chain) (Some (addSignature sig1 s0)) ''b'' =
      (Inr (), Some (addSignature sig2 s3))"
    using sample_signed[OF s3] by blast
  let ?t = "new_signed_transaction\<lparr>expiration :=
      tally_date (toString (jmember (signableJson (addSignature sig2 s3)) ''expiration''))\<rparr>"
  have final: "transactionFromJson sample_env (signableJson (addSignature sig2 s3)) = Inr ?t"
    by (simp add: sample_fc_def)
  have reads: "\<forall>js t d. transactionFromJson sample_env js = Inr t \<longrightarrow> jmember js ''expiration'' = JStr d \<longrightarrow>
      expiration t = tally_date d"
    by (auto simp: sample_fc_def toString_def)
  have differ: "tally_date (date_text (isoDate sample_env (addSecs 10 0))) \<noteq>
      tally_date (date_text (isoDate sample_env (addSecs 10 1000)))"
    unfolding iso by (simp add: date_text_def tally_date_def)
  have key: "keyFromText sample_env ''a'' = Inr ''a''" by (simp add: sample_fc_def)
  have none: "listed_signatures (new_SignableTransaction []) = []"
    by (simp add: listed_signatures_def new_SignableTransaction_def jmember_def toArray_def)
  show ?thesis
    using second_signature_orphans_first[OF 1 2 reads differ final] final key unfolding none append_Nil by (metis sum.inject(2))
qed

theorem prepared_fields_wrap_witness:
  "\<exists>x. transactionToJson sample_env x =
       Inr [(''expiration'', JStr (replicate (unat (expiration x)) (CHR ''1'')))] \<and>
     unat (max_net_usage_words x) = 5 \<and> uint (expiration x) = 10"
proof -
  let ?t = "new_MutableTransaction\<lparr>trxMaxNetWords := 0x100000005\<rparr>"
  have "\<exists>s. prepareForSigning sample_args_json sample_env 0 (Some new_chain) (Some ?t) =
      (Inr (Some s), Some (with_defaults 0 new_chain ?t))"
    by (simp add: prepareForSigning_step Let_def with_defaults_fields new_MutableTransaction_def new_chain_def
        sha256_of_hex_def numeral_eq_Suc fc_map_def sample_fc_def)
  then obtain s where s: "prepareForSigning sample_args_json sample_env 0 (Some new_chain) (Some ?t) =
      (Inr (Some s), Some (with_defaults 0 new_chain ?t))" by blast
  show ?thesis using prepared_fields_wrap[OF s]
    by (auto simp: new_MutableTransaction_def toSecsSinceEpoch_def sample_fc_def)
qed
end
