(* ===== verification/BroadcastProofs.thy ===== *)
theory BroadcastProofs
  imports Broadcast
begin

text \<open>
  The life of a broadcast transaction: which states it reaches and by what, how a block decides, and
  where the loop over the block's entries and repeated requests lead it astray.
\<close>

subsection \<open>Fields\<close>

lemma bc_fields [simp]:
  "bcStatus (bc_emit s b) = bcStatus b" "bcId (bc_emit s b) = bcId b"
  "bcBlockNumber (bc_emit s b) = bcBlockNumber b" "bcConnections (bc_emit s b) = bcConnections b"
  "bcRequests (bc_emit s b) = bcRequests b" "bcSignals (bc_emit s b) = bcSignals b @ [s]"
  "bcHasBlockchain (bc_emit s b) = bcHasBlockchain b"
  "bcStatus (set_status st b) = st" "bcId (set_status st b) = bcId b"
  "bcBlockNumber (set_status st b) = bcBlockNumber b" "bcConnections (set_status st b) = bcConnections b"
  "bcRequests (set_status st b) = bcRequests b" "bcSignals (set_status st b) = bcSignals b @ [StatusChanged st]"
  "bcHasBlockchain (set_status st b) = bcHasBlockchain b"
  by (simp_all add: bc_emit_def set_status_def)

lemma headBlockChanged_fields [simp]:
  "bcStatus (headBlockChanged h b) = bcStatus b" "bcId (headBlockChanged h b) = bcId b"
  "bcBlockNumber (headBlockChanged h b) = bcBlockNumber b" "bcSignals (headBlockChanged h b) = bcSignals b"
  by (simp_all add: headBlockChanged_def Let_def)

lemma head_block_signal_fields [simp]:
  "bcStatus (head_block_signal n h b) = bcStatus b" "bcId (head_block_signal n h b) = bcId b"
  "bcBlockNumber (head_block_signal n h b) = bcBlockNumber b" "bcSignals (head_block_signal n h b) = bcSignals b"
  by (induction n h b rule: head_block_signal.induct) (simp_all add: Let_def)

lemma check_entries_fields [simp]:
  "bcId (check_entries trxs b) = bcId b" "bcBlockNumber (check_entries trxs b) = bcBlockNumber b"
  "bcConnections (check_entries trxs b) = bcConnections b" "bcRequests (check_entries trxs b) = bcRequests b"
  by (induction trxs b rule: check_entries.induct) (simp_all split: option.split)

lemma block_reply_fields [simp]:
  "bcId (block_reply f r b) = bcId b" "bcBlockNumber (block_reply f r b) = bcBlockNumber b"
  "bcConnections (block_reply f r b) = bcConnections b" "bcRequests (block_reply f r b) = bcRequests b"
  by (simp_all add: block_reply_def)

subsection \<open>What the block says\<close>

text \<open>The id of the first entry that has one.\<close>

definition first_id :: "json list \<Rightarrow> string option" where
  "first_id trxs = (case filter (\<lambda>t. entry_id t \<noteq> None) trxs of t # _ \<Rightarrow> entry_id t | [] \<Rightarrow> None)"

lemma first_id_simps [simp]:
  "first_id [] = None"
  "first_id (t # ts) = (case entry_id t of Some i \<Rightarrow> Some i | None \<Rightarrow> first_id ts)"
  by (auto simp: first_id_def split: option.split)

lemma check_entries_eq:
  "check_entries trxs b =
     (if first_id trxs = Some (bcId b) then bc_emit BroadcastIrreversible (set_status Irreversible b)
      else set_status Unknown b)"
  by (induction trxs b rule: check_entries.induct) (auto split: option.split)

lemma block_reply_status:
  "bcStatus (block_reply False response b) =
     (if isArray (jmember response Transactions) \<and> first_id (toArray (jmember response Transactions)) = Some (bcId b)
      then Irreversible else Unknown)"
  by (auto simp: block_reply_def check_entries_eq jcontains_def jmember_def isArray_def split: option.split)

definition entry :: "string \<Rightarrow> json" where
  "entry i = JObj [(Trx, JObj [(Id_str, JStr i)])]"

lemma entry_id_entry [simp]: "entry_id (entry i) = Some i"
  by (simp add: entry_id_def entry_def isObject_def isString_def toObject_def toString_def jmember_def jcontains_def)

text \<open>
  C20. A block settles a transaction by its first entry that carries an id: the transaction is
  irreversible if that id is its own, and of unknown status in every other case, also when its own
  entry comes later in the block.
\<close>

theorem block_settles_by_first_entry:
  assumes "jmember response Transactions = JArr trxs"
  shows "bcStatus (block_reply False response b) = (if first_id trxs = Some (bcId b) then Irreversible else Unknown) \<and>
    (\<forall>pre j mid post. trxs = pre @ entry j # mid @ entry (bcId b) # post \<longrightarrow> j \<noteq> bcId b \<longrightarrow>
       (\<forall>t \<in> set pre. entry_id t = None) \<longrightarrow> bcStatus (block_reply False response b) = Unknown)"
proof -
  have st: "bcStatus (block_reply False response b) = (if first_id trxs = Some (bcId b) then Irreversible else Unknown)"
    using assms by (simp add: block_reply_status isArray_def toArray_def)
  have skip: "first_id (pre @ entry j # rest) = Some j" if "\<forall>t \<in> set pre. entry_id t = None" for pre j rest
    using that by (induction pre) simp_all
  show ?thesis unfolding st using skip by auto
qed

theorem block_settles_by_first_entry_witness:
  "bcStatus (block_reply False [(Transactions, JArr [entry ''aa''])] (new_broadcast True ''aa'')) = Irreversible \<and>
   bcStatus (block_reply False [(Transactions, JArr [entry ''bb'', entry ''aa''])] (new_broadcast True ''aa'')) = Unknown"
proof -
  have m: "jmember [(Transactions, JArr xs)] Transactions = JArr xs" for xs by (simp add: jmember_def)
  show ?thesis
    using block_settles_by_first_entry[OF m, of "[entry ''aa'']" "new_broadcast True ''aa''"]
      block_settles_by_first_entry[OF m, of "[entry ''bb'', entry ''aa'']" "new_broadcast True ''aa''"]
    by (simp add: new_broadcast_def)
qed

subsection \<open>The life cycle\<close>

text \<open>The status last announced.\<close>

fun status_after :: "TransactionStatus \<Rightarrow> broadcast_signal list \<Rightarrow> TransactionStatus" where
  "status_after st [] = st"
| "status_after st (StatusChanged st' # ss) = status_after st' ss"
| "status_after st (s # ss) = status_after st ss"

definition last_status :: "broadcast_signal list \<Rightarrow> TransactionStatus" where
  "last_status ss = status_after Pending ss"

lemma status_after_append [simp]: "status_after st (ss @ ss') = status_after (status_after st ss) ss'"
  by (induction st ss rule: status_after.induct) simp_all

lemma last_status_simps [simp]:
  "last_status [] = Pending" "last_status (ss @ ss') = status_after (last_status ss) ss'"
  by (simp_all add: last_status_def)

definition bc_invariant :: "string \<Rightarrow> bool \<Rightarrow> broadcast \<Rightarrow> bool" where
  "bc_invariant i replied b \<longleftrightarrow> bcId b = i \<and> bcStatus b = last_status (bcSignals b) \<and>
     bcStatus b \<in> {Pending, Confirmed, Irreversible, Failed, Unknown} \<and>
     (\<not> replied \<longrightarrow> bcStatus b = Pending \<and> bcConnections b = 0) \<and>
     bcConnections b \<le> 1 \<and>
     (bcStatus b \<in> {Pending, Failed} \<longrightarrow> bcRequests b = []) \<and>
     (bcStatus b \<in> {Confirmed, Irreversible, Unknown} \<longrightarrow> BroadcastConfirmed (bcBlockNumber b) i \<in> set (bcSignals b)) \<and>
     (\<forall>n \<in> set (bcRequests b). n = bcBlockNumber b)"

lemma bc_invariant_reply:
  assumes "bc_invariant i False b"
  shows "bc_invariant i True (broadcastFinished Q response b)"
proof -
  have b: "bcStatus b = Pending" "bcConnections b = 0" "bcRequests b = []" "bcId b = i"
    "last_status (bcSignals b) = Pending"
    using assms unfolding bc_invariant_def by auto
  show ?thesis
    unfolding bc_invariant_def broadcastFinished_def Let_def by (simp add: b)
qed

lemma head_once: "bcConnections b \<le> 1 \<Longrightarrow>
   head_block_signal (bcConnections b) h b = (if bcConnections b = 0 then b else headBlockChanged h b)"
  by (cases "bcConnections b") (auto simp: Let_def)

lemma bc_invariant_head: "bc_invariant i r b \<Longrightarrow> bc_invariant i r (headBlockChanged h b)"
  by (auto simp: bc_invariant_def headBlockChanged_def Let_def)

lemma bc_invariant_block:
  assumes "bc_invariant i r b" "n \<in> set (bcRequests b)"
  shows "bc_invariant i r (block_reply f response (b\<lparr>bcRequests := remove1 n (bcRequests b)\<rparr>))"
proof -
  have some: "bcRequests b \<noteq> []" using assms(2) by auto
  have st: "bcStatus b \<in> {Confirmed, Irreversible, Unknown}" "bcConnections b \<le> 1" "bcId b = i" r
    "BroadcastConfirmed (bcBlockNumber b) i \<in> set (bcSignals b)" "bcStatus b = last_status (bcSignals b)"
    using assms(1) some unfolding bc_invariant_def by blast+
  have only: "\<forall>m \<in> set (remove1 n (bcRequests b)). m = bcBlockNumber b"
    using assms notin_set_remove1 unfolding bc_invariant_def by fastforce
  have same: "bc_invariant i r (b\<lparr>bcRequests := remove1 n (bcRequests b)\<rparr>)"
    using st only unfolding bc_invariant_def by auto
  have moved: "bc_invariant i r (set_status s (b\<lparr>bcRequests := remove1 n (bcRequests b)\<rparr>))"
    "bc_invariant i r (bc_emit BroadcastIrreversible (set_status s (b\<lparr>bcRequests := remove1 n (bcRequests b)\<rparr>)))"
    if "s \<in> {Irreversible, Unknown}" for s
    using st(2-5) only that unfolding bc_invariant_def by auto
  show ?thesis
    unfolding block_reply_def check_entries_eq using same moved by simp
qed

lemma bc_reachable_invariant: "bc_reachable Q i r b \<Longrightarrow> bc_invariant i r b"
proof (induction rule: bc_reachable.induct)
  case (bc_head r b head)
  then have "bcConnections b \<le> 1" by (simp add: bc_invariant_def)
  then show ?case using bc_head.IH bc_invariant_head by (simp add: bc_apply_def head_once)
qed (simp_all add: bc_apply_def bc_invariant_reply bc_invariant_block, simp add: bc_invariant_def new_broadcast_def)

text \<open>
  C16. In every reachable state the status is the one last announced, a transaction that is confirmed,
  irreversible or unknown was confirmed in the block its number names, only that block is ever
  requested, nothing is requested for a pending or failed transaction, and no transaction listens
  twice to head blocks.
\<close>

theorem broadcast_life_cycle:
  assumes "bc_reachable Q i r b"
  shows "bcStatus b = last_status (bcSignals b) \<and> bcStatus b \<notin> {Draft, Authorizing} \<and>
    (bcStatus b \<in> {Confirmed, Irreversible, Unknown} \<longrightarrow> BroadcastConfirmed (bcBlockNumber b) i \<in> set (bcSignals b)) \<and>
    (\<forall>n \<in> set (bcRequests b). n = bcBlockNumber b) \<and>
    (bcStatus b \<in> {Pending, Failed} \<longrightarrow> bcRequests b = []) \<and> bcConnections b \<le> 1"
  using bc_reachable_invariant[OF assms] by (auto simp: bc_invariant_def)

definition confirming :: "uint64 \<Rightarrow> (string \<times> json) list" where
  "confirming n = [(Processed, JObj [(BlockNum, JNum (uint n))])]"

text \<open>The conversion of a JSON number to an unsigned one, as Qt documents it.\<close>

definition number_qt :: qt where
  "number_qt = \<lparr>cvULong = (\<lambda>v. case v of QLong n \<Rightarrow> word_of_int n | _ \<Rightarrow> 0), cvUInt = (\<lambda>_. 0),
     cvStr = (\<lambda>_. []), cvStrList = (\<lambda>_. []), cvEq = (\<lambda>_ _. False), cvJson = (\<lambda>_. JNull)\<rparr>"

definition sent :: broadcast where
  "sent = broadcastFinished number_qt (confirming 90) (new_broadcast True ''aa'')"

lemma sent_eq:
  "sent = \<lparr>bcId = ''aa'', bcStatus = Confirmed, bcBlockNumber = 90, bcHasBlockchain = True,
     bcConnections = 1, bcRequests = [],
     bcSignals = [StatusChanged Confirmed, BlockNumberChanged 90, BroadcastConfirmed 90 ''aa'']\<rparr>"
  by (simp add: sent_def confirming_def broadcastFinished_def new_broadcast_def Let_def jcontains_def jmember_def
    toObject_def as_ulong_def number_qt_def bc_emit_def set_status_def Processed_def Error_str_def BlockNum_def)

lemma sent_reachable: "bc_reachable number_qt ''aa'' True sent"
  using bc_reply[OF bc_start, of number_qt "''aa''" "confirming 90" True] by (simp add: bc_apply_def sent_def)

theorem broadcast_life_cycle_witness:
  "bcStatus sent = Confirmed \<and> BroadcastConfirmed 90 ''aa'' \<in> set (bcSignals sent)"
  using broadcast_life_cycle[OF sent_reachable] by (simp add: sent_eq)

text \<open>
  A confirmed transaction asks for its block as soon as the head of the chain reaches it, whatever
  block is irreversible, and the reply naming it first makes it irreversible.
\<close>

lemma head_block_fetches_and_settles:
  assumes "bc_reachable Q i r b" "bcStatus b = Confirmed" "bcConnections b \<noteq> 0" "bcBlockNumber b \<le> head"
    "jmember response Transactions = JArr (entry i # trxs)"
  shows "bcRequests (bc_apply Q (HeadBlock head) b) = bcRequests b @ [bcBlockNumber b] \<and>
    bcStatus (bc_apply Q (BlockReply (bcBlockNumber b) False response) (bc_apply Q (HeadBlock head) b)) = Irreversible"
proof -
  have inv: "bcConnections b \<le> 1" "bcId b = i"
    using bc_reachable_invariant[OF assms(1)] by (simp_all add: bc_invariant_def)
  then have "bc_apply Q (HeadBlock head) b = headBlockChanged head b"
    using assms(3) by (simp add: bc_apply_def head_once)
  moreover have "bcRequests (headBlockChanged head b) = bcRequests b @ [bcBlockNumber b]"
    using assms(2,4) by (simp add: headBlockChanged_def Let_def)
  ultimately show ?thesis
    using inv assms(5) by (simp add: bc_apply_def block_reply_status isArray_def toArray_def)
qed

lemma head_block_fetches_and_settles_witness:
  "bcRequests (bc_apply number_qt (HeadBlock 90) sent) = [90]"
proof -
  have "bcStatus sent = Confirmed" "bcConnections sent \<noteq> 0" "bcBlockNumber sent \<le> 90"
    by (simp_all add: sent_eq)
  moreover have "jmember [(Transactions, JArr [entry ''aa''])] Transactions = JArr [entry ''aa'']"
    by (simp add: jmember_def)
  ultimately show ?thesis
    using head_block_fetches_and_settles[OF sent_reachable, of 90 "[(Transactions, JArr [entry ''aa''])]" "[]"]
    by (simp add: sent_eq)
qed

text \<open>
  C30. When two head blocks arrive before the first block reply, the second reply is applied to an
  irreversible transaction as well: a reply without transactions turns it back to unknown, after
  \<open>broadcastIrreversible\<close> was announced.
\<close>

theorem irreversible_can_be_lost:
  assumes "bc_reachable Q i r b" "bcStatus b = Confirmed" "bcConnections b \<noteq> 0"
    "bcBlockNumber b \<le> h1" "bcBlockNumber b \<le> h2"
    "jmember good Transactions = JArr (entry i # trxs)" "\<not> isArray (jmember bad Transactions)"
  shows "let b1 = bc_apply Q (HeadBlock h2) (bc_apply Q (HeadBlock h1) b);
             b2 = bc_apply Q (BlockReply (bcBlockNumber b) False good) b1;
             b3 = bc_apply Q (BlockReply (bcBlockNumber b) False bad) b2
         in bc_reachable Q i r b3 \<and> bcStatus b2 = Irreversible \<and> bcStatus b3 = Unknown \<and>
            BroadcastIrreversible \<in> set (bcSignals b3)"
proof -
  define b1 where "b1 = bc_apply Q (HeadBlock h2) (bc_apply Q (HeadBlock h1) b)"
  define b2 where "b2 = bc_apply Q (BlockReply (bcBlockNumber b) False good) b1"
  define b3 where "b3 = bc_apply Q (BlockReply (bcBlockNumber b) False bad) b2"
  have inv: "bcConnections b \<le> 1" "bcId b = i"
    using bc_reachable_invariant[OF assms(1)] by (simp_all add: bc_invariant_def)
  have once: "bc_apply Q (HeadBlock h) c = headBlockChanged h c" if "bcConnections c = 1" for h c
    using head_once[of c h] that by (simp add: bc_apply_def del: head_block_signal.simps)
  have hb: "headBlockChanged h c = c\<lparr>bcHasBlockchain := True, bcRequests := bcRequests c @ [bcBlockNumber c]\<rparr>"
    if "bcStatus c = Confirmed" "bcBlockNumber c \<le> h" for h c
    using that by (simp add: headBlockChanged_def Let_def)
  have b1: "b1 = b\<lparr>bcHasBlockchain := True, bcRequests := bcRequests b @ [bcBlockNumber b, bcBlockNumber b]\<rparr>"
    unfolding b1_def using inv assms(2-5) by (simp add: once hb)
  have reach1: "bc_reachable Q i r b1" unfolding b1_def using assms(1) by (intro bc_head)
  have good: "isArray (jmember good Transactions)" "first_id (toArray (jmember good Transactions)) = Some i"
    "jcontains good Transactions"
    using assms(6) by (auto simp: isArray_def toArray_def jcontains_def jmember_def split: option.splits)
  have b2: "bcStatus b2 = Irreversible" "bcId b2 = i" "BroadcastIrreversible \<in> set (bcSignals b2)"
    unfolding b2_def bc_apply_def using good inv by (simp_all add: b1 block_reply_status block_reply_def check_entries_eq)
  have req: "bcBlockNumber b \<in> set (bcRequests b2)" "bcBlockNumber b \<in> set (bcRequests b1)"
    unfolding b2_def bc_apply_def by (simp_all add: b1 remove1_append)
  have b3: "bcStatus b3 = Unknown" "BroadcastIrreversible \<in> set (bcSignals b3)"
    unfolding b3_def bc_apply_def using assms(7) b2(3) by (simp_all add: block_reply_status block_reply_def)
  have "bc_reachable Q i r b3" unfolding b3_def b2_def using reach1 req b2_def by (intro bc_block) simp_all
  then show ?thesis using b2 b3 unfolding Let_def b1_def[symmetric] b2_def[symmetric] b3_def[symmetric] by simp
qed

theorem irreversible_can_be_lost_witness:
  "\<exists>b. bc_reachable number_qt ''aa'' True b \<and> bcStatus b = Unknown \<and> BroadcastIrreversible \<in> set (bcSignals b)"
proof -
  have "bcStatus sent = Confirmed" "bcConnections sent \<noteq> 0" "bcBlockNumber sent \<le> 90" "bcBlockNumber sent \<le> 91"
    by (simp_all add: sent_eq)
  moreover have "jmember [(Transactions, JArr [entry ''aa''])] Transactions = JArr [entry ''aa'']"
    "\<not> isArray (jmember [] Transactions)"
    by (simp_all add: jmember_def isArray_def)
  ultimately show ?thesis
    using irreversible_can_be_lost[OF sent_reachable, of 90 91 "[(Transactions, JArr [entry ''aa''])]" "[]" "[]"]
    by (auto simp: Let_def)
qed

text \<open>
  A reply without an error and without the number of a block leaves the transaction pending, and
  no later head block changes that: the first one ends the connection.
\<close>

lemma unprocessed_reply_stays_pending:
  assumes "bc_reachable Q i False b" "\<not> jcontains response Error_str"
    "\<not> jcontains (toObject (jmember response Processed)) BlockNum"
  shows "let b' = fold (\<lambda>h. bc_apply Q (HeadBlock h)) heads (broadcastFinished Q response b)
    in bcStatus b' = Pending \<and> bcRequests b' = [] \<and> (heads \<noteq> [] \<longrightarrow> bcConnections b' = 0)"
proof -
  have inv: "bcStatus b = Pending" "bcConnections b = 0" "bcRequests b = []"
    using bc_reachable_invariant[OF assms(1)] by (auto simp: bc_invariant_def)
  define c where "c = broadcastFinished Q response b"
  have c: "bcStatus c = Pending" "bcConnections c \<le> 1" "bcRequests c = []"
    using assms(2,3) inv by (auto simp: c_def broadcastFinished_def Let_def)
  have step: "bcStatus (bc_apply Q (HeadBlock h) d) = Pending \<and> bcConnections (bc_apply Q (HeadBlock h) d) = 0 \<and>
      bcRequests (bc_apply Q (HeadBlock h) d) = []"
    if "bcStatus d = Pending" "bcConnections d \<le> 1" "bcRequests d = []" for h d
    using that by (simp add: bc_apply_def head_once headBlockChanged_def)
  have "bcStatus (fold (\<lambda>h. bc_apply Q (HeadBlock h)) heads d) = Pending \<and>
      bcRequests (fold (\<lambda>h. bc_apply Q (HeadBlock h)) heads d) = [] \<and>
      (heads \<noteq> [] \<or> bcConnections d = 0 \<longrightarrow> bcConnections (fold (\<lambda>h. bc_apply Q (HeadBlock h)) heads d) = 0)"
    if "bcStatus d = Pending" "bcConnections d \<le> 1" "bcRequests d = []" for d
    using that by (induction heads arbitrary: d) (use step in simp_all)
  from this[OF c] show ?thesis by (simp add: c_def[symmetric] Let_def)
qed

lemma unprocessed_reply_stays_pending_witness:
  "bcStatus (fold (\<lambda>h. bc_apply number_qt (HeadBlock h)) [1, 2] (broadcastFinished number_qt [] (new_broadcast True ''aa''))) = Pending"
  using unprocessed_reply_stays_pending[OF bc_start[of number_qt "''aa''" True], of "[]" "[1, 2]"]
  by (simp add: jcontains_def jmember_def toObject_def Let_def)

end
