(* ===== verification/TransactionJourney.thy ===== *)
theory TransactionJourney
  imports SigningProofs BroadcastProofs
begin

text \<open>
  A transaction from the interface to the chain: built, prepared, signed, packed, sent, confirmed and
  settled.  What is broadcast is what was built, under a signature that fits it.
\<close>

text \<open>
  What the journey needs of fc's conversion between transactions and JSON, for one transaction \<open>x\<close>, the
  text \<open>d\<close> of its new expiration and the signature made with \<open>key\<close>: the JSON of \<open>x\<close> lists its signatures;
  and where fc reads this JSON with \<open>d\<close> as expiration, and then with the signature as its signatures, it
  reads \<open>x\<close> with the date that \<open>d\<close> stands for, and with that signature.  Nothing is asked of a text that
  fc refuses, or of any other transaction.
\<close>

definition json_keeps ::
  "'key fc_env \<Rightarrow> (string \<Rightarrow> uint32) \<Rightarrow> string \<Rightarrow> string \<Rightarrow> string \<Rightarrow> signed_transaction \<Rightarrow> bool" where
  "json_keeps E readDate key chain d x \<longleftrightarrow>
     (\<forall>js. transactionToJson E x = Inr js \<longrightarrow> toArray (jmember js ''signatures'') = map JStr (signatures x) \<and>
        (\<forall>y. transactionFromJson E (jinsert ''expiration'' (JStr d) js) = Inr y \<longrightarrow> y = x\<lparr>expiration := readDate d\<rparr>) \<and>
        (\<forall>k cid sig y. keyFromText E key = Inr k \<longrightarrow> sha256_of_hex chain = Inr cid \<longrightarrow>
           sign_transaction E k cid (x\<lparr>expiration := readDate d\<rparr>) = Inr sig \<longrightarrow>
           transactionFromJson E (jinsert ''signatures'' (JArr [JStr sig]) (jinsert ''expiration'' (JStr d) js)) = Inr y \<longrightarrow>
           y = x\<lparr>expiration := readDate d, signatures := [sig]\<rparr>))"

lemma json_keepsD:
  assumes "json_keeps E readDate key chain d x" "transactionToJson E x = Inr js"
  shows "toArray (jmember js ''signatures'') = map JStr (signatures x)"
    and "transactionFromJson E (jinsert ''expiration'' (JStr d) js) = Inr y \<Longrightarrow> y = x\<lparr>expiration := readDate d\<rparr>"
    and "keyFromText E key = Inr k \<Longrightarrow> sha256_of_hex chain = Inr cid \<Longrightarrow>
      sign_transaction E k cid (x\<lparr>expiration := readDate d\<rparr>) = Inr sig \<Longrightarrow>
      transactionFromJson E (jinsert ''signatures'' (JArr [JStr sig]) (jinsert ''expiration'' (JStr d) js)) = Inr y \<Longrightarrow>
      y = x\<lparr>expiration := readDate d, signatures := [sig]\<rparr>"
  using assms unfolding json_keeps_def by blast+

text \<open>The signature is not part of what is signed.\<close>

lemma base_of_signed [simp]:
  "base_transaction (x\<lparr>signatures := sigs\<rparr>) = base_transaction x" "context_free_data (x\<lparr>signatures := sigs\<rparr>) = context_free_data x"
  by (simp_all add: base_transaction_def transaction.truncate_def)

lemma sign_of_signed [simp]: "sign_transaction E k cid (x\<lparr>signatures := sigs\<rparr>) = sign_transaction E k cid x"
  by (simp add: sign_transaction_def)

lemma transaction_fields_unsigned [simp]:
  "signatures (transaction_fields t h acts) = []" "context_free_data (transaction_fields t h acts) = []"
  by (simp_all add: transaction_fields_def Let_def set_reference_block_def new_signed_transaction_def)

lemma signed_json:
  assumes keeps: "json_keeps E readDate key (chainId c) (date_text (isoDate E (addSecs 10 now))) x"
    and js: "transactionToJson E x = Inr js" and "signatures x = []"
    and "signTransaction E now (Some c) (Some (new_SignableTransaction js)) key = (Inr (), Some s)"
    and "transactionFromJson E (signableJson s) = Inr y"
  obtains k cid sig where "keyFromText E key = Inr k" "sha256_of_hex (chainId c) = Inr cid"
    "y = x\<lparr>expiration := readDate (date_text (isoDate E (addSecs 10 now))), signatures := [sig]\<rparr>"
    "sign_transaction E k cid y = Inr sig"
proof -
  obtain s1 k t cid sig where 1: "s = addSignature sig s1"
      "signable_setExpiration (isoDate E (addSecs 10 now)) (new_SignableTransaction js) = Some s1" "keyFromText E key = Inr k"
      "transactionFromJson E (signableJson s1) = Inr t" "sha256_of_hex (chainId c) = Inr cid"
      "sign_transaction E k cid t = Inr sig"
    using assms(4) by (rule signTransaction_cases) auto
  define d where "d = date_text (isoDate E (addSecs 10 now))"
  have js1: "signableJson s1 = jinsert ''expiration'' (JStr d) js"
    using 1(2) by (auto simp: signable_setExpiration_def new_SignableTransaction_def d_def date_text_def split: if_splits)
  have t: "t = x\<lparr>expiration := readDate d\<rparr>"
    using 1(4) unfolding js1 by (rule json_keepsD(2)[OF keeps[folded d_def] js])
  have "toArray (jmember (signableJson s1) ''signatures'') = []"
    using json_keepsD(1)[OF keeps js] assms(3) by (simp add: js1 jmember_def)
  then have js2: "signableJson s = jinsert ''signatures'' (JArr [JStr sig]) (jinsert ''expiration'' (JStr d) js)"
    by (simp add: 1(1) addSignature_def Let_def js1)
  have "y = x\<lparr>expiration := readDate d, signatures := [sig]\<rparr>"
    by (rule json_keepsD(3)[OF keeps[folded d_def] js 1(3,5) 1(6)[unfolded t] assms(5)[unfolded js2]])
  then show thesis using that[OF 1(3,5), of sig] 1(6) t by (simp add: d_def)
qed

text \<open>The node's reply says that the transaction is in block \<open>n\<close>.\<close>

definition confirms :: "qt \<Rightarrow> uint64 \<Rightarrow> (string \<times> json) list \<Rightarrow> bool" where
  "confirms Q n response \<longleftrightarrow> \<not> jcontains response Error_str \<and> jcontains response Processed \<and>
     jcontains (toObject (jmember response Processed)) BlockNum \<and>
     as_ulong Q (json_variant (jmember (toObject (jmember response Processed)) BlockNum)) = n"

lemma confirmed_journey:
  assumes "confirms Q n response" "n \<le> head" "jmember block Transactions = JArr (entry i # trxs)"
  shows "bcStatus (bc_apply Q (BlockReply n False block) (bc_apply Q (HeadBlock head)
    (bc_apply Q (BroadcastReply response) (new_broadcast True i)))) = Irreversible"
proof -
  define b where "b = bc_apply Q (BroadcastReply response) (new_broadcast True i)"
  have b: "bcStatus b = Confirmed" "bcConnections b = 1" "bcBlockNumber b = n"
    using assms(1) by (simp_all add: b_def bc_apply_def confirms_def broadcastFinished_def Let_def new_broadcast_def
        bc_emit_def set_status_def)
  have "bc_reachable Q i True b" unfolding b_def by (rule bc_reply[OF bc_start])
  from head_block_fetches_and_settles[OF this b(1) _ _ assms(3), of head] show ?thesis
    using b assms(2) by (simp add: b_def[symmetric])
qed

text \<open>
  C6. A transaction that was built through the interface, prepared, signed once and packed is sent as
  it was built: its actions are those of the interface, in order, in their binary form; its one
  signature was made over the digest of exactly the bytes that are sent; the bytes can be read back
  before they are compressed; and the object that follows the transaction has the hash of these bytes
  as its id.  Once the node confirms it, the head of the chain reaches its block, and the block names
  it first, it is irreversible.  All this for runs in which the three calls succeed, and provided
  \<open>json_keeps\<close>: where fc reads the JSON it wrote for this very transaction, with the new expiration and
  the new signature put in, it reads this transaction.
\<close>

theorem broadcast_carries_signed:
  assumes "prepareForSigning J E now (Some c) (Some m) = (Inr (Some s), Some m')"
    and "signTransaction E now' (Some c) (Some s) key = (Inr (), Some s')"
    and "prepareForBroadcast E (Some c) (Some s') = Inr (Some (b, js))"
    and "\<forall>h acts. fromQList J (trxObjects m) (trxActions m) = Inr acts \<longrightarrow>
      json_keeps E readDate key (chainId c) (date_text (isoDate E (addSecs 10 now')))
        (transaction_fields (with_defaults now c m) h acts)"
  shows "\<exists>x bin k cid sig p. pack_transaction (base_transaction x) = Inr bin \<and>
    unpack_transaction bin = Inr (base_transaction x, []) \<and>
    list_all2 (\<lambda>q a. \<exists>act. trxObjects m q = Some act \<and> make_action J (Some act) = Inr a) (trxActions m) (actions x) \<and>
    expiration x = readDate (date_text (isoDate E (addSecs 10 now'))) \<and>
    keyFromText E key = Inr k \<and> sha256_of_hex (chainId c) = Inr cid \<and> sign_transaction E k cid x = Inr sig \<and>
    b = new_broadcast True (to_hex (hash E bin)) \<and> packedToJson E p = Inr js \<and>
    ptTrx p = zlib E bin \<and> ptSignatures p = [sig] \<and> ptCompression p = CompressionZlib \<and> ptContextFreeData p = [] \<and>
    (\<forall>Q n response head block trxs. confirms Q n response \<longrightarrow> n \<le> head \<longrightarrow>
       jmember block Transactions = JArr (entry (to_hex (hash E bin)) # trxs) \<longrightarrow>
       bcStatus (bc_apply Q (BlockReply n False block) (bc_apply Q (HeadBlock head)
         (bc_apply Q (BroadcastReply response) b))) = Irreversible)"
proof -
  obtain h acts js0 where prep: "fromQList J (trxObjects m) (trxActions m) = Inr acts"
    "transactionToJson E (transaction_fields (with_defaults now c m) h acts) = Inr js0" "s = new_SignableTransaction js0"
    using assms(1) by (rule prepared_cases)
  define x where "x = transaction_fields (with_defaults now c m) h acts"
  have keeps: "json_keeps E readDate key (chainId c) (date_text (isoDate E (addSecs 10 now'))) x"
    unfolding x_def using assms(4) prep(1) by blast
  obtain y p i where y0: "transactionFromJson E (signableJson s') = Inr y"
    and pi: "make_packed_transaction E y CompressionZlib = Inr p" "transaction_id (hash E) (base_transaction y) = Inr i"
    "packedToJson E p = Inr js" "b = new_broadcast True (to_hex i)"
    using assms(3) by (auto simp: prepareForBroadcast_def and_then_Inr)
  have unsigned: "signatures x = []" by (simp add: x_def)
  obtain k cid sig where y: "keyFromText E key = Inr k" "sha256_of_hex (chainId c) = Inr cid"
    "y = x\<lparr>expiration := readDate (date_text (isoDate E (addSecs 10 now'))), signatures := [sig]\<rparr>"
    "sign_transaction E k cid y = Inr sig"
    by (rule signed_json[OF keeps prep(2)[folded x_def] unsigned assms(2)[unfolded prep(3)] y0])
  have fields: "actions y = acts" "signatures y = [sig]" "context_free_data y = []"
    "expiration y = readDate (date_text (isoDate E (addSecs 10 now')))"
    by (simp_all add: y(3) x_def)
  obtain bin where bin: "pack_transaction (base_transaction y) = Inr bin" "i = hash E bin"
    using pi(2) by (auto simp: transaction_id_def fc_map_Inr)
  have p: "ptTrx p = zlib E bin" "ptSignatures p = [sig]" "ptCompression p = CompressionZlib" "ptContextFreeData p = []"
    using pi(1) fields(2,3)
    by (auto simp: make_packed_transaction_def and_then_Inr zlib_compress_transaction_def fc_map_Inr bin(1)
        zlib_compress_context_free_data_def)
  have "unpack_transaction bin = Inr (base_transaction y, [])" by (rule transaction_format.decodes[OF TrueI bin(1)])
  then show ?thesis
    using bin y(1,2,4) fields pi(3,4) p fromQList_all[OF prep(1)] confirmed_journey[of _ _ _ _ _ "to_hex i"] by blast
qed


text \<open>
  Concrete conversions: the members \<open>expiration\<close> and \<open>signatures\<close>, and the packed transaction as text.
\<close>

definition text_of_bytes :: "bytes \<Rightarrow> string" where
  "text_of_bytes bs = map byte_char bs"

definition full_to_json :: "signed_transaction \<Rightarrow> fc_fault + json_object" where
  "full_to_json x = (if context_free_data x \<noteq> [] then Inl BadVariant
     else fc_map (\<lambda>bin. [(''expiration'', JStr (replicate (unat (expiration x)) (CHR ''1''))),
                         (''signatures'', JArr (map JStr (signatures x))), (''trx'', JStr (text_of_bytes bin))])
       (pack_transaction (base_transaction x)))"

definition full_from_json :: "json_object \<Rightarrow> fc_fault + signed_transaction" where
  "full_from_json js =
     fc_map (\<lambda>(t, rest). (transaction.extend t \<lparr>signatures = map toString (toArray (jmember js ''signatures'')), context_free_data = []\<rparr>)
         \<lparr>expiration := tally_date (toString (jmember js ''expiration''))\<rparr>)
       (unpack_transaction (map of_char (toString (jmember js ''trx''))))"

definition full_env :: "string fc_env" where
  "full_env = (sample_fc (Inl BadVariant))\<lparr>transactionToJson := full_to_json, transactionFromJson := full_from_json\<rparr>"

lemma byte_of_byte_char [simp]: "of_char (byte_char b) = b"
proof -
  have "unat b < 256" using unsigned_less[of b, where ?'a = nat] by simp
  then have "(of_char (byte_char b) :: nat) = unat b" by (simp add: byte_char_def)
  then show ?thesis by (metis of_nat_of_char of_nat_unat ucast_id)
qed

lemma bytes_of_text [simp]: "map of_char (text_of_bytes bs) = (bs :: bytes)"
  by (simp add: text_of_bytes_def comp_def)

lemma toString_simps [simp]: "toString (JStr s) = s" "toArray (JArr xs) = xs" "map (toString \<circ> JStr) ys = ys"
  by (simp_all add: toString_def toArray_def comp_def)

lemma full_json:
  shows "transactionToJson full_env x = Inr js \<Longrightarrow> transactionFromJson full_env js = Inr x"
    and "transactionToJson full_env x = Inr js \<Longrightarrow> toArray (jmember js ''signatures'') = map JStr (signatures x)"
    and "transactionFromJson full_env js = Inr x \<Longrightarrow>
      transactionFromJson full_env (jinsert ''expiration'' (JStr d) js) = Inr (x\<lparr>expiration := tally_date d\<rparr>)"
    and "transactionFromJson full_env js = Inr x \<Longrightarrow>
      transactionFromJson full_env (jinsert ''signatures'' (JArr (map JStr sigs)) js) = Inr (x\<lparr>signatures := sigs\<rparr>)"
proof -
  assume "transactionToJson full_env x = Inr js"
  then obtain bin where bin: "pack_transaction (base_transaction x) = Inr bin" "context_free_data x = []"
    "js = [(''expiration'', JStr (replicate (unat (expiration x)) (CHR ''1''))),
           (''signatures'', JArr (map JStr (signatures x))), (''trx'', JStr (text_of_bytes bin))]"
    by (auto simp: full_env_def full_to_json_def fc_map_Inr split: if_splits)
  have "unpack_transaction bin = Inr (base_transaction x, [])" by (rule transaction_format.decodes[OF TrueI bin(1)])
  then show "transactionFromJson full_env js = Inr x"
    using bin(2)
    by (simp add: full_env_def full_from_json_def bin(3) jmember_def fc_map_def tally_date_def base_transaction_def
        transaction.truncate_def transaction.extend_def)
  show "toArray (jmember js ''signatures'') = map JStr (signatures x)" by (simp add: bin(3) jmember_def)
next
  assume "transactionFromJson full_env js = Inr x"
  then show "transactionFromJson full_env (jinsert ''expiration'' (JStr d) js) = Inr (x\<lparr>expiration := tally_date d\<rparr>)"
    by (auto simp: full_env_def full_from_json_def jmember_def fc_map_Inr)
next
  assume "transactionFromJson full_env js = Inr x"
  then show "transactionFromJson full_env (jinsert ''signatures'' (JArr (map JStr sigs)) js) = Inr (x\<lparr>signatures := sigs\<rparr>)"
    by (auto simp: full_env_def full_from_json_def jmember_def fc_map_Inr transaction.extend_def)
qed

lemma full_json_keeps: "json_keeps full_env tally_date key chain d x"
  unfolding json_keeps_def
proof (intro allI impI conjI)
  fix js assume js: "transactionToJson full_env x = Inr js"
  note e = full_json(3)[OF full_json(1)[OF js], of d]
  show "toArray (jmember js ''signatures'') = map JStr (signatures x)" using js by (rule full_json(2))
  show "y = x\<lparr>expiration := tally_date d\<rparr>" if "transactionFromJson full_env (jinsert ''expiration'' (JStr d) js) = Inr y" for y
    using that e by simp
  show "y = x\<lparr>expiration := tally_date d, signatures := [sig]\<rparr>"
    if "transactionFromJson full_env (jinsert ''signatures'' (JArr [JStr sig]) (jinsert ''expiration'' (JStr d) js)) = Inr y" for sig y
    using that full_json(4)[OF e, of "[sig]"] by simp
qed


definition journey_trx :: MutableTransaction where
  "journey_trx = new_MutableTransaction\<lparr>trxActions := [1], trxObjects := [1 \<mapsto> sample_action]\<rparr>"

lemma sample_action_short: "\<exists>act. make_action sample_args_json (Some sample_action) = Inr act \<and> length (acData act) < 1000 \<and>
  length (acAuthorization act) = 1"
proof -
  have "\<exists>d. pack_args (ArgsVoterRemove \<lparr>vrGroupName = ''board'', vrVoter = make_name ''bob''\<rparr>) = Inr d \<and> length d < 1000"
    by (simp add: pack_voter_remove_def pack_via_def pack_pair_def pack_seq_def pack_string_def pack_bytes_def
        pack_varint_def pack_u64_def pack_word_def MAX_SIZE_OF_BYTE_ARRAYS_def varint_loop.simps length_le_bytes)
  then show ?thesis
    unfolding make_action_def option.case Let_def action.select_convs sample_parse
    by (auto simp: fc_map_def)
qed


lemma one_action_packs:
  assumes "length (acData act) < 1000" "length (acAuthorization act) = 1"
    and "context_free_actions t = []" "actions t = [act]" "transaction_extensions t = []"
  shows "\<exists>bin. pack_transaction t = Inr bin"
proof -
  obtain p where p: "acAuthorization act = [p]" using assms(2) by (cases "acAuthorization act") auto
  show ?thesis
    using assms(1,3-5) p
    by (simp add: pack_transaction_def pack_via_def pack_pair_def pack_seq_def pack_u32_def pack_u16_def pack_u8_def pack_u64_def
        pack_word_def pack_varint_def pack_vector_def pack_extensions_def pack_action_def pack_permission_level_def pack_bytes_def
        MAX_SIZE_OF_BYTE_ARRAYS_def MAX_NUM_ARRAY_ELEMENTS_def)
qed

lemma journey_fields: "context_free_actions (transaction_fields t h acts) = []" "transaction_extensions (transaction_fields t h acts) = []"
  by (simp_all add: transaction_fields_def Let_def set_reference_block_def new_signed_transaction_def)

lemma base_fields: "context_free_actions (base_transaction x) = context_free_actions x" "actions (base_transaction x) = actions x"
  "transaction_extensions (base_transaction x) = transaction_extensions x"
  by (simp_all add: base_transaction_def transaction.truncate_def)

theorem broadcast_carries_signed_witness:
  "\<exists>x bin act b. actions x = [act] \<and> make_action sample_args_json (Some sample_action) = Inr act \<and>
     pack_transaction (base_transaction x) = Inr bin \<and> b = new_broadcast True (to_hex (hash full_env bin)) \<and>
     unat (expiration x) = 11"
proof -
  obtain act where act: "make_action sample_args_json (Some sample_action) = Inr act"
    "length (acData act) < 1000" "length (acAuthorization act) = 1"
    using sample_action_short by blast
  let ?m = "with_defaults 0 new_chain journey_trx"
  obtain h where h: "sha256_of_hex (trxRefBlockId ?m) = Inr h"
    by (simp add: with_defaults_fields journey_trx_def new_MutableTransaction_def new_chain_def sha256_of_hex_def numeral_eq_Suc fc_map_def)
  define x where "x = transaction_fields ?m h [act]"
  have packs: "\<exists>bin. pack_transaction (base_transaction y) = Inr bin" if "context_free_actions y = []" "actions y = [act]" "transaction_extensions y = []" for y
    using act(2,3) that by (intro one_action_packs) (simp_all add: base_fields)
  obtain js where js: "transactionToJson full_env x = Inr js"
    using packs[of x] by (auto simp: full_env_def full_to_json_def x_def journey_fields fc_map_def)
  have prep: "prepareForSigning sample_args_json full_env 0 (Some new_chain) (Some journey_trx) =
      (Inr (Some (new_SignableTransaction js)), Some ?m)"
    using h act(1) js by (simp add: prepareForSigning_step Let_def x_def with_defaults_fields journey_trx_def new_MutableTransaction_def)
  have iso: "isoDate full_env (addSecs 10 1000) = replicate 11 (CHR ''1'')"
    by (simp add: full_env_def sample_fc_def addSecs_def toSecsSinceEpoch_def)
  define s1 where "s1 = (new_SignableTransaction js)\<lparr>signableJson := jinsert ''expiration'' (JStr (replicate 11 (CHR ''1''))) js\<rparr>"
  have s1: "signable_setExpiration (isoDate full_env (addSecs 10 1000)) (new_SignableTransaction js) = Some s1"
    unfolding iso by (simp add: signable_setExpiration_def s1_def new_SignableTransaction_def)
  have t: "transactionFromJson full_env (signableJson s1) = Inr (x\<lparr>expiration := tally_date (replicate 11 (CHR ''1''))\<rparr>)"
    using full_json(3)[OF full_json(1)[OF js]] by (simp add: s1_def)
  obtain cid where cid: "sha256_of_hex (chainId new_chain) = Inr cid"
    by (simp add: new_chain_def sha256_of_hex_def numeral_eq_Suc fc_map_def)
  obtain sig where sig: "sign_transaction full_env ''k'' cid (x\<lparr>expiration := tally_date (replicate 11 (CHR ''1''))\<rparr>) = Inr sig"
    using packs[of "x\<lparr>expiration := tally_date (replicate 11 (CHR ''1''))\<rparr>"]
    by (auto simp: sign_transaction_def sig_digest_def signed_message_def cfd_digest_def pack_seq_def fc_map_def x_def journey_fields)
  have signed: "signTransaction full_env 1000 (Some new_chain) (Some (new_SignableTransaction js)) ''k'' =
      (Inr (), Some (addSignature sig s1))"
    using s1 t cid sig by (simp add: signTransaction_def) (simp add: full_env_def sample_fc_def)
  define y where "y = x\<lparr>expiration := tally_date (replicate 11 (CHR ''1'')), signatures := [sig]\<rparr>"
  have "toArray (jmember (signableJson s1) ''signatures'') = []"
    using full_json(2)[OF js] by (simp add: s1_def jmember_def x_def)
  then have "signableJson (addSignature sig s1) = jinsert ''signatures'' (JArr (map JStr [sig])) (signableJson s1)"
    by (simp add: addSignature_def Let_def)
  then have yx: "y = x\<lparr>expiration := tally_date (replicate 11 (CHR ''1'')), signatures := [sig]\<rparr>"
    "transactionFromJson full_env (signableJson (addSignature sig s1)) = Inr y"
    using full_json(4)[OF t, of "[sig]"] by (simp_all add: y_def)
  have y: "context_free_actions y = []" "actions y = [act]" "transaction_extensions y = []" "context_free_data y = []"
    by (subst yx(1), simp add: x_def journey_fields)+
  note y = yx(2) y
  obtain bin where bin: "pack_transaction (base_transaction y) = Inr bin" using packs y by blast
  have sent: "prepareForBroadcast full_env (Some new_chain) (Some (addSignature sig s1)) =
      Inr (Some (new_broadcast True (to_hex (hash full_env bin)), []))"
    using y bin by (simp add: prepareForBroadcast_def make_packed_transaction_def transaction_id_def zlib_compress_transaction_def
        zlib_compress_context_free_data_def fc_map_def) (simp add: full_env_def sample_fc_def)
  have keeps: "\<forall>h acts. fromQList sample_args_json (trxObjects journey_trx) (trxActions journey_trx) = Inr acts \<longrightarrow>
      json_keeps full_env tally_date ''k'' (chainId new_chain) (date_text (isoDate full_env (addSecs 10 1000)))
        (transaction_fields (with_defaults 0 new_chain journey_trx) h acts)"
    by (intro allI impI full_json_keeps)
  from broadcast_carries_signed[OF prep signed sent keeps] show ?thesis
    unfolding iso using act(1) by (auto simp: journey_trx_def list_all2_Cons1 date_text_def tally_date_def)
qed

end
