(* ===== verification/ChainMachine.thy ===== *)
theory ChainMachine
  imports Blockchain TableScope
begin

text \<open>
  The blockchain interface with its tables as one state machine: every call of QML, every reply of the
  node, every tick of the timer and every destruction of a table is an operation.  The theory proves
  which parts of the state each operation leaves alone and the invariant of the registry of tables.
\<close>

subsection \<open>Frames\<close>

lemma chain_emit_fields [simp]:
  "nodeUrl (chain_emit s c) = nodeUrl c" "chainId (chain_emit s c) = chainId c"
  "headBlockTime (chain_emit s c) = headBlockTime c" "serverLatency (chain_emit s c) = serverLatency c"
  "syncStatus (chain_emit s c) = syncStatus c" "syncInterval (chain_emit s c) = syncInterval c"
  "syncTimer (chain_emit s c) = syncTimer c" "lastJournalEntry (chain_emit s c) = lastJournalEntry c"
  "pollingGroupTable (chain_emit s c) = pollingGroupTable c"
  "groupAccountsTables (chain_emit s c) = groupAccountsTables c"
  "memberTables (chain_emit s c) = memberTables c" "memberCreatedFor (chain_emit s c) = memberCreatedFor c"
  "calls (chain_emit s c) = calls c" "chainSignals (chain_emit s c) = chainSignals c @ [s]"
  by (simp_all add: chain_emit_def)

lemma makeCall_fields [simp]:
  "nodeUrl (makeCall k p b c) = nodeUrl c" "syncStatus (makeCall k p b c) = syncStatus c"
  "headBlockTime (makeCall k p b c) = headBlockTime c" "syncInterval (makeCall k p b c) = syncInterval c"
  "syncTimer (makeCall k p b c) = syncTimer c" "lastJournalEntry (makeCall k p b c) = lastJournalEntry c"
  "pollingGroupTable (makeCall k p b c) = pollingGroupTable c"
  "groupAccountsTables (makeCall k p b c) = groupAccountsTables c"
  "memberTables (makeCall k p b c) = memberTables c" "memberCreatedFor (makeCall k p b c) = memberCreatedFor c"
  "calls (makeCall k p b c) = calls c @ [(k, urlText (nodeUrl c) @ p, b)]"
  "chainSignals (makeCall k p b c) = chainSignals c"
  by (simp_all add: makeCall_def)

lemma updateSyncStatus_fields [simp]:
  "headBlockTime (updateSyncStatus s c) = headBlockTime c" "syncStatus (updateSyncStatus s c) = s"
  "lastJournalEntry (updateSyncStatus s c) = lastJournalEntry c" "syncTimer (updateSyncStatus s c) = syncTimer c"
  "pollingGroupTable (updateSyncStatus s c) = pollingGroupTable c"
  "groupAccountsTables (updateSyncStatus s c) = groupAccountsTables c"
  "memberTables (updateSyncStatus s c) = memberTables c"
  "memberCreatedFor (updateSyncStatus s c) = memberCreatedFor c"
  by (auto simp: updateSyncStatus_def)

lemma rtt_slot_fields [simp]:
  "headBlockTime (rtt_slot r c) = headBlockTime c" "syncStatus (rtt_slot r c) = syncStatus c"
  "lastJournalEntry (rtt_slot r c) = lastJournalEntry c" "syncTimer (rtt_slot r c) = syncTimer c"
  "pollingGroupTable (rtt_slot r c) = pollingGroupTable c"
  "groupAccountsTables (rtt_slot r c) = groupAccountsTables c"
  "memberTables (rtt_slot r c) = memberTables c" "memberCreatedFor (rtt_slot r c) = memberCreatedFor c"
  by (simp_all add: rtt_slot_def Let_def)

lemma headSeconds_cong: "headBlockTime c = headBlockTime c' \<Longrightarrow> headSeconds c = headSeconds c'"
  by (simp add: headSeconds_def)

text \<open>The parts of the registry; \<open>registry_same\<close> allows the tables to change, but not their scopes.\<close>

definition registry_same :: "chain \<Rightarrow> chain \<Rightarrow> bool" where
  "registry_same c c' \<longleftrightarrow> groupAccountsTables c' = groupAccountsTables c \<and>
     memberCreatedFor c' = memberCreatedFor c \<and>
     (\<forall>a. map_option scope (memberTables c' a) = map_option scope (memberTables c a))"

lemma registry_same_refl [simp]: "registry_same c c"
  by (simp add: registry_same_def)

lemma registry_same_trans: "registry_same c c' \<Longrightarrow> registry_same c' c'' \<Longrightarrow> registry_same c c''"
  by (simp add: registry_same_def)

lemma registry_sameI:
  "groupAccountsTables c' = groupAccountsTables c \<Longrightarrow> memberCreatedFor c' = memberCreatedFor c \<Longrightarrow>
   memberTables c' = memberTables c \<Longrightarrow> registry_same c c'"
  by (simp add: registry_same_def)

lemma registry_same_lastEntry [simp]:
  "registry_same c (d\<lparr>lastJournalEntry := x\<rparr>) = registry_same c d"
  by (simp add: registry_same_def)

named_theorems registry_frame \<open>operations that keep the registry\<close>

lemma registry_notify:
  assumes "\<And>t. scope (g t) = scope t"
  shows "registry_same c (notify_tables f g c)"
  using assms by (simp add: registry_same_def notify_tables_def option.map_comp comp_def)

lemma registry_with_error [registry_frame]: "registry_same c (with_error r c)"
  by (rule registry_sameI) (simp_all add: with_error_def error_slot_def Let_def)

lemma registry_connectedReply [registry_frame]: "registry_same c (connectedReply r c)"
proof -
  have "registry_same (with_error r c) (connectedReply r c)"
    by (rule registry_sameI) (simp_all add: connectedReply_def finished_slot_def)
  then show ?thesis using registry_with_error registry_same_trans by blast
qed

lemma registry_infoReply [registry_frame]: "registry_same c (infoReply E r c)"
proof -
  have "registry_same (with_error r c) (infoReply E r c)"
    by (rule registry_sameI) (simp_all add: infoReply_def finished_slot_def processInfoReply_def Let_def)
  then show ?thesis using registry_with_error registry_same_trans by blast
qed

lemma registry_journalReply [registry_frame]: "registry_same c (journalReply E r c)"
proof -
  have n: "registry_same c (emit_newJournalEntries E now es c)" for now es c
    unfolding emit_newJournalEntries_def
    by (rule registry_same_trans[OF registry_sameI registry_notify]) (simp_all add: scope_frame)
  have f: "registry_same c (emit_refreshAllTables E c)" for c
    unfolding emit_refreshAllTables_def
    by (rule registry_same_trans[OF registry_sameI registry_notify]) (simp_all add: scope_frame)
  have s: "registry_same c (updateSyncStatus st (chain_emit sg c))" for c st sg
    by (rule registry_sameI) simp_all
  have "registry_same c (processJournalReply E r c)" for c
    by (auto simp: processJournalReply_def Let_def n f s split: option.split)
  moreover have "registry_same c (rtt_slot r c)" by (rule registry_sameI) simp_all
  ultimately show ?thesis unfolding journalReply_def using registry_same_trans by blast
qed

lemma beginSync_fields [simp]:
  "syncStatus (beginSync c) = syncStatus c" "syncInterval (beginSync c) = syncInterval c"
  "lastJournalEntry (beginSync c) = lastJournalEntry c" "nodeUrl (beginSync c) = nodeUrl c"
  "groupAccountsTables (beginSync c) = groupAccountsTables c" "memberTables (beginSync c) = memberTables c"
  "memberCreatedFor (beginSync c) = memberCreatedFor c" "chainSignals (beginSync c) = chainSignals c"
  "pollingGroupTable (beginSync c) = pollingGroupTable c"
  by (simp_all add: beginSync_def Let_def)

lemma disconnect_fields [simp]:
  "syncStatus (disconnect c) = Idle" "syncTimer (disconnect c) = None" "nodeUrl (disconnect c) = nodeUrl c"
  "syncInterval (disconnect c) = syncInterval c" "lastJournalEntry (disconnect c) = lastJournalEntry c"
  "groupAccountsTables (disconnect c) = groupAccountsTables c" "memberTables (disconnect c) = memberTables c"
  "memberCreatedFor (disconnect c) = memberCreatedFor c" "headBlockTime (disconnect c) = headBlockTime c"
  "calls (disconnect c) = calls c" "pollingGroupTable (disconnect c) = pollingGroupTable c"
  by (simp_all add: disconnect_def stopTimer_def)

lemma registry_connectNow [registry_frame]: "registry_same c (connectNow c)"
  by (rule registry_sameI) (simp_all add: connectNow_def resetTimer_def stopTimer_def Let_def)

lemma registry_simple [registry_frame]:
  "registry_same c (beginSync c)" "registry_same c (disconnect c)" "registry_same c (rtt_slot r c)"
  "registry_same c (setSyncInterval n c)" "registry_same c (setSyncStaleSeconds n c)"
  "registry_same c (getBlock b c)" "registry_same c (submitTransaction trx c)"
  "registry_same c (pollingGroupTableDestroyed c)" "registry_same c (snd (getPollingGroupTable E a c))"
  by (auto simp: setSyncInterval_def setSyncStaleSeconds_def getBlock_def submitTransaction_def
    pollingGroupTableDestroyed_def getPollingGroupTable_def split: option.splits intro!: registry_sameI)

lemma registry_setNodeUrl [registry_frame]: "registry_same c (setNodeUrl E u c)"
proof -
  have "registry_same c (connectNow d)" if "registry_same c d" for d
    using registry_same_trans[OF that registry_connectNow] .
  then show ?thesis by (simp add: setNodeUrl_def Let_def registry_same_def)
qed

lemma connectNow_status: "syncStatus (connectNow c) \<in> {syncStatus c, WaitingForConnection}"
  by (simp add: connectNow_def resetTimer_def stopTimer_def Let_def)

subsection \<open>Operations\<close>

datatype chain_fault = TableFault object_fault | CallFault op_fault

datatype chain_op =
    ChGetGroups nat
  | ChGetMembers uint64 nat
  | ChGroupsDestroyed
  | ChMembersDestroyed nat
  | ChGroupsCall "uint64 op"
  | ChMembersCall nat "string op"
  | ChGroupsReply "uint64 request" net_reply
  | ChMembersReply nat "string request" net_reply
  | ChInfoReply net_reply
  | ChJournalReply net_reply
  | ChBlockReply net_reply
  | ChPushReply net_reply
  | ChTimer
  | ChConnect
  | ChDisconnect
  | ChSetUrl string
  | ChSetInterval uint32
  | ChSetStale uint32
  | ChSubmit "json_object option"
  | ChGetBlock uint64

definition lift_object :: "object_fault + chain \<Rightarrow> chain_fault + chain" where
  "lift_object r = (case r of Inl e \<Rightarrow> Inl (TableFault e) | Inr c \<Rightarrow> Inr c)"

definition groups_call :: "env \<Rightarrow> uint64 op \<Rightarrow> chain \<Rightarrow> chain_fault + chain" where
  "groups_call E f c =
     (case pollingGroupTable c of
        None \<Rightarrow> Inr c
      | Some (a, t) \<Rightarrow> (case apply_op (group_row E) f t of
          Inl e \<Rightarrow> Inl (CallFault e) | Inr t' \<Rightarrow> Inr (c\<lparr>pollingGroupTable := Some (a, t')\<rparr>)))"

definition members_call :: "env \<Rightarrow> nat \<Rightarrow> string op \<Rightarrow> chain \<Rightarrow> chain_fault + chain" where
  "members_call E a f c =
     (case memberTables c a of
        None \<Rightarrow> Inl (TableFault (DestroyedObject a))
      | Some t \<Rightarrow> (case apply_op (member_row E) f t of
          Inl e \<Rightarrow> Inl (CallFault e) | Inr t' \<Rightarrow> Inr (c\<lparr>memberTables := (memberTables c)(a \<mapsto> t')\<rparr>)))"

fun chain_apply :: "env \<Rightarrow> chain_op \<Rightarrow> chain \<Rightarrow> chain_fault + chain" where
  "chain_apply E (ChGetGroups a) c = Inr (snd (getPollingGroupTable E a c))"
| "chain_apply E (ChGetMembers g a) c = Inr (snd (getGroupMembersTable E g a c))"
| "chain_apply E ChGroupsDestroyed c = Inr (pollingGroupTableDestroyed c)"
| "chain_apply E (ChMembersDestroyed a) c = Inr (memberTableDestroyed a c)"
| "chain_apply E (ChGroupsCall f) c = groups_call E f c"
| "chain_apply E (ChMembersCall a f) c = members_call E a f c"
| "chain_apply E (ChGroupsReply q r) c = lift_object (groupReply E q r c)"
| "chain_apply E (ChMembersReply a q r) c = Inr (memberReply E a q r c)"
| "chain_apply E (ChInfoReply r) c = Inr (infoReply E r c)"
| "chain_apply E (ChJournalReply r) c = Inr (journalReply E r c)"
| "chain_apply E (ChBlockReply r) c = Inr (connectedReply r c)"
| "chain_apply E (ChPushReply r) c = Inr (rtt_slot r c)"
| "chain_apply E ChTimer c = Inr (beginSync c)"
| "chain_apply E ChConnect c = Inr (connectNow c)"
| "chain_apply E ChDisconnect c = Inr (disconnect c)"
| "chain_apply E (ChSetUrl u) c = Inr (setNodeUrl E u c)"
| "chain_apply E (ChSetInterval n) c = Inr (setSyncInterval n c)"
| "chain_apply E (ChSetStale n) c = Inr (setSyncStaleSeconds n c)"
| "chain_apply E (ChSubmit trx) c = Inr (submitTransaction trx c)"
| "chain_apply E (ChGetBlock n) c = Inr (getBlock n c)"

text \<open>
  New objects have addresses that were never used; only the interface calls \<open>updateScope\<close>; the timer
  fires only while it exists.
\<close>

fun chain_op_ok :: "chain_op \<Rightarrow> chain \<Rightarrow> bool" where
  "chain_op_ok (ChGetMembers g a) c = (memberCreatedFor c a = None)"
| "chain_op_ok (ChMembersCall a f) c = (f \<notin> range OpUpdateScope)"
| "chain_op_ok ChTimer c = (syncTimer c \<noteq> None)"
| "chain_op_ok _ c = True"

inductive chain_reachable :: "env \<Rightarrow> chain \<Rightarrow> bool" for E where
  chain_start: "chain_reachable E new_chain"
| chain_step: "chain_reachable E c \<Longrightarrow> chain_op_ok f c \<Longrightarrow> chain_apply E f c = Inr c' \<Longrightarrow> chain_reachable E c'"

subsection \<open>The invariant of the registry\<close>

definition registry_ok :: "chain \<Rightarrow> bool" where
  "registry_ok c \<longleftrightarrow>
     dom (memberTables c) \<subseteq> dom (memberCreatedFor c) \<and>
     (\<forall>g a. groupAccountsTables c g = Some a \<longrightarrow> a \<in> dom (memberCreatedFor c) \<and>
        (\<forall>t. memberTables c a = Some t \<longrightarrow> scope t = number (unat g))) \<and>
     (\<forall>g g' a. groupAccountsTables c g = Some a \<longrightarrow> groupAccountsTables c g' = Some a \<longrightarrow> g = g')"

lemma registry_okI:
  assumes "dom (memberTables c) \<subseteq> dom (memberCreatedFor c)"
    and "\<And>g a. groupAccountsTables c g = Some a \<Longrightarrow> memberCreatedFor c a \<noteq> None"
    and "\<And>g a t. groupAccountsTables c g = Some a \<Longrightarrow> memberTables c a = Some t \<Longrightarrow> scope t = number (unat g)"
    and "\<And>g g' a. groupAccountsTables c g = Some a \<Longrightarrow> groupAccountsTables c g' = Some a \<Longrightarrow> g = g'"
  shows "registry_ok c"
  using assms unfolding registry_ok_def by blast

lemma registry_okD:
  assumes "registry_ok c"
  shows "memberTables c a = Some t \<Longrightarrow> memberCreatedFor c a \<noteq> None"
    and "groupAccountsTables c g = Some a \<Longrightarrow> memberCreatedFor c a \<noteq> None"
    and "groupAccountsTables c g = Some a \<Longrightarrow> memberTables c a = Some t \<Longrightarrow> scope t = number (unat g)"
    and "groupAccountsTables c g = Some a \<Longrightarrow> groupAccountsTables c g' = Some a \<Longrightarrow> g = g'"
  using assms unfolding registry_ok_def by blast+

lemma registry_ok_same:
  assumes "registry_ok c" "registry_same c c'"
  shows "registry_ok c'"
proof -
  have m: "map_option scope (memberTables c' a) = map_option scope (memberTables c a)" for a
    using assms(2) by (simp add: registry_same_def)
  have d: "dom (memberTables c') = dom (memberTables c)"
  proof -
    have "memberTables c' a = None \<longleftrightarrow> memberTables c a = None" for a
      using m[of a] by (cases "memberTables c' a"; cases "memberTables c a") simp_all
    then show ?thesis by (auto simp: dom_def)
  qed
  have s: "\<exists>t. memberTables c a = Some t \<and> scope t = scope t'" if "memberTables c' a = Some t'" for a t'
    using m[of a] that by (cases "memberTables c a") auto
  show ?thesis
    using assms s unfolding registry_ok_def registry_same_def d by metis
qed

lemma registry_ok_get:
  assumes "registry_ok c" "memberCreatedFor c a = None"
  shows "registry_ok (snd (getGroupMembersTable E g a c))"
proof (cases "groupAccountsTables c g")
  case None
  have "memberTables c a = None" "a \<notin> ran (groupAccountsTables c)"
    using assms by (auto simp: registry_ok_def ran_def)
  then show ?thesis
    using assms None
    by (auto simp: registry_ok_def getGroupMembersTable_def new_table_def ran_def split: if_splits)
qed (use assms in \<open>simp add: getGroupMembersTable_def\<close>)

lemma registry_ok_destroyed: "registry_ok c \<Longrightarrow> registry_ok (memberTableDestroyed a c)"
  by (auto simp: registry_ok_def memberTableDestroyed_def split: option.splits if_splits)

lemma registry_ok_rescope:
  assumes "registry_ok c" "rescopeGroupMembersTable E old new c = Inr c'"
  shows "registry_ok c'"
proof (cases "groupAccountsTables c old")
  case (Some a)
  then obtain t where t: "memberTables c a = Some t"
    using assms(2) by (auto simp: rescopeGroupMembersTable_def split: option.splits)
  have other: "g = old" if "groupAccountsTables c g = Some a" for g
    using registry_okD(4)[OF assms(1) that Some] .
  define c1 where "c1 = c\<lparr>groupAccountsTables := (groupAccountsTables c)(old := None),
    memberTables := (memberTables c)(a \<mapsto> updateScope (member_row E) (number (unat new)) t)\<rparr>"
  have free: "groupAccountsTables c1 g \<noteq> Some a" for g
    using other by (auto simp: c1_def)
  have c1: "memberCreatedFor c1 a \<noteq> None"
    "memberTables c1 a = Some (updateScope (member_row E) (number (unat new)) t)"
    using registry_okD(1)[OF assms(1) t] by (simp_all add: c1_def)
  have "registry_ok c1"
  proof (rule registry_okI)
    show "dom (memberTables c1) \<subseteq> dom (memberCreatedFor c1)"
      using registry_okD(1)[OF assms(1)] t by (auto simp: c1_def dom_def)
    fix g b assume b: "groupAccountsTables c1 g = Some b"
    have old: "groupAccountsTables c g = Some b" "b \<noteq> a"
      using b free[of g] by (auto simp: c1_def split: if_splits)
    show "memberCreatedFor c1 b \<noteq> None" using registry_okD(2)[OF assms(1) old(1)] by (simp add: c1_def)
    show "scope u = number (unat g)" if "memberTables c1 b = Some u" for u
      using registry_okD(3)[OF assms(1) old(1)] that old(2) by (simp add: c1_def)
    show "g = g'" if "groupAccountsTables c1 g' = Some b" for g'
      using registry_okD(4)[OF assms(1) old(1)] that by (auto simp: c1_def split: if_splits)
  qed
  have "c' = c1\<lparr>orphans := orphans c1 @ [a]\<rparr> \<or>
    (groupAccountsTables c1 new = None \<and> c' = c1\<lparr>groupAccountsTables := (groupAccountsTables c1)(new \<mapsto> a)\<rparr>)"
    using assms(2) Some t by (auto simp: rescopeGroupMembersTable_def c1_def Let_def split: if_splits)
  then show ?thesis
  proof
    assume "c' = c1\<lparr>orphans := orphans c1 @ [a]\<rparr>"
    then show ?thesis using \<open>registry_ok c1\<close> by (simp add: registry_ok_def)
  next
    assume new: "groupAccountsTables c1 new = None \<and> c' = c1\<lparr>groupAccountsTables := (groupAccountsTables c1)(new \<mapsto> a)\<rparr>"
    show ?thesis
    proof (rule registry_okI)
      show "dom (memberTables c') \<subseteq> dom (memberCreatedFor c')"
        using registry_okD(1)[OF \<open>registry_ok c1\<close>] new by (auto simp: dom_def)
      fix g b assume b: "groupAccountsTables c' g = Some b"
      then have old: "g = new \<and> b = a \<or> g \<noteq> new \<and> groupAccountsTables c1 g = Some b \<and> b \<noteq> a"
        using new free by (auto split: if_splits)
      show "memberCreatedFor c' b \<noteq> None"
        using registry_okD(2)[OF \<open>registry_ok c1\<close>] old c1 new by auto
      show "scope u = number (unat g)" if "memberTables c' b = Some u" for u
        using registry_okD(3)[OF \<open>registry_ok c1\<close>] that old c1 new by (auto simp: scope_updateScope)
      show "g = g'" if "groupAccountsTables c' g' = Some b" for g'
        using registry_okD(4)[OF \<open>registry_ok c1\<close>] that old new free by (auto split: if_splits)
    qed
  qed
qed (use assms in \<open>simp add: rescopeGroupMembersTable_def\<close>)

lemma registry_ok_rescope_all:
  "registry_ok c \<Longrightarrow> rescope_all E xs c = Inr c' \<Longrightarrow> registry_ok c'"
  by (induction E xs c rule: rescope_all.induct) (auto split: sum.splits dest: registry_ok_rescope)

lemma registry_ok_groupReply:
  assumes "registry_ok c" "groupReply E q r c = Inr c'"
  shows "registry_ok c'"
proof (cases "pollingGroupTable (connectedReply r c)")
  case None
  then show ?thesis
    using assms(2) registry_ok_same[OF assms(1) registry_connectedReply[of c r]]
    by (simp add: groupReply_def Let_def)
next
  case (Some at)
  have "registry_ok ((connectedReply r c)\<lparr>pollingGroupTable := x\<rparr>)" for x
    using registry_ok_same[OF assms(1) registry_connectedReply[of c r]] by (simp add: registry_ok_def)
  then show ?thesis
    using assms(2) Some by (cases at) (auto simp: groupReply_def Let_def dest: registry_ok_rescope_all[rotated])
qed

lemma registry_same_memberReply: "registry_same c (memberReply E a q r c)"
proof -
  have "registry_same (connectedReply r c) (memberReply E a q r c)"
    by (auto simp: registry_same_def memberReply_def Let_def scope_frame option.map_comp comp_def
      split: request.split)
  then show ?thesis using registry_connectedReply registry_same_trans by blast
qed

lemma registry_ok_members_call:
  assumes "registry_ok c" "f \<notin> range OpUpdateScope" "members_call E a f c = Inr c'"
  shows "registry_ok c'"
proof -
  obtain t t' where t: "memberTables c a = Some t" "apply_op (member_row E) f t = Inr t'"
    "c' = c\<lparr>memberTables := (memberTables c)(a \<mapsto> t')\<rparr>"
    using assms(3) by (auto simp: members_call_def split: option.splits sum.splits)
  then have "registry_same c c'"
    using apply_op_scope[OF t(2) assms(2)] by (simp add: registry_same_def)
  then show ?thesis using assms(1) registry_ok_same by blast
qed

lemma registry_ok_step:
  assumes "registry_ok c" "chain_op_ok f c" "chain_apply E f c = Inr c'"
  shows "registry_ok c'"
proof (cases "\<exists>g a. f = ChGetMembers g a \<or> f = ChMembersDestroyed a \<or> (\<exists>h. f = ChMembersCall a h) \<or>
    (\<exists>q r. f = ChGroupsReply q r)")
  case True
  then show ?thesis
    using assms by (auto simp: lift_object_def registry_ok_get registry_ok_destroyed registry_ok_members_call
      split: sum.splits dest: registry_ok_groupReply[rotated])
next
  case False
  have "registry_same c c'"
  proof (cases f)
    case (ChGroupsCall h)
    then show ?thesis
      using assms(3) by (auto simp: groups_call_def registry_same_def split: option.splits sum.splits)
  qed (use assms(3) False in \<open>auto simp: registry_frame registry_same_memberReply\<close>)
  then show ?thesis using assms(1) registry_ok_same by blast
qed

lemma chain_reachable_registry: "chain_reachable E c \<Longrightarrow> registry_ok c"
proof (induction rule: chain_reachable.induct)
  case chain_start
  then show ?case by (simp add: registry_ok_def new_chain_def)
qed (rule registry_ok_step)

end
