(* ===== verification/ChainProperties.thy ===== *)
theory ChainProperties
  imports ChainMachine
begin

text \<open>
  What the blockchain interface promises: how replies decide its status, how it follows the journal,
  and how its registry of tables behaves.
\<close>

subsection \<open>Status\<close>

lemma finished_slot_fields [simp]:
  "headBlockTime (finished_slot r c) = headBlockTime c" "syncTimer (finished_slot r c) = syncTimer c"
  by (simp_all add: finished_slot_def)

lemma finished_slot_status:
  "nrError r = NoError \<Longrightarrow> syncStatus (finished_slot r c) =
     (if nrSecs r - headSeconds c > 10 then SynchronizedStale else Synchronized)"
  by (simp add: finished_slot_def)

lemma processInfoReply_timer [simp]: "syncTimer (processInfoReply E r c) = syncTimer c"
  by (simp add: processInfoReply_def Let_def)

text \<open>What a failing reply leaves behind: connected interfaces recover, others wait.\<close>

definition failed_status :: "SyncStatus \<Rightarrow> SyncStatus" where
  "failed_status s = (if Connected < s then RecoveringConnection else WaitingForConnection)"

definition fresh_status :: "net_reply \<Rightarrow> chain \<Rightarrow> SyncStatus" where
  "fresh_status r c = (if nrSecs r - headSeconds c > 10 then SynchronizedStale else Synchronized)"

lemma with_error_ok [simp]: "nrError r = NoError \<Longrightarrow> with_error r c = c"
  by (simp add: with_error_def)

lemma with_error_status: "nrError r \<noteq> NoError \<Longrightarrow> syncStatus (with_error r c) = failed_status (syncStatus c)"
  by (simp add: with_error_def error_slot_def Let_def failed_status_def)

lemma with_error_timer [simp]: "syncTimer (with_error r c) = syncTimer c"
  by (simp add: with_error_def error_slot_def Let_def)

text \<open>
  The status after the reply to \<open>get_info\<close> depends on the reply and the head time alone when the
  reply has no error: a response without sense, or one that arrives after \<open>disconnect\<close>, also ends as
  synchronised, and the limit is ten seconds whatever \<open>syncStaleSeconds\<close> says.  An error means
  recovering for a connected interface and waiting for any other.
\<close>

lemma reply_decides_status:
  "syncStatus (infoReply E r c) =
     (if nrError r = NoError then fresh_status r (infoReply E r c) else failed_status (syncStatus c)) \<and>
   syncStatus (connectedReply r c) =
     (if nrError r = NoError then fresh_status r c else failed_status (syncStatus c)) \<and>
   (nrError r = NoError \<longrightarrow> \<not> isObject (nrDoc r) \<longrightarrow>
      NodeResponseNonsense \<in> set (chainSignals (infoReply E r c)) \<and>
      syncStatus (infoReply E r c) = fresh_status r c) \<and>
   (nrError r = NoError \<longrightarrow> syncTimer (infoReply E r (disconnect c)) = None \<and>
      syncStatus (infoReply E r (disconnect c)) \<in> {Synchronized, SynchronizedStale})"
proof -
  have head: "headSeconds (finished_slot r d) = headSeconds d" "headSeconds (rtt_slot r d) = headSeconds d" for d
    by (simp_all add: headSeconds_def)
  have err: "processInfoReply E r d = d" "finished_slot r d = d" if "nrError r \<noteq> NoError" for d
    using that by (simp_all add: processInfoReply_def finished_slot_def)
  have info: "syncStatus (infoReply E r c) =
     (if nrError r = NoError then fresh_status r (infoReply E r c) else failed_status (syncStatus c))" for c
    by (simp add: infoReply_def finished_slot_status fresh_status_def head err with_error_status)
  have conn: "syncStatus (connectedReply r c) =
     (if nrError r = NoError then fresh_status r c else failed_status (syncStatus c))"
    by (simp add: connectedReply_def finished_slot_status fresh_status_def head err with_error_status)
  have nonsense: "NodeResponseNonsense \<in> set (chainSignals (infoReply E r c)) \<and>
      syncStatus (infoReply E r c) = fresh_status r c" if "nrError r = NoError" "\<not> isObject (nrDoc r)"
  proof -
    have p: "processInfoReply E r d = updateSyncStatus RecoveringConnection (chain_emit NodeResponseNonsense d)" for d
      using that by (simp add: processInfoReply_def)
    have sig: "set (chainSignals d) \<subseteq> set (chainSignals (updateSyncStatus s d))"
      "set (chainSignals d) \<subseteq> set (chainSignals (finished_slot r d))" for s d
      by (auto simp: updateSyncStatus_def finished_slot_def)
    have h: "headSeconds (updateSyncStatus s (chain_emit sg d)) = headSeconds d" for s sg d
      by (simp add: headSeconds_def)
    have "NodeResponseNonsense \<in> set (chainSignals (infoReply E r c))"
      unfolding infoReply_def p using sig by (simp add: subset_iff)
    then show ?thesis
      using that by (simp add: infoReply_def p finished_slot_status fresh_status_def head h)
  qed
  have late: "syncTimer (infoReply E r (disconnect c)) = None \<and>
      syncStatus (infoReply E r (disconnect c)) \<in> {Synchronized, SynchronizedStale}" if "nrError r = NoError"
    using that info[of "disconnect c"] by (simp add: infoReply_def fresh_status_def)
  show ?thesis using info conn nonsense late by blast
qed

definition plain_env :: env where
  "plain_env = \<lparr>envQt = \<lparr>cvULong = (\<lambda>v. case v of QLong n \<Rightarrow> word_of_int n | _ \<Rightarrow> 0), cvUInt = (\<lambda>_. 0),
       cvStr = (\<lambda>_. []), cvStrList = (\<lambda>_. []), cvEq = (\<lambda>_ _. False), cvJson = (\<lambda>_. JNull)\<rparr>,
     envWeight = 0, envGroupId = 0, envMembers = (\<lambda>_. None),
     fromUserInput = (\<lambda>s. \<lparr>urlText = s, urlEmpty = (s = []), urlValid = True\<rparr>),
     isoSeconds = (\<lambda>s. if s = [] then None else Some (int (length s)))\<rparr>"

definition ok_reply :: "json \<Rightarrow> net_reply" where
  "ok_reply doc = \<lparr>nrError = NoError, nrHttp = 200, nrDoc = doc, nrSent = 5, nrNow = 9, nrSecs = 3\<rparr>"

lemma reply_decides_status_witness:
  "syncStatus (infoReply plain_env (ok_reply JNull) (disconnect new_chain)) = Synchronized \<and>
   NodeResponseNonsense \<in> set (chainSignals (infoReply plain_env (ok_reply JNull) new_chain))"
proof -
  have f: "fresh_status (ok_reply JNull) (disconnect new_chain) = Synchronized"
    by (simp add: fresh_status_def headSeconds_def new_chain_def ok_reply_def)
  have r: "nrError (ok_reply JNull) = NoError" "\<not> isObject (nrDoc (ok_reply JNull))"
    by (simp_all add: ok_reply_def isObject_def)
  have "syncStatus (infoReply plain_env (ok_reply JNull) (disconnect new_chain)) = Synchronized"
    using reply_decides_status[of plain_env "ok_reply JNull" "disconnect new_chain"] r unfolding f by blast
  then show ?thesis
    using reply_decides_status[of plain_env "ok_reply JNull" new_chain] r by blast
qed

subsection \<open>Connecting\<close>

text \<open>
  Connecting to a valid address posts the requests for the chain's state and for the journal,
  leaves the interface waiting with a timer of the chosen interval, and the first reply without an
  error synchronises it.
\<close>

lemma connecting_starts_polling:
  assumes "\<not> urlEmpty (nodeUrl c)" "urlValid (nodeUrl c)"
  shows "syncStatus (connectNow c) = WaitingForConnection \<and> syncTimer (connectNow c) = Some (syncInterval c) \<and>
    calls (connectNow c) = calls c @
      [(InfoCall, urlText (nodeUrl c) @ GetInfo, Text ''{}''),
       (JournalCall, urlText (nodeUrl c) @ GetTableRows, Text (journal_request c))] \<and>
    (\<forall>r. nrError r = NoError \<longrightarrow>
       syncStatus (infoReply E r (connectNow c)) \<in> {Synchronized, SynchronizedStale})"
proof -
  have j: "journal_request (makeCall k p b (chain_emit s (d\<lparr>syncStatus := st\<rparr>))) = journal_request d" for k p b s d st
    by (simp add: journal_request_def)
  have d: "journal_request (disconnect c) = journal_request c" by (simp add: journal_request_def)
  have "syncStatus (infoReply E r (connectNow c)) \<in> {Synchronized, SynchronizedStale}" if "nrError r = NoError" for r
    using that by (simp add: infoReply_def finished_slot_status)
  then show ?thesis
    using assms by (simp add: connectNow_def beginSync_def Let_def resetTimer_def stopTimer_def j d)
qed

definition local_chain :: chain where
  "local_chain = new_chain\<lparr>nodeUrl := \<lparr>urlText = ''http://n'', urlEmpty = False, urlValid = True\<rparr>\<rparr>"

lemma connecting_starts_polling_witness:
  "syncTimer (connectNow local_chain) = Some 2500 \<and> length (calls (connectNow local_chain)) = 2"
proof -
  have "\<not> urlEmpty (nodeUrl local_chain)" "urlValid (nodeUrl local_chain)" "syncInterval local_chain = 2500"
    "calls local_chain = []"
    by (simp_all add: local_chain_def new_chain_def)
  then show ?thesis using connecting_starts_polling[of local_chain plain_env] by simp
qed

subsection \<open>The journal\<close>

definition reply_entries :: "env \<Rightarrow> net_reply \<Rightarrow> journal_entry list" where
  "reply_entries E r = (case parseRows (nrDoc r) of Some (rows, _) \<Rightarrow> entries_of_json E rows | None \<Rightarrow> [])"

fun consecutive :: "uint64 \<Rightarrow> journal_entry list \<Rightarrow> bool" where
  "consecutive n [] = True"
| "consecutive n (e # es) = (entryId e = n + 1 \<and> consecutive (entryId e) es)"

lemma consecutive_append [simp]:
  "consecutive n (es @ es') = (consecutive n es \<and> consecutive (if es = [] then n else entryId (last es)) es')"
  by (induction es arbitrary: n) auto

definition announced :: "chain_signal list \<Rightarrow> journal_entry list" where
  "announced ss = concat (map (\<lambda>s. case s of NewJournalEntries es \<Rightarrow> es | _ \<Rightarrow> []) ss)"

lemma announced_simps [simp]:
  "announced [] = []" "announced (ss @ ss') = announced ss @ announced ss'"
  "announced [NewJournalEntries es] = es" "announced [RefreshAllTables] = []"
  "announced [ServerLatencyChanged n] = []"
  by (simp_all add: announced_def)

lemma processJournal_Nil: "processJournal T now [] = id"
  by (simp add: processJournal_def fun_eq_iff)

lemma processJournal_append:
  "processJournal T now (es @ es') = processJournal T now es' \<circ> processJournal T now es"
  by (simp add: processJournal_def fun_eq_iff)

text \<open>The tables of \<open>c'\<close> are those of \<open>c\<close> after the journal \<open>es\<close>.\<close>

definition tables_after :: "env \<Rightarrow> int \<Rightarrow> journal_entry list \<Rightarrow> chain \<Rightarrow> chain \<Rightarrow> bool" where
  "tables_after E now es c c' \<longleftrightarrow>
     memberTables c' = (\<lambda>a. map_option (processJournal (member_row E) now es) (memberTables c a)) \<and>
     pollingGroupTable c' = map_option (map_prod id (processJournal (group_row E) now es)) (pollingGroupTable c)"

lemma tables_after_trans:
  "tables_after E now es c c1 \<Longrightarrow> tables_after E now es' c1 c2 \<Longrightarrow> tables_after E now (es @ es') c c2"
  by (cases "pollingGroupTable c")
    (auto simp: tables_after_def processJournal_append option.map_comp)

lemma tables_after_same:
  "memberTables c' = memberTables c \<Longrightarrow> pollingGroupTable c' = pollingGroupTable c \<Longrightarrow> tables_after E now [] c c'"
  by (simp add: tables_after_def processJournal_Nil prod.map_id0 option.map_id)

lemma rtt_slot_signals:
  obtains ss where "chainSignals (rtt_slot r c) = chainSignals c @ ss" "announced ss = []" "RefreshAllTables \<notin> set ss"
proof (cases "chainSignals (rtt_slot r c) = chainSignals c")
  case True
  then show ?thesis using that[of "[]"] by simp
next
  case False
  then show ?thesis using that[of "[ServerLatencyChanged (serverLatency (rtt_slot r c))]"]
    by (simp add: rtt_slot_def Let_def split: if_splits)
qed

lemma journalReply_contiguous:
  assumes "nrError r = NoError" "nrSecs r = now" "parseRows (nrDoc r) \<noteq> None"
    "entry_isValid (lastJournalEntry c)" "consecutive (entryId (lastJournalEntry c)) (reply_entries E r)"
  defines "c' \<equiv> journalReply E r c"
  shows "lastJournalEntry c' = last (lastJournalEntry c # reply_entries E r) \<and>
    tables_after E now (reply_entries E r) c c' \<and>
    (\<exists>ss. chainSignals c' = chainSignals c @ ss \<and> announced ss = reply_entries E r \<and> RefreshAllTables \<notin> set ss)"
proof -
  obtain rows k where rows: "parseRows (nrDoc r) = Some (rows, k)" using assms(3) by auto
  then have es: "reply_entries E r = entries_of_json E rows" by (simp add: reply_entries_def)
  obtain ss where ss: "chainSignals (rtt_slot r c) = chainSignals c @ ss" "announced ss = []" "RefreshAllTables \<notin> set ss"
    by (rule rtt_slot_signals)
  show ?thesis
  proof (cases "rows = []")
    case True
    then have "c' = rtt_slot r c" using assms(1) rows by (simp add: c'_def journalReply_def processJournalReply_def)
    then show ?thesis using ss True by (simp add: es entries_of_json_def tables_after_same)
  next
    case False
    then have ne: "entries_of_json E rows \<noteq> []" by (simp add: entries_of_json_def)
    then have "entryId (hd (entries_of_json E rows)) = entryId (lastJournalEntry c) + 1"
      using assms(5) es by (cases "entries_of_json E rows") simp_all
    then have c': "c' = (emit_newJournalEntries E now (entries_of_json E rows) (rtt_slot r c))
        \<lparr>lastJournalEntry := last (entries_of_json E rows)\<rparr>"
      using assms(1,2,4) rows False
      by (simp add: c'_def journalReply_def processJournalReply_def Let_def)
    show ?thesis
      using ss ne by (simp add: c' es tables_after_def emit_newJournalEntries_def notify_tables_def)
  qed
qed

text \<open>
  C7. Replies that continue the journal where the last one ended hand every table exactly the entries
  of the journal, once and in order, announce them, refresh nothing, and move the position to the last
  entry.
\<close>

theorem journal_is_followed:
  assumes "entry_isValid (lastJournalEntry c)"
    "\<And>r. r \<in> set rs \<Longrightarrow> nrError r = NoError \<and> nrSecs r = now \<and> parseRows (nrDoc r) \<noteq> None \<and>
       (\<forall>e \<in> set (reply_entries E r). entry_isValid e)"
    "consecutive (entryId (lastJournalEntry c)) (concat (map (reply_entries E) rs))"
  shows "let es = concat (map (reply_entries E) rs); c' = fold (journalReply E) rs c in
    lastJournalEntry c' = last (lastJournalEntry c # es) \<and> tables_after E now es c c' \<and>
    (\<exists>ss. chainSignals c' = chainSignals c @ ss \<and> announced ss = es \<and> RefreshAllTables \<notin> set ss)"
  using assms
proof (induction rs arbitrary: c)
  case Nil
  then show ?case by (simp add: tables_after_same)
next
  case (Cons r rs)
  define es where "es = reply_entries E r"
  define c1 where "c1 = journalReply E r c"
  have r: "nrError r = NoError" "nrSecs r = now" "parseRows (nrDoc r) \<noteq> None" "\<forall>e \<in> set es. entry_isValid e"
    using Cons.prems(2)[of r] by (simp_all add: es_def)
  have cons: "consecutive (entryId (lastJournalEntry c)) es"
    "consecutive (if es = [] then entryId (lastJournalEntry c) else entryId (last es)) (concat (map (reply_entries E) rs))"
    using Cons.prems(3) by (auto simp: es_def)
  obtain ss where one: "lastJournalEntry c1 = last (lastJournalEntry c # es)" "tables_after E now es c c1"
    "chainSignals c1 = chainSignals c @ ss" "announced ss = es" "RefreshAllTables \<notin> set ss"
    using journalReply_contiguous[OF r(1-3) Cons.prems(1), of E] cons(1) unfolding c1_def es_def by blast
  have "entry_isValid (lastJournalEntry c1)" using one(1) r(4) Cons.prems(1) by simp
  moreover have "consecutive (entryId (lastJournalEntry c1)) (concat (map (reply_entries E) rs))"
    using cons(2) one(1) by (cases "es = []") simp_all
  moreover have "nrError q = NoError \<and> nrSecs q = now \<and> parseRows (nrDoc q) \<noteq> None \<and>
       (\<forall>e \<in> set (reply_entries E q). entry_isValid e)" if "q \<in> set rs" for q
    by (rule Cons.prems(2)) (use that in simp)
  ultimately obtain ss' where rest: "lastJournalEntry (fold (journalReply E) rs c1) =
      last (lastJournalEntry c1 # concat (map (reply_entries E) rs))"
    "tables_after E now (concat (map (reply_entries E) rs)) c1 (fold (journalReply E) rs c1)"
    "chainSignals (fold (journalReply E) rs c1) = chainSignals c1 @ ss'"
    "announced ss' = concat (map (reply_entries E) rs)" "RefreshAllTables \<notin> set ss'"
    using Cons.IH[of c1] unfolding Let_def by blast
  have fold: "fold (journalReply E) (r # rs) c = fold (journalReply E) rs c1" by (simp add: c1_def)
  have all: "concat (map (reply_entries E) (r # rs)) = es @ concat (map (reply_entries E) rs)" by (simp add: es_def)
  show ?case
    unfolding Let_def fold all using one rest tables_after_trans[OF one(2) rest(2)] by auto
qed

definition row_json :: "int \<Rightarrow> json" where
  "row_json n = JObj [(Id_str, JNum n), (Timestamp, JStr ''2020''), (Table_str, JStr ''poll.groups''),
     (Scope, JNum 1), (Key_str, JNum 4), (Modification, JNum 1)]"

definition journal_page :: "int list \<Rightarrow> net_reply" where
  "journal_page ns = ok_reply (JObj [(Rows, JArr (map row_json ns))])"

lemma parse_page: "parseRows (nrDoc (journal_page ns)) = Some (map row_json ns, JNull)"
  by (simp add: journal_page_def ok_reply_def parseRows_def isObject_def isArray_def toObject_def toArray_def
    jmember_def toBool_def Rows_def More_def)

lemma entry_of_row:
  "entryId (entry_of_json plain_env (toObject (row_json n))) = word_of_int n"
  "entry_isValid (entry_of_json plain_env (toObject (row_json n)))"
  by (simp_all add: entry_of_json_def row_json_def toObject_def jmember_def json_ulong_def as_ulong_def plain_env_def
    entry_isValid_def toString_def Id_str_def Timestamp_def)

lemma page_entries:
  "reply_entries plain_env (journal_page ns) = map (\<lambda>n. entry_of_json plain_env (toObject (row_json n))) ns"
  by (simp add: reply_entries_def parse_page entries_of_json_def)

lemma page_reply: "nrError (journal_page ns) = NoError" "nrSecs (journal_page ns) = 3"
  by (simp_all add: journal_page_def ok_reply_def)

definition at_entry :: "int \<Rightarrow> chain" where
  "at_entry n = new_chain\<lparr>lastJournalEntry := entry_of_json plain_env (toObject (row_json n))\<rparr>"

theorem journal_is_followed_witness:
  "entryId (lastJournalEntry (fold (journalReply plain_env) [journal_page [8, 9], journal_page [10]] (at_entry 7))) = 10"
proof -
  have v: "entry_isValid (lastJournalEntry (at_entry 7))" "entryId (lastJournalEntry (at_entry 7)) = 7"
    by (simp_all add: at_entry_def entry_of_row)
  have pages: "nrError r = NoError \<and> nrSecs r = 3 \<and> parseRows (nrDoc r) \<noteq> None \<and>
      (\<forall>e \<in> set (reply_entries plain_env r). entry_isValid e)"
    if "r \<in> set [journal_page [8, 9], journal_page [10]]" for r
    using that by (auto simp: page_reply parse_page page_entries entry_of_row)
  have cont: "consecutive (entryId (lastJournalEntry (at_entry 7)))
      (concat (map (reply_entries plain_env) [journal_page [8, 9], journal_page [10]]))"
    by (simp add: v page_entries entry_of_row)
  show ?thesis
    using journal_is_followed[OF v(1) pages cont] by (simp add: Let_def page_entries entry_of_row)
qed

text \<open>
  C19. A page that does not continue the journal, the same page a second time for one, announces no
  entry: every table is refreshed as a whole and the position becomes the last entry of the page, even
  where that is behind the old one.
\<close>

theorem journal_gap_refreshes:
  assumes "nrError r = NoError" "reply_entries E r \<noteq> []"
    "\<not> entry_isValid (lastJournalEntry c) \<or> entryId (hd (reply_entries E r)) \<noteq> entryId (lastJournalEntry c) + 1"
  shows "lastJournalEntry (journalReply E r c) = last (reply_entries E r) \<and>
    (\<exists>ss. chainSignals (journalReply E r c) = chainSignals c @ ss @ [RefreshAllTables] \<and> announced ss = []) \<and>
    memberTables (journalReply E r c) = (\<lambda>a. map_option (fullRefresh (member_row E)) (memberTables c a)) \<and>
    pollingGroupTable (journalReply E r c) = map_option (map_prod id (fullRefresh (group_row E))) (pollingGroupTable c)"
proof -
  obtain rows k where rows: "parseRows (nrDoc r) = Some (rows, k)" "rows \<noteq> []" "reply_entries E r = entries_of_json E rows"
    using assms(2) by (cases "parseRows (nrDoc r)") (auto simp: reply_entries_def entries_of_json_def)
  obtain ss where ss: "chainSignals (rtt_slot r c) = chainSignals c @ ss" "announced ss = []"
    by (rule rtt_slot_signals)
  have "journalReply E r c = (emit_refreshAllTables E (rtt_slot r c))\<lparr>lastJournalEntry := last (reply_entries E r)\<rparr>"
    using assms rows by (auto simp: journalReply_def processJournalReply_def Let_def)
  then show ?thesis
    using ss by (simp add: emit_refreshAllTables_def notify_tables_def)
qed

theorem journal_gap_refreshes_witness:
  "RefreshAllTables \<in> set (chainSignals (journalReply plain_env (journal_page [8, 9]) (at_entry 9))) \<and>
   entryId (lastJournalEntry (journalReply plain_env (journal_page [5]) (at_entry 9))) = 5"
proof -
  have v: "entryId (lastJournalEntry (at_entry 9)) = 9"
    by (simp add: at_entry_def entry_of_row)
  show ?thesis
    using journal_gap_refreshes[OF page_reply(1), of plain_env "[8, 9]" "at_entry 9"]
      journal_gap_refreshes[OF page_reply(1), of plain_env "[5]" "at_entry 9"]
    by (auto simp: page_entries entry_of_row v)
qed

subsection \<open>The registry of tables\<close>

text \<open>
  C11. In every reachable state the registry gives one table per group and one group per table, the
  table of a group has the group's number as its scope for as long as it lives, and asking for a
  registered group returns the same table and changes nothing.
\<close>

theorem registry_gives_one_table:
  assumes "chain_reachable E c" "groupAccountsTables c g = Some a"
  shows "getGroupMembersTable E g b c = (a, c) \<and>
    (\<forall>t. memberTables c a = Some t \<longrightarrow> scope t = number (unat g)) \<and>
    (\<forall>g'. groupAccountsTables c g' = Some a \<longrightarrow> g' = g)"
proof (intro conjI allI impI)
  note ok = chain_reachable_registry[OF assms(1)]
  show "getGroupMembersTable E g b c = (a, c)" using assms(2) by (simp add: getGroupMembersTable_def)
  show "scope t = number (unat g)" if "memberTables c a = Some t" for t
    using registry_okD(3)[OF ok assms(2) that] .
  show "g' = g" if "groupAccountsTables c g' = Some a" for g'
    using registry_okD(4)[OF ok that assms(2)] .
qed

definition members_of_4 :: chain where
  "members_of_4 = snd (getGroupMembersTable plain_env 4 11 new_chain)"

lemma members_of_4_reachable: "chain_reachable plain_env members_of_4"
  using chain_step[OF chain_start, of "ChGetMembers 4 11" plain_env members_of_4]
  by (simp add: members_of_4_def new_chain_def)

lemma members_of_4_tables:
  "groupAccountsTables members_of_4 = [4 \<mapsto> 11]" "memberCreatedFor members_of_4 = [11 \<mapsto> 4]"
  "memberTables members_of_4 = [11 \<mapsto> new_table (member_row plain_env) (number 4)]"
  by (simp_all add: members_of_4_def getGroupMembersTable_def new_chain_def)

theorem registry_gives_one_table_witness:
  "getGroupMembersTable plain_env 4 12 members_of_4 = (11, members_of_4)"
  using registry_gives_one_table[OF members_of_4_reachable, of 4 11 12] by (simp add: members_of_4_tables)

text \<open>
  C31. When a members table that was rescoped is destroyed, the registry keeps its address under the
  new group, and the next request for that group returns the destroyed object.
\<close>

theorem rescoped_table_dangles:
  assumes "groupAccountsTables c old = Some a" "memberTables c a = Some t" "memberCreatedFor c a = Some old"
    "groupAccountsTables c new = None"
  shows "\<exists>c1. rescopeGroupMembersTable E old new c = Inr c1 \<and> groupAccountsTables c1 new = Some a \<and>
    (let c2 = memberTableDestroyed a c1 in
       memberTables c2 a = None \<and> groupAccountsTables c2 new = Some a \<and> fst (getGroupMembersTable E new b c2) = a \<and>
       members_call E a f c2 = Inl (TableFault (DestroyedObject a)))"
proof -
  have ne: "new \<noteq> old" using assms(1,4) by auto
  show ?thesis
    using assms ne
    by (auto simp: rescopeGroupMembersTable_def memberTableDestroyed_def getGroupMembersTable_def members_call_def Let_def)
qed

theorem rescoped_table_dangles_witness:
  "\<exists>c1. rescopeGroupMembersTable plain_env 4 9 members_of_4 = Inr c1 \<and>
     fst (getGroupMembersTable plain_env 9 12 (memberTableDestroyed 11 c1)) = 11"
  using rescoped_table_dangles[of members_of_4 4 11 "new_table (member_row plain_env) (number 4)" 9 plain_env 12 OpFullRefresh]
  by (auto simp: members_of_4_tables Let_def)

end
