(* ===== verification/Polling.thy ===== *)
theory Polling
  imports ChainProperties
begin

text \<open>
  The polling of the node as a whole: what the timer, the status and its announcements have to do with
  one another in every reachable state of the blockchain interface, and what \<open>disconnect\<close> leaves running.
\<close>

subsection \<open>The invariant\<close>

definition statuses :: "chain_signal list \<Rightarrow> SyncStatus list" where
  "statuses ss = concat (map (\<lambda>s. case s of SyncStatusChanged x \<Rightarrow> [x] | _ \<Rightarrow> []) ss)"

lemma statuses_simps [simp]:
  "statuses [] = []" "statuses (ss @ ss') = statuses ss @ statuses ss'"
  "statuses [SyncStatusChanged x] = [x]" "statuses [NodeUrlChanged u] = []" "statuses [ChainIdChanged u] = []"
  "statuses [HeadBlockChanged] = []" "statuses [SyncIntervalChanged n] = []" "statuses [SyncStaleSecondsChanged n] = []"
  "statuses [ServerLatencyChanged l] = []" "statuses [NodeError k] = []" "statuses [NodeResponseNonsense] = []"
  "statuses [NewJournalEntries es] = []" "statuses [RefreshAllTables] = []"
  by (simp_all add: statuses_def)

text \<open>
  The timer runs only while the interface is not idle; the status is the last one announced; no status
  is announced twice in a row; \<open>Connected\<close> is never a status.
\<close>

definition polling_ok :: "chain \<Rightarrow> bool" where
  "polling_ok c \<longleftrightarrow> (syncTimer c \<noteq> None \<longrightarrow> syncStatus c \<noteq> Idle) \<and>
     last (Idle # statuses (chainSignals c)) = syncStatus c \<and>
     distinct_adj (Idle # statuses (chainSignals c)) \<and> Connected \<notin> set (statuses (chainSignals c))"

lemma polling_ok_cong:
  "syncTimer c' = syncTimer c \<Longrightarrow> syncStatus c' = syncStatus c \<Longrightarrow> statuses (chainSignals c') = statuses (chainSignals c) \<Longrightarrow>
     polling_ok c' = polling_ok c"
  by (simp add: polling_ok_def)

lemma polling_ok_emit [simp]: "statuses [x] = [] \<Longrightarrow> polling_ok (chain_emit x c) = polling_ok c"
  by (rule polling_ok_cong) simp_all

text \<open>The announcement of a new status.\<close>

lemma polling_ok_announce:
  assumes "polling_ok c" "s \<noteq> syncStatus c" "s \<noteq> Connected" "syncTimer c \<noteq> None \<Longrightarrow> s \<noteq> Idle"
  shows "polling_ok (chain_emit (SyncStatusChanged s) (c\<lparr>syncStatus := s\<rparr>))"
proof -
  have "distinct_adj (xs @ [s])" if "distinct_adj xs" "last xs \<noteq> s" for xs
    using that by (simp add: distinct_adj_append_iff)
  from this[of "Idle # statuses (chainSignals c)"]
  have "distinct_adj (Idle # statuses (chainSignals c) @ [s])"
    using assms(1,2) unfolding polling_ok_def by (metis append_Cons)
  then show ?thesis using assms by (simp add: polling_ok_def)
qed

lemma polling_ok_update:
  "polling_ok c \<Longrightarrow> s \<noteq> Idle \<Longrightarrow> s \<noteq> Connected \<Longrightarrow> polling_ok (updateSyncStatus s c)"
  by (simp add: updateSyncStatus_def polling_ok_announce)

lemma polling_ok_disconnect:
  assumes "polling_ok c"
  shows "polling_ok (disconnect c)" "syncStatus (disconnect c) = Idle" "syncTimer (disconnect c) = None"
proof -
  show "syncStatus (disconnect c) = Idle" "syncTimer (disconnect c) = None" by (simp_all add: disconnect_def stopTimer_def)
  define c0 where "c0 = c\<lparr>syncTimer := None\<rparr>"
  have c0: "polling_ok c0" "syncStatus c0 = syncStatus c" using assms by (simp_all add: c0_def polling_ok_def)
  have eq: "disconnect c = (if syncStatus c0 \<noteq> Idle then chain_emit (SyncStatusChanged Idle) (c0\<lparr>syncStatus := Idle\<rparr>) else c0)"
    by (simp add: disconnect_def stopTimer_def c0_def chain_emit_def)
  show "polling_ok (disconnect c)"
    using c0 polling_ok_announce[OF c0(1), of Idle] by (auto simp: eq) (simp add: c0_def)
qed

lemma beginSync_status [simp]:
  "syncTimer (beginSync c) = syncTimer c" "syncStatus (beginSync c) = syncStatus c"
  "chainSignals (beginSync c) = chainSignals c"
  by (simp_all add: beginSync_def Let_def)

lemma polling_ok_connectNow:
  assumes "polling_ok c"
  shows "polling_ok (connectNow c)"
proof -
  note d = polling_ok_disconnect[OF assms]
  define c2 where "c2 = chain_emit (SyncStatusChanged WaitingForConnection) ((disconnect c)\<lparr>syncStatus := WaitingForConnection\<rparr>)"
  have c2: "polling_ok c2" "syncStatus c2 = WaitingForConnection"
    using polling_ok_announce[OF d(1), of WaitingForConnection] d(2) by (simp_all add: c2_def)
  then have "polling_ok (resetTimer k (beginSync c2))" for k
    by (simp add: polling_ok_def resetTimer_def stopTimer_def)
  then show ?thesis using assms by (simp add: connectNow_def Let_def c2_def[symmetric])
qed

subsection \<open>Replies\<close>

lemma polling_ok_rtt [simp]: "polling_ok (rtt_slot r c) = polling_ok c"
  by (rule polling_ok_cong) (simp_all add: rtt_slot_def Let_def)

lemma polling_ok_with_error: "polling_ok c \<Longrightarrow> polling_ok (with_error r c)"
  by (simp add: with_error_def error_slot_def Let_def polling_ok_update)

lemma polling_ok_finished: "polling_ok c \<Longrightarrow> polling_ok (finished_slot r c)"
  by (simp add: finished_slot_def polling_ok_update)

lemma polling_ok_info_fields:
  "polling_ok (c\<lparr>chainId := i\<rparr>) = polling_ok c"
  "polling_ok (c\<lparr>headBlockId := b, headBlockNumber := n, irreversibleBlockNumber := m, headBlockTime := tm\<rparr>) = polling_ok c"
  by (rule polling_ok_cong; simp)+

lemma polling_ok_processInfoReply: "polling_ok c \<Longrightarrow> polling_ok (processInfoReply E r c)"
  by (simp add: processInfoReply_def Let_def polling_ok_update polling_ok_info_fields)

lemma polling_ok_tables:
  "polling_ok (notify_tables f g c) = polling_ok c" "polling_ok (c\<lparr>lastJournalEntry := e\<rparr>) = polling_ok c"
  "polling_ok (c\<lparr>pollingGroupTable := x\<rparr>) = polling_ok c" "polling_ok (c\<lparr>memberTables := y\<rparr>) = polling_ok c"
  by (rule polling_ok_cong; simp add: notify_tables_def)+

lemma polling_ok_journalReply: "polling_ok c \<Longrightarrow> polling_ok (journalReply E r c)"
  by (auto simp: journalReply_def processJournalReply_def Let_def polling_ok_update emit_newJournalEntries_def
      emit_refreshAllTables_def polling_ok_tables split: option.split)

lemma polling_ok_connectedReply: "polling_ok c \<Longrightarrow> polling_ok (connectedReply r c)"
  by (simp add: connectedReply_def polling_ok_finished polling_ok_with_error)

text \<open>Registry operations touch no part of the polling.\<close>

lemma rescope_same:
  "rescopeGroupMembersTable E old new c = Inr c' \<Longrightarrow>
     syncTimer c' = syncTimer c \<and> syncStatus c' = syncStatus c \<and> chainSignals c' = chainSignals c \<and> calls c' = calls c"
  by (auto simp: rescopeGroupMembersTable_def Let_def split: option.splits if_splits)

lemma rescope_all_same:
  "rescope_all E xs c = Inr c' \<Longrightarrow>
     syncTimer c' = syncTimer c \<and> syncStatus c' = syncStatus c \<and> chainSignals c' = chainSignals c \<and> calls c' = calls c"
proof (induction E xs c rule: rescope_all.induct)
  case (2 E old new xs c)
  then show ?case by (auto split: sum.splits dest!: rescope_same)
qed simp

lemma groupReply_same:
  assumes "groupReply E q r c = Inr c'"
  shows "syncTimer c' = syncTimer (connectedReply r c) \<and> syncStatus c' = syncStatus (connectedReply r c) \<and>
    chainSignals c' = chainSignals (connectedReply r c) \<and> calls c' = calls (connectedReply r c)"
  using assms by (auto simp: groupReply_def Let_def split: option.splits dest!: rescope_all_same)

lemma memberReply_same:
  "syncTimer (memberReply E a q r c) = syncTimer (connectedReply r c)"
  "syncStatus (memberReply E a q r c) = syncStatus (connectedReply r c)"
  "chainSignals (memberReply E a q r c) = chainSignals (connectedReply r c)"
  "calls (memberReply E a q r c) = calls (connectedReply r c)"
  by (simp_all add: memberReply_def Let_def)

text \<open>The calls of the tables' own operations.\<close>

lemma call_same:
  "groups_call E h c = Inr c' \<Longrightarrow>
     syncTimer c' = syncTimer c \<and> syncStatus c' = syncStatus c \<and> chainSignals c' = chainSignals c \<and> calls c' = calls c"
  "members_call E a k c = Inr c' \<Longrightarrow>
     syncTimer c' = syncTimer c \<and> syncStatus c' = syncStatus c \<and> chainSignals c' = chainSignals c \<and> calls c' = calls c"
  by (auto simp: groups_call_def members_call_def split: option.splits sum.splits)

lemma registry_same_polling:
  "syncTimer (snd (getPollingGroupTable E a c)) = syncTimer c" "syncStatus (snd (getPollingGroupTable E a c)) = syncStatus c"
  "chainSignals (snd (getPollingGroupTable E a c)) = chainSignals c" "calls (snd (getPollingGroupTable E a c)) = calls c"
  "syncTimer (snd (getGroupMembersTable E g a c)) = syncTimer c" "syncStatus (snd (getGroupMembersTable E g a c)) = syncStatus c"
  "chainSignals (snd (getGroupMembersTable E g a c)) = chainSignals c" "calls (snd (getGroupMembersTable E g a c)) = calls c"
  "syncTimer (pollingGroupTableDestroyed c) = syncTimer c" "syncStatus (pollingGroupTableDestroyed c) = syncStatus c"
  "chainSignals (pollingGroupTableDestroyed c) = chainSignals c" "calls (pollingGroupTableDestroyed c) = calls c"
  "syncTimer (memberTableDestroyed a c) = syncTimer c" "syncStatus (memberTableDestroyed a c) = syncStatus c"
  "chainSignals (memberTableDestroyed a c) = chainSignals c" "calls (memberTableDestroyed a c) = calls c"
  by (simp_all add: getPollingGroupTable_def getGroupMembersTable_def pollingGroupTableDestroyed_def
      memberTableDestroyed_def split: option.split)

subsection \<open>Every operation\<close>

lemma polling_ok_setters:
  "polling_ok c \<Longrightarrow> polling_ok (setNodeUrl E u c)"
  "polling_ok (setSyncInterval n c) = polling_ok c" "polling_ok (setSyncStaleSeconds n c) = polling_ok c"
  "polling_ok (submitTransaction trx c) = polling_ok c" "polling_ok (getBlock b c) = polling_ok c"
proof -
  have "polling_ok (c\<lparr>nodeUrl := x\<rparr>) = polling_ok c" for x by (rule polling_ok_cong) simp_all
  then show "polling_ok c \<Longrightarrow> polling_ok (setNodeUrl E u c)"
    by (simp add: setNodeUrl_def Let_def polling_ok_connectNow)
  have "polling_ok (c\<lparr>syncInterval := x\<rparr>) = polling_ok c" "polling_ok (c\<lparr>syncStaleSeconds := x\<rparr>) = polling_ok c" for x
    by (rule polling_ok_cong; simp)+
  then show "polling_ok (setSyncInterval n c) = polling_ok c" "polling_ok (setSyncStaleSeconds n c) = polling_ok c"
    by (simp_all add: setSyncInterval_def setSyncStaleSeconds_def)
  have "polling_ok (makeCall k p b c) = polling_ok c" for k p b by (rule polling_ok_cong) simp_all
  then show "polling_ok (submitTransaction trx c) = polling_ok c" "polling_ok (getBlock b c) = polling_ok c"
    by (simp_all add: submitTransaction_def getBlock_def split: option.split)
qed

text \<open>Requests and destructions of tables, and the calls of their operations.\<close>

fun table_op :: "chain_op \<Rightarrow> bool" where
  "table_op (ChGetGroups a) = True"
| "table_op (ChGetMembers g a) = True"
| "table_op ChGroupsDestroyed = True"
| "table_op (ChMembersDestroyed a) = True"
| "table_op (ChGroupsCall h) = True"
| "table_op (ChMembersCall a k) = True"
| "table_op _ = False"

lemma table_op_same:
  assumes "table_op f" "chain_apply E f c = Inr c'"
  shows "syncTimer c' = syncTimer c \<and> syncStatus c' = syncStatus c \<and> chainSignals c' = chainSignals c \<and> calls c' = calls c"
  using assms by (cases f) (auto simp: registry_same_polling dest!: call_same)

lemma polling_ok_step:
  assumes "polling_ok c" "chain_apply E f c = Inr c'"
  shows "polling_ok c'"
proof (cases "table_op f")
  case True
  then have "polling_ok c' = polling_ok c" using table_op_same[OF _ assms(2)] by (intro polling_ok_cong) simp_all
  with assms(1) show ?thesis by simp
next
  case False
  show ?thesis
  proof (cases f)
    case (ChGroupsReply q r)
    then have "polling_ok c' = polling_ok (connectedReply r c)"
      using assms(2) by (intro polling_ok_cong) (auto simp: lift_object_def split: sum.splits dest!: groupReply_same)
    then show ?thesis using assms(1) by (simp add: polling_ok_connectedReply)
  next
    case (ChMembersReply a q r)
    then have "polling_ok c' = polling_ok (connectedReply r c)"
      using assms(2) by (intro polling_ok_cong) (auto simp: memberReply_same)
    then show ?thesis using assms(1) by (simp add: polling_ok_connectedReply)
  next
    case ChTimer
    have "polling_ok (beginSync c) = polling_ok c" by (rule polling_ok_cong) simp_all
    with ChTimer assms show ?thesis by auto
  qed (use assms False in \<open>auto simp: infoReply_def polling_ok_finished polling_ok_processInfoReply polling_ok_with_error
      polling_ok_journalReply polling_ok_connectedReply polling_ok_connectNow polling_ok_disconnect polling_ok_setters\<close>)
qed

lemma chain_reachable_polling: "chain_reachable E c \<Longrightarrow> polling_ok c"
proof (induction rule: chain_reachable.induct)
  case chain_start
  then show ?case by (simp add: polling_ok_def new_chain_def)
qed (rule polling_ok_step)

text \<open>
  C36. In every reachable state of the blockchain interface: the timer that polls the node runs only
  while the status is not \<open>Idle\<close>; the status is the one QML was told last, and QML is never told the
  same status twice in a row; and \<open>Connected\<close> is never the status, as \<open>cpp/BlockchainInterface.hpp\<close> says.
\<close>

theorem polling_life_cycle:
  assumes "chain_reachable E c"
  shows "(syncTimer c \<noteq> None \<longrightarrow> syncStatus c \<noteq> Idle) \<and>
    syncStatus c = last (Idle # statuses (chainSignals c)) \<and>
    distinct_adj (Idle # statuses (chainSignals c)) \<and> syncStatus c \<noteq> Connected"
proof -
  have ok: "polling_ok c" by (rule chain_reachable_polling[OF assms])
  then have "syncStatus c \<in> set (Idle # statuses (chainSignals c))"
    unfolding polling_ok_def by (metis last_in_set list.distinct(1))
  then have "syncStatus c \<noteq> Connected" using ok by (auto simp: polling_ok_def)
  with ok show ?thesis by (auto simp: polling_ok_def)
qed

definition polled_chain :: chain where
  "polled_chain = infoReply plain_env (ok_reply JNull) (setNodeUrl plain_env ''http://n'' new_chain)"

lemma polled_chain_reachable: "chain_reachable plain_env polled_chain"
proof -
  have "chain_reachable plain_env (setNodeUrl plain_env ''http://n'' new_chain)"
    by (rule chain_step[OF chain_start, of "ChSetUrl ''http://n''"]) simp_all
  then show ?thesis
    unfolding polled_chain_def by (rule chain_step[of _ _ "ChInfoReply (ok_reply JNull)"]) simp_all
qed

lemma polled_chain_state:
  "syncTimer polled_chain = Some 2500" "statuses (chainSignals polled_chain) = [WaitingForConnection, RecoveringConnection, Synchronized]"
  by code_simp+

theorem polling_life_cycle_witness: "syncStatus polled_chain = Synchronized \<and> syncTimer polled_chain \<noteq> None"
  using polling_life_cycle[OF polled_chain_reachable] by (simp add: polled_chain_state)

subsection \<open>After disconnecting\<close>

text \<open>The states reached from \<open>c\<close> by operations that are not in \<open>A\<close>.\<close>

inductive avoiding :: "env \<Rightarrow> chain_op set \<Rightarrow> chain \<Rightarrow> chain \<Rightarrow> bool" for E A c where
  avoiding_start: "avoiding E A c c"
| avoiding_step: "avoiding E A c d \<Longrightarrow> f \<notin> A \<Longrightarrow> chain_op_ok f d \<Longrightarrow> chain_apply E f d = Inr d' \<Longrightarrow> avoiding E A c d'"

definition reconnections :: "chain_op set" where
  "reconnections = insert ChConnect (range ChSetUrl)"

text \<open>The requests of \<open>beginSync\<close>.\<close>

definition polls :: "chain \<Rightarrow> (chain_call \<times> string \<times> content) list" where
  "polls c = filter (\<lambda>x. fst x = InfoCall \<or> fst x = JournalCall) (calls c)"

lemma slot_calls [simp]:
  "calls (updateSyncStatus s c) = calls c" "calls (rtt_slot r c) = calls c"
  "calls (with_error r c) = calls c" "calls (finished_slot r c) = calls c" "calls (disconnect c) = calls c"
  "calls (processInfoReply E r c) = calls c" "calls (journalReply E r c) = calls c"
  "syncTimer (journalReply E r c) = syncTimer c" "syncTimer (disconnect c) = None"
  by (auto simp: updateSyncStatus_def rtt_slot_def with_error_def error_slot_def finished_slot_def disconnect_def stopTimer_def
      processInfoReply_def journalReply_def processJournalReply_def emit_newJournalEntries_def emit_refreshAllTables_def
      notify_tables_def Let_def split: option.split)

lemma disconnected_step:
  assumes "syncTimer c = None" "f \<notin> reconnections" "chain_op_ok f c" "chain_apply E f c = Inr c'"
  shows "syncTimer c' = None \<and> polls c' = polls c"
proof (cases "table_op f")
  case True
  then show ?thesis using table_op_same[OF _ assms(4)] assms(1) by (simp add: polls_def)
next
  case False
  have conn: "syncTimer (connectedReply r c) = None" "calls (connectedReply r c) = calls c" for r
    using assms(1) by (simp_all add: connectedReply_def)
  show ?thesis
  proof (cases f)
    case (ChGroupsReply q r)
    then show ?thesis using assms(4) conn[of r]
      by (auto simp: polls_def lift_object_def split: sum.splits dest!: groupReply_same)
  next
    case (ChMembersReply a q r)
    then show ?thesis using assms(4) conn[of r] by (auto simp: polls_def memberReply_same)
  next
    case (ChBlockReply r)
    then show ?thesis using assms(4) conn[of r] by (auto simp: polls_def)
  qed (use assms False in \<open>auto simp: polls_def infoReply_def reconnections_def setSyncInterval_def
      setSyncStaleSeconds_def submitTransaction_def getBlock_def split: option.splits\<close>)
qed

lemma avoiding_disconnected:
  "avoiding E reconnections d c \<Longrightarrow> syncTimer d = None \<Longrightarrow> syncTimer c = None \<and> polls c = polls d"
  by (induction rule: avoiding.induct) (auto dest: disconnected_step)

text \<open>
  C37. Disconnecting is not final: requests that are under way are not aborted, and the reply to one of
  them makes the interface \<open>Synchronized\<close> again, or \<open>SynchronizedStale\<close>.  But nothing polls the node
  any more: until the next connection no timer runs, and no request for the head block or the journal
  is sent, whatever happens.
\<close>

theorem disconnect_is_not_final:
  assumes "avoiding E reconnections (disconnect c) c'" "nrError r = NoError"
  shows "syncStatus (infoReply E r c') \<in> {Synchronized, SynchronizedStale} \<and>
    syncStatus (connectedReply r c') \<in> {Synchronized, SynchronizedStale} \<and>
    (\<forall>c''. avoiding E reconnections (infoReply E r c') c'' \<longrightarrow> syncTimer c'' = None \<and> polls c'' = polls c)"
proof -
  have c': "syncTimer c' = None" "polls c' = polls c"
    using avoiding_disconnected[OF assms(1)] by (simp_all add: polls_def)
  have i: "syncTimer (infoReply E r c') = None" "polls (infoReply E r c') = polls c"
    using c' by (simp_all add: infoReply_def polls_def)
  have "syncTimer c'' = None \<and> polls c'' = polls c" if "avoiding E reconnections (infoReply E r c') c''" for c''
    using avoiding_disconnected[OF that i(1)] i(2) by simp
  then show ?thesis using assms(2) by (simp add: infoReply_def connectedReply_def finished_slot_status)
qed

theorem disconnect_is_not_final_witness:
  "syncStatus (infoReply plain_env (ok_reply JNull) (disconnect polled_chain)) \<in> {Synchronized, SynchronizedStale} \<and>
   syncTimer (infoReply plain_env (ok_reply JNull) (disconnect polled_chain)) = None"
  using disconnect_is_not_final[OF avoiding_start, of "ok_reply JNull" plain_env polled_chain]
    avoiding_start[of plain_env reconnections "infoReply plain_env (ok_reply JNull) (disconnect polled_chain)"]
  by (simp add: ok_reply_def)

subsection \<open>An address that is not valid\<close>

text \<open>
  \<open>connectNow\<close> returns before it disconnects when the new address is empty or invalid: the old timer
  goes on, and its ticks call the new address.
\<close>

lemma invalid_url_keeps_polling:
  assumes "fromUserInput E txt = u" "u \<noteq> nodeUrl c" "urlEmpty u \<or> \<not> urlValid u"
  shows "syncTimer (setNodeUrl E txt c) = syncTimer c \<and> syncStatus (setNodeUrl E txt c) = syncStatus c \<and>
    polls (beginSync (setNodeUrl E txt c)) = polls c @
      [(InfoCall, urlText u @ GetInfo, Text ''{}''),
       (JournalCall, urlText u @ GetTableRows, Text (journal_request c))]"
proof -
  have j: "journal_request (makeCall k p b (chain_emit s (d\<lparr>nodeUrl := w\<rparr>))) = journal_request d" for k p b s d w
    by (simp add: journal_request_def)
  have "setNodeUrl E txt c = chain_emit (NodeUrlChanged (urlText u)) (c\<lparr>nodeUrl := u\<rparr>)"
    using assms by (auto simp: setNodeUrl_def Let_def connectNow_def)
  then show ?thesis by (simp add: beginSync_def Let_def polls_def j)
qed

end
