(* ===== verification/Components.thy ===== *)
theory Components
  imports QtData
begin

text \<open>
  \<open>Qappa/ComponentManager.*\<close> and \<open>Qappa/UXManager.*\<close>: the creation of QML objects.  A
  \<open>QQmlComponent\<close> is an address with a status that Qt changes; an incubator is an address too, and lives
  exactly while its \<open>unique_ptr\<close> is in the vector \<open>incubators\<close>: destroying it cancels the creation.
  What Qt decides is an argument: the address and status of a new component, and \<open>D a\<close>, whether the
  incubator at address \<open>a\<close> finishes before \<open>create\<close> returns.  What a callback does with the object is
  not modelled, only that it is called.
\<close>

subsection \<open>State\<close>

datatype component_status = ComponentNull | ComponentLoading | ComponentReady | ComponentError

text \<open>A \<open>std::function\<close> given by C++, or a JavaScript function that gets the object through the engine.\<close>

datatype callback = Native nat | Script nat

datatype ux_property = ComponentManagerPtr | UxManagerPtr | OtherProperty json

record creation =
  crParent :: "nat option"
  crProperties :: "string \<rightharpoonup> ux_property"
  crCallback :: "callback option"

record incubator =
  inId :: nat
  inIndex :: nat
  inDone :: bool
  inCreation :: creation

datatype incubation = Later | Now "nat option"

datatype component_fault = BadFunctionCall | EraseOutOfRange nat

record manager =
  cmEngine :: bool
  cmStatus :: "nat \<Rightarrow> component_status"
  cmFileCache :: "string \<rightharpoonup> nat"
  cmSourceCache :: "string \<rightharpoonup> nat"
  cmWaiting :: "(nat \<times> creation) list"
  cmIncubators :: "incubator list"
  cmFresh :: nat
  cmCalls :: "(callback \<times> nat option) list"
  cmAdopted :: "(nat \<times> nat option) list"

definition new_manager :: "bool \<Rightarrow> manager" where
  "new_manager engine = \<lparr>cmEngine = engine, cmStatus = (\<lambda>_. ComponentNull), cmFileCache = Map.empty,
     cmSourceCache = Map.empty, cmWaiting = [], cmIncubators = [], cmFresh = 0, cmCalls = [], cmAdopted = []\<rparr>"

definition engineDestroyed :: "manager \<Rightarrow> manager" where
  "engineDestroyed m = m\<lparr>cmEngine := False\<rparr>"

text \<open>\<open>jsCast\<close>: without an engine a script gets null.\<close>

definition answer :: "manager \<Rightarrow> callback \<Rightarrow> nat option \<Rightarrow> nat option" where
  "answer m cb obj = (case cb of Native _ \<Rightarrow> obj | Script _ \<Rightarrow> if cmEngine m then obj else None)"

text \<open>Calling an empty \<open>std::function\<close> throws.\<close>

definition call_back :: "callback option \<Rightarrow> nat option \<Rightarrow> manager \<Rightarrow> component_fault + manager" where
  "call_back cb obj m =
     (case cb of None \<Rightarrow> Inl BadFunctionCall
      | Some f \<Rightarrow> Inr (m\<lparr>cmCalls := cmCalls m @ [(f, answer m f obj)]\<rparr>))"

subsection \<open>Incubation\<close>

text \<open>The wrapped callback: the caller's, then the erasure at the position saved at creation.\<close>

definition wrapped_callback :: "incubator \<Rightarrow> nat option \<Rightarrow> manager \<Rightarrow> component_fault + manager" where
  "wrapped_callback inc obj m =
     and_then (call_back (crCallback (inCreation inc)) obj m) (\<lambda>m1.
       if inIndex inc < length (cmIncubators m1)
       then Inr (m1\<lparr>cmIncubators := remove_at (inIndex inc) (cmIncubators m1)\<rparr>)
       else Inl (EraseOutOfRange (inIndex inc)))"

text \<open>\<open>Incubator::statusChanged\<close>: \<open>None\<close> for an error, \<open>Some\<close> object when it is ready.\<close>

definition incubator_status :: "incubator \<Rightarrow> nat option \<Rightarrow> manager \<Rightarrow> component_fault + manager" where
  "incubator_status inc obj m =
     (case obj of
        None \<Rightarrow> wrapped_callback inc None m
      | Some ob \<Rightarrow> wrapped_callback inc (Some ob) (m\<lparr>cmAdopted := cmAdopted m @ [(ob, crParent (inCreation inc))]\<rparr>))"

definition mark_done :: "nat \<Rightarrow> incubator list \<Rightarrow> incubator list" where
  "mark_done a = map (\<lambda>i. if inId i = a then i\<lparr>inDone := True\<rparr> else i)"

text \<open>Qt finishes the incubator at address \<open>a\<close>, if it is alive and still at work.\<close>

definition incubatorFinished :: "nat \<Rightarrow> nat option \<Rightarrow> manager \<Rightarrow> component_fault + manager" where
  "incubatorFinished a obj m =
     (case find (\<lambda>i. inId i = a \<and> \<not> inDone i) (cmIncubators m) of
        None \<Rightarrow> Inr m
      | Some inc \<Rightarrow> incubator_status inc obj (m\<lparr>cmIncubators := mark_done a (cmIncubators m)\<rparr>))"

definition finishCreation ::
  "(nat \<Rightarrow> incubation) \<Rightarrow> nat option \<Rightarrow> creation \<Rightarrow> manager \<Rightarrow> component_fault + manager" where
  "finishCreation D component cr m =
     (case component of None \<Rightarrow> call_back (crCallback cr) None m | Some c \<Rightarrow>
      if cmStatus m c = ComponentLoading then Inr m
      else if cmStatus m c = ComponentNull then Inr m
      else if cmStatus m c = ComponentError then call_back (crCallback cr) None m
      else
        let a = cmFresh m;
            inc = \<lparr>inId = a, inIndex = length (cmIncubators m), inDone = False, inCreation = cr\<rparr>;
            m1 = m\<lparr>cmFresh := Suc a, cmIncubators := cmIncubators m @ [inc]\<rparr>
        in case D a of Later \<Rightarrow> Inr m1 | Now obj \<Rightarrow> incubatorFinished a obj m1)"

definition beginCreation ::
  "(nat \<Rightarrow> incubation) \<Rightarrow> nat option \<Rightarrow> creation \<Rightarrow> manager \<Rightarrow> component_fault + manager" where
  "beginCreation D component cr m =
     (case component of None \<Rightarrow> call_back (crCallback cr) None m | Some c \<Rightarrow>
      if cmStatus m c \<noteq> ComponentLoading then finishCreation D component cr m
      else Inr (m\<lparr>cmWaiting := cmWaiting m @ [(c, cr)]\<rparr>))"

text \<open>Every connection to \<open>statusChanged\<close> of the component runs, and none is undone.\<close>

fun finish_all :: "(nat \<Rightarrow> incubation) \<Rightarrow> nat \<Rightarrow> (nat \<times> creation) list \<Rightarrow> manager \<Rightarrow> component_fault + manager" where
  "finish_all D c [] m = Inr m"
| "finish_all D c ((c', cr) # ws) m =
     and_then (if c' = c then finishCreation D (Some c) cr m else Inr m) (finish_all D c ws)"

definition componentStatusChanged ::
  "(nat \<Rightarrow> incubation) \<Rightarrow> nat \<Rightarrow> component_status \<Rightarrow> manager \<Rightarrow> component_fault + manager" where
  "componentStatusChanged D c st m = finish_all D c (cmWaiting m) (m\<lparr>cmStatus := (cmStatus m)(c := st)\<rparr>)"

subsection \<open>Creating objects\<close>

text \<open>\<open>p\<close> and \<open>st\<close> are the address and the status of the component if one is made.\<close>

definition createObject_file ::
  "(nat \<Rightarrow> incubation) \<Rightarrow> nat \<Rightarrow> component_status \<Rightarrow> string \<Rightarrow> creation \<Rightarrow> manager \<Rightarrow> component_fault + manager" where
  "createObject_file D p st fileLocation cr m =
     (if \<not> cmEngine m then call_back (crCallback cr) None m
      else if crCallback cr = None then Inr m
      else case cmFileCache m fileLocation of
        Some component \<Rightarrow> beginCreation D (Some component) cr m
      | None \<Rightarrow> beginCreation D (Some p) cr
          (m\<lparr>cmStatus := (cmStatus m)(p := st), cmFileCache := (cmFileCache m)(fileLocation \<mapsto> p)\<rparr>))"

definition createObject_component ::
  "(nat \<Rightarrow> incubation) \<Rightarrow> nat option \<Rightarrow> creation \<Rightarrow> manager \<Rightarrow> component_fault + manager" where
  "createObject_component D component cr m =
     (if component = None then call_back (crCallback cr) None m
      else if crCallback cr = None then Inr m
      else if \<not> cmEngine m then call_back (crCallback cr) None m
      else beginCreation D component cr m)"

definition createObject_source ::
  "(nat \<Rightarrow> incubation) \<Rightarrow> nat \<Rightarrow> component_status \<Rightarrow> string \<Rightarrow> creation \<Rightarrow> manager \<Rightarrow> component_fault + manager" where
  "createObject_source D p st qmlSource cr m =
     (if \<not> cmEngine m then call_back (crCallback cr) None m
      else if crCallback cr = None then Inr m
      else case cmSourceCache m qmlSource of
        Some component \<Rightarrow> beginCreation D (Some component) cr m
      | None \<Rightarrow> beginCreation D (Some p) cr
          (m\<lparr>cmStatus := (cmStatus m)(p := st), cmSourceCache := (cmSourceCache m)(qmlSource \<mapsto> p)\<rparr>))"

text \<open>The calls for JavaScript wrap the function, so the callback is never empty.\<close>

definition script_creation :: "nat \<Rightarrow> nat option \<Rightarrow> (string \<rightharpoonup> ux_property) \<Rightarrow> creation" where
  "script_creation f parent properties =
     \<lparr>crParent = parent, crProperties = properties, crCallback = Some (Script f)\<rparr>"

definition createFromFile ::
  "(nat \<Rightarrow> incubation) \<Rightarrow> nat \<Rightarrow> component_status \<Rightarrow> string \<Rightarrow> nat \<Rightarrow> nat option \<Rightarrow> (string \<rightharpoonup> ux_property)
     \<Rightarrow> manager \<Rightarrow> component_fault + manager" where
  "createFromFile D p st fileLocation f parent properties =
     createObject_file D p st fileLocation (script_creation f parent properties)"

definition createFromComponent ::
  "(nat \<Rightarrow> incubation) \<Rightarrow> nat option \<Rightarrow> nat \<Rightarrow> nat option \<Rightarrow> (string \<rightharpoonup> ux_property)
     \<Rightarrow> manager \<Rightarrow> component_fault + manager" where
  "createFromComponent D component f parent properties =
     createObject_component D component (script_creation f parent properties)"

definition createFromSource ::
  "(nat \<Rightarrow> incubation) \<Rightarrow> nat \<Rightarrow> component_status \<Rightarrow> string \<Rightarrow> nat \<Rightarrow> nat option \<Rightarrow> (string \<rightharpoonup> ux_property)
     \<Rightarrow> manager \<Rightarrow> component_fault + manager" where
  "createFromSource D p st qmlSource f parent properties =
     createObject_source D p st qmlSource (script_creation f parent properties)"

subsection \<open>Starting the interface\<close>

text \<open>
  The search for the file: \<open>ex\<close> is \<open>QFile::exists\<close>, \<open>N\<close> the text a \<open>QUrl\<close> makes of a text.  The pair is
  the file name of \<open>qmlFile\<close> and \<open>fileUrl\<close>; \<open>mid(3)\<close> drops the \<open>qrc\<close>.
\<close>

fun search_prefixes :: "(string \<Rightarrow> bool) \<Rightarrow> (string \<Rightarrow> string) \<Rightarrow> string \<Rightarrow> string list \<Rightarrow> string \<times> string \<Rightarrow> string \<times> string" where
  "search_prefixes ex N name [] (file, url) = (file, url)"
| "search_prefixes ex N name (prefix # prefixes) (file, url) =
     (if ex file then (file, url)
      else search_prefixes ex N name prefixes (drop 3 (N (prefix @ name)), N (prefix @ name)))"

definition app_prefixes :: "string list" where
  "app_prefixes = [''qrc:/'', ''qrc:/qml/'']"

text \<open>The URL the search ends with, or \<open>None\<close> when there is no such file.\<close>

definition app_url :: "(string \<Rightarrow> bool) \<Rightarrow> (string \<Rightarrow> string) \<Rightarrow> bool \<Rightarrow> string \<Rightarrow> string option" where
  "app_url ex N relative name =
     (if relative then
        let (file, url) = search_prefixes ex N name app_prefixes (name, [])
        in if ex file then Some url else None
      else Some [])"

definition default_properties :: "(string \<rightharpoonup> ux_property) \<Rightarrow> (string \<rightharpoonup> ux_property)" where
  "default_properties props =
     (let p1 = (if props ''componentManager'' = None then props(''componentManager'' \<mapsto> ComponentManagerPtr) else props)
      in if p1 ''uxManager'' = None then p1(''uxManager'' \<mapsto> UxManagerPtr) else p1)"

text \<open>\<open>self\<close> is the UX manager, the parent of the created object; its callback does nothing.\<close>

definition ux_begin ::
  "(string \<Rightarrow> bool) \<Rightarrow> (string \<Rightarrow> string) \<Rightarrow> (nat \<Rightarrow> incubation) \<Rightarrow> nat \<Rightarrow> component_status \<Rightarrow> nat \<Rightarrow> bool \<Rightarrow> string
     \<Rightarrow> (string \<rightharpoonup> ux_property) \<Rightarrow> manager option \<Rightarrow> component_fault + manager option" where
  "ux_begin ex N D p st self relative name props manager =
     (case manager of None \<Rightarrow> Inr None | Some m \<Rightarrow>
      case app_url ex N relative name of None \<Rightarrow> Inr (Some m) | Some url \<Rightarrow>
        and_then (createObject_file D p st url
          \<lparr>crParent = Some self, crProperties = default_properties props, crCallback = Some (Native self)\<rparr> m)
          (\<lambda>m1. Inr (Some m1)))"

definition ux_setComponentManager :: "nat option \<Rightarrow> nat option \<Rightarrow> nat option \<times> bool" where
  "ux_setComponentManager new old = (if old \<noteq> new then (new, True) else (old, False))"

end
