(* ===== verification/ComponentProofs.thy ===== *)
theory ComponentProofs
  imports Components
begin

text \<open>
  Properties of the creation of objects: who is answered when a component settles, what happens to
  creations that overlap, and which file the application starts from.
\<close>

subsection \<open>Single steps\<close>

definition ids_ok :: "manager \<Rightarrow> bool" where
  "ids_ok m \<longleftrightarrow> distinct (map inId (cmIncubators m)) \<and> (\<forall>i \<in> set (cmIncubators m). inId i < cmFresh m)"

lemma find_None_fresh: "ids_ok m \<Longrightarrow> find (\<lambda>i. inId i = cmFresh m \<and> \<not> inDone i) (cmIncubators m) = None"
  by (auto simp: find_None_iff ids_ok_def)

lemma mark_done_fresh: "ids_ok m \<Longrightarrow> mark_done (cmFresh m) (cmIncubators m) = cmIncubators m"
  unfolding mark_done_def ids_ok_def by (intro map_idI) auto

lemma find_append: "find P (xs @ ys) = (case find P xs of None \<Rightarrow> find P ys | Some x \<Rightarrow> Some x)"
  by (induction xs) auto

lemma remove_at_length: "remove_at (length xs) (xs @ [x]) = xs"
  by (simp add: remove_at_def)

text \<open>An incubation that finishes before \<open>create\<close> returns leaves the vector as it was.\<close>

lemma finish_now:
  assumes "ids_ok m" "cmStatus m c = ComponentReady" "D (cmFresh m) = Now obj" "crCallback cr = Some f"
  shows "\<exists>m'. finishCreation D (Some c) cr m = Inr m' \<and> cmIncubators m' = cmIncubators m \<and>
    cmCalls m' = cmCalls m @ [(f, answer m f obj)] \<and> ids_ok m' \<and> cmStatus m' = cmStatus m \<and>
    cmEngine m' = cmEngine m \<and> cmFresh m' = Suc (cmFresh m)"
proof -
  let ?inc = "\<lparr>inId = cmFresh m, inIndex = length (cmIncubators m), inDone = False, inCreation = cr\<rparr>"
  have f: "find (\<lambda>i. inId i = cmFresh m \<and> \<not> inDone i) (cmIncubators m @ [?inc]) = Some ?inc"
    by (simp add: find_append find_None_fresh[OF assms(1)])
  have d: "mark_done (cmFresh m) (cmIncubators m @ [?inc]) = cmIncubators m @ [?inc\<lparr>inDone := True\<rparr>]"
    using mark_done_fresh[OF assms(1)] by (simp add: mark_done_def)
  show ?thesis
    using assms
    by (auto simp: finishCreation_def Let_def incubatorFinished_def f d incubator_status_def wrapped_callback_def
        call_back_def remove_at_length ids_ok_def answer_def less_SucI split: option.splits callback.splits)
qed

lemma finish_error:
  assumes "cmStatus m c = ComponentError" "crCallback cr = Some f"
  shows "finishCreation D (Some c) cr m = Inr (m\<lparr>cmCalls := cmCalls m @ [(f, None)]\<rparr>)"
  using assms by (simp add: finishCreation_def call_back_def answer_def split: callback.splits)

subsection \<open>Components that settle\<close>

definition creations_for :: "nat \<Rightarrow> (nat \<times> creation) list \<Rightarrow> creation list" where
  "creations_for c ws = map snd (filter (\<lambda>w. fst w = c) ws)"

lemma creations_for_simps [simp]:
  "creations_for c [] = []"
  "creations_for c ((c', cr) # ws) = (if c' = c then cr # creations_for c ws else creations_for c ws)"
  by (simp_all add: creations_for_def)

text \<open>
  The calls made for the creations whose incubator finishes inside \<open>create\<close>, and the creations that are
  still at work, with the addresses of their incubators; \<open>a\<close> is the address of the first.
\<close>

fun answered :: "(nat \<Rightarrow> incubation) \<Rightarrow> manager \<Rightarrow> nat \<Rightarrow> creation list \<Rightarrow> (callback \<times> nat option) list" where
  "answered D m a [] = []"
| "answered D m a (cr # crs) = (case D a of Later \<Rightarrow> []
     | Now obj \<Rightarrow> [(the (crCallback cr), answer m (the (crCallback cr)) obj)]) @ answered D m (Suc a) crs"

fun at_work :: "(nat \<Rightarrow> incubation) \<Rightarrow> nat \<Rightarrow> creation list \<Rightarrow> (nat \<times> creation) list" where
  "at_work D a [] = []"
| "at_work D a (cr # crs) = (case D a of Later \<Rightarrow> [(a, cr)] | Now obj \<Rightarrow> []) @ at_work D (Suc a) crs"

lemma answered_or_at_work: "length (answered D m a crs) + length (at_work D a crs) = length crs"
  by (induction crs arbitrary: a) (auto split: incubation.splits)

lemma answered_same_engine: "cmEngine m' = cmEngine m \<Longrightarrow> answered D m' a crs = answered D m a crs"
  by (induction crs arbitrary: a) (auto simp: answer_def split: incubation.splits callback.splits)

text \<open>What is at work: each incubator at its own position, not done, with a callback.\<close>

definition aligned :: "manager \<Rightarrow> bool" where
  "aligned m \<longleftrightarrow> ids_ok m \<and> (\<forall>k < length (cmIncubators m). inIndex (cmIncubators m ! k) = k \<and>
     \<not> inDone (cmIncubators m ! k) \<and> crCallback (inCreation (cmIncubators m ! k)) \<noteq> None)"

lemma finish_later:
  assumes "ids_ok m" "cmStatus m c = ComponentReady" "D (cmFresh m) = Later" "crCallback cr = Some f"
  shows "\<exists>m'. finishCreation D (Some c) cr m = Inr m' \<and> cmCalls m' = cmCalls m \<and> ids_ok m' \<and>
    cmIncubators m' = cmIncubators m @
      [\<lparr>inId = cmFresh m, inIndex = length (cmIncubators m), inDone = False, inCreation = cr\<rparr>] \<and>
    (aligned m \<longrightarrow> aligned m') \<and> cmStatus m' = cmStatus m \<and> cmEngine m' = cmEngine m \<and>
    cmFresh m' = Suc (cmFresh m)"
  using assms
  by (auto simp: finishCreation_def Let_def ids_ok_def aligned_def less_SucI less_Suc_eq nth_append)

lemma finish_all_failed:
  assumes "list_all (\<lambda>w. crCallback (snd w) \<noteq> None) ws" "cmStatus m c = ComponentError"
  shows "finish_all D c ws m = Inr (m\<lparr>cmCalls := cmCalls m @
    map (\<lambda>cr. (the (crCallback cr), None)) (creations_for c ws)\<rparr>)"
  using assms
proof (induction ws arbitrary: m)
  case (Cons w ws)
  obtain c' cr f where w: "w = (c', cr)" "crCallback cr = Some f" using Cons.prems(1) by (cases w) auto
  show ?case
    using Cons.IH[of m] Cons.IH[of "m\<lparr>cmCalls := cmCalls m @ [(f, None)]\<rparr>"] Cons.prems
      finish_error[of m c cr f D] w by simp
qed simp

lemma finish_all_ready:
  assumes "list_all (\<lambda>w. crCallback (snd w) \<noteq> None) ws" "ids_ok m" "cmStatus m c = ComponentReady"
  shows "\<exists>m' new. finish_all D c ws m = Inr m' \<and>
    cmCalls m' = cmCalls m @ answered D m (cmFresh m) (creations_for c ws) \<and>
    cmIncubators m' = cmIncubators m @ new \<and>
    map (\<lambda>i. (inId i, inCreation i)) new = at_work D (cmFresh m) (creations_for c ws) \<and>
    (aligned m \<longrightarrow> aligned m')"
  using assms
proof (induction ws arbitrary: m)
  case (Cons w ws)
  obtain c' cr f where w: "w = (c', cr)" "crCallback cr = Some f" using Cons.prems(1) by (cases w) auto
  have rest: "list_all (\<lambda>w. crCallback (snd w) \<noteq> None) ws" using Cons.prems(1) by simp
  show ?case
  proof (cases "c' = c")
    case False
    then show ?thesis using Cons.IH[OF rest Cons.prems(2,3)] by (simp add: w)
  next
    case True
    show ?thesis
    proof (cases "D (cmFresh m)")
      case Later
      obtain m1 where m1: "finishCreation D (Some c) cr m = Inr m1" "cmCalls m1 = cmCalls m" "ids_ok m1"
        "cmIncubators m1 = cmIncubators m @
          [\<lparr>inId = cmFresh m, inIndex = length (cmIncubators m), inDone = False, inCreation = cr\<rparr>]"
        "aligned m \<longrightarrow> aligned m1" "cmStatus m1 = cmStatus m" "cmEngine m1 = cmEngine m"
        "cmFresh m1 = Suc (cmFresh m)"
        using finish_later[of m c D cr f, OF Cons.prems(2,3) Later w(2)] by blast
      obtain m' new where "finish_all D c ws m1 = Inr m'"
        "cmCalls m' = cmCalls m1 @ answered D m1 (cmFresh m1) (creations_for c ws)"
        "cmIncubators m' = cmIncubators m1 @ new"
        "map (\<lambda>i. (inId i, inCreation i)) new = at_work D (cmFresh m1) (creations_for c ws)"
        "aligned m1 \<longrightarrow> aligned m'"
        using Cons.IH[OF rest m1(3)] Cons.prems(3) m1(6) by auto
      then show ?thesis
        using m1 True w Later answered_same_engine[OF m1(7)] by simp
    next
      case (Now obj)
      obtain m1 where m1: "finishCreation D (Some c) cr m = Inr m1" "cmIncubators m1 = cmIncubators m"
        "cmCalls m1 = cmCalls m @ [(f, answer m f obj)]" "ids_ok m1" "cmStatus m1 = cmStatus m"
        "cmEngine m1 = cmEngine m" "cmFresh m1 = Suc (cmFresh m)"
        using finish_now[of m c D obj cr f, OF Cons.prems(2,3) Now w(2)] by blast
      have al: "aligned m \<longrightarrow> aligned m1" using m1(2,4) by (simp add: aligned_def)
      obtain m' new where "finish_all D c ws m1 = Inr m'"
        "cmCalls m' = cmCalls m1 @ answered D m1 (cmFresh m1) (creations_for c ws)"
        "cmIncubators m' = cmIncubators m1 @ new"
        "map (\<lambda>i. (inId i, inCreation i)) new = at_work D (cmFresh m1) (creations_for c ws)"
        "aligned m1 \<longrightarrow> aligned m'"
        using Cons.IH[OF rest m1(4)] Cons.prems(3) m1(5) by auto
      then show ?thesis
        using m1 al True w Now answered_same_engine[OF m1(6)] by simp
    qed
  qed
qed simp

text \<open>
  C33. When the status of a component changes to error, every creation that waits for it is answered
  exactly once, in order, with null, and the vector of incubators is as before.  When it changes to ready,
  each waiting creation is started, in order: those whose incubator finishes inside \<open>create\<close> are answered
  once, in order, and leave no incubator; the others have not been called yet, and each has one incubator
  of its own, appended to the vector in order (with its own position saved, where that held before).
  Whether and when those finish is Qt's: C32 is about their answers.
\<close>

theorem settled_component_answers_all:
  assumes "list_all (\<lambda>w. crCallback (snd w) \<noteq> None) (cmWaiting m)" "ids_ok m"
    "st = ComponentError \<or> st = ComponentReady"
  shows "\<exists>m' new. componentStatusChanged D c st m = Inr m' \<and> cmIncubators m' = cmIncubators m @ new \<and>
    (let crs = creations_for c (cmWaiting m) in
     if st = ComponentError
     then cmCalls m' = cmCalls m @ map (\<lambda>cr. (the (crCallback cr), None)) crs \<and> new = []
     else cmCalls m' = cmCalls m @ answered D m (cmFresh m) crs \<and>
       map (\<lambda>i. (inId i, inCreation i)) new = at_work D (cmFresh m) crs \<and>
       length (answered D m (cmFresh m) crs) + length new = length crs \<and> (aligned m \<longrightarrow> aligned m'))"
proof -
  define m0 where "m0 = m\<lparr>cmStatus := (cmStatus m)(c := st)\<rparr>"
  have m0: "cmIncubators m0 = cmIncubators m" "cmCalls m0 = cmCalls m" "cmFresh m0 = cmFresh m"
    "cmEngine m0 = cmEngine m" "cmStatus m0 c = st" by (simp_all add: m0_def)
  have eq: "componentStatusChanged D c st m = finish_all D c (cmWaiting m) m0"
    by (simp add: componentStatusChanged_def m0_def)
  show ?thesis
  proof (cases "st = ComponentError")
    case True
    then show ?thesis unfolding eq using finish_all_failed[OF assms(1), of m0 c D] m0 by simp
  next
    case False
    then have "cmStatus m0 c = ComponentReady" using assms(3) m0(5) by simp
    moreover have ids: "ids_ok m0" using assms(2) m0 by (simp add: ids_ok_def)
    ultimately obtain m' new where m': "finish_all D c (cmWaiting m) m0 = Inr m'"
      "cmCalls m' = cmCalls m @ answered D m (cmFresh m) (creations_for c (cmWaiting m))"
      "cmIncubators m' = cmIncubators m @ new"
      "map (\<lambda>i. (inId i, inCreation i)) new = at_work D (cmFresh m) (creations_for c (cmWaiting m))"
      "aligned m0 \<longrightarrow> aligned m'"
      using finish_all_ready[OF assms(1), of m0 c D] m0 answered_same_engine[OF m0(4)] by auto
    have "aligned m \<longrightarrow> aligned m'" using m'(5) m0 ids by (simp add: aligned_def)
    moreover have "length (answered D m (cmFresh m) (creations_for c (cmWaiting m))) + length new =
        length (creations_for c (cmWaiting m))"
      using answered_or_at_work[of D m "cmFresh m" "creations_for c (cmWaiting m)"] arg_cong[OF m'(4), of length]
      by simp
    ultimately show ?thesis using m' False by (auto simp: eq)
  qed
qed

subsection \<open>Incubations that overlap\<close>

lemma find_by_id:
  assumes "distinct (map inId xs)" "k < length xs" "\<not> inDone (xs ! k)"
  shows "find (\<lambda>i. inId i = inId (xs ! k) \<and> \<not> inDone i) xs = Some (xs ! k)"
proof -
  have "\<And>j. j < length xs \<Longrightarrow> inId (xs ! j) = inId (xs ! k) \<Longrightarrow> j = k"
    using assms by (metis length_map nth_eq_iff_index_eq nth_map)
  then show ?thesis using assms unfolding find_Some_iff by (metis less_not_refl order.strict_trans)
qed

lemma finished_at:
  assumes "distinct (map inId (cmIncubators m))" "k < length (cmIncubators m)" "\<not> inDone (cmIncubators m ! k)"
    "crCallback (inCreation (cmIncubators m ! k)) = Some f"
  shows "incubatorFinished (inId (cmIncubators m ! k)) obj m =
    (let p = inIndex (cmIncubators m ! k) in
     if p < length (cmIncubators m)
     then Inr (m\<lparr>cmIncubators := remove_at p (mark_done (inId (cmIncubators m ! k)) (cmIncubators m)),
        cmCalls := cmCalls m @ [(f, answer m f obj)],
        cmAdopted := cmAdopted m @ (case obj of None \<Rightarrow> [] | Some ob \<Rightarrow> [(ob, crParent (inCreation (cmIncubators m ! k)))])\<rparr>)
     else Inl (EraseOutOfRange p))"
  using assms(4)
  by (auto simp: incubatorFinished_def find_by_id[OF assms(1-3)] incubator_status_def wrapped_callback_def call_back_def
      Let_def mark_done_def answer_def split: option.splits callback.splits)


lemma nth_remove_at: "i < length xs \<Longrightarrow> k < length xs - 1 \<Longrightarrow> remove_at i xs ! k = xs ! (if k < i then k else Suc k)"
  by (auto simp: remove_at_def nth_append min_def)

lemma length_remove_at1: "i < length xs \<Longrightarrow> length (remove_at i xs) = length xs - 1"
  by (simp add: remove_at_def)

lemma set_remove_at: "x \<in> set (remove_at i xs) \<Longrightarrow> x \<in> set xs"
  by (auto simp: remove_at_def dest: in_set_takeD in_set_dropD)

lemma distinct_remove_at: "distinct xs \<Longrightarrow> distinct (remove_at i xs)"
  unfolding remove_at_def by (simp add: set_take_disj_set_drop_if_distinct)

lemma map_id_mark_done [simp]: "map inId (mark_done a xs) = map inId xs"
  by (simp add: mark_done_def comp_def)

lemma nth_mark_done: "k < length xs \<Longrightarrow> mark_done a xs ! k = (if inId (xs ! k) = a then (xs ! k)\<lparr>inDone := True\<rparr> else xs ! k)"
  by (simp add: mark_done_def)

lemma length_mark_done [simp]: "length (mark_done a xs) = length xs"
  by (simp add: mark_done_def)

lemma remove_marked:
  assumes "distinct (map inId xs)" "i < length xs"
  shows "remove_at i (mark_done (inId (xs ! i)) xs) = remove_at i xs"
proof (rule nth_equalityI)
  fix k assume "k < length (remove_at i (mark_done (inId (xs ! i)) xs))"
  then have k: "k < length xs - 1" using assms by (simp add: length_remove_at1)
  define k' where "k' = (if k < i then k else Suc k)"
  have "k' < length xs" "k' \<noteq> i" using k by (auto simp: k'_def)
  then have "inId (xs ! (if k < i then k else Suc k)) \<noteq> inId (xs ! i)"
    using assms nth_eq_iff_index_eq[OF assms(1), of k' i] by (simp add: k'_def[symmetric])
  then show "remove_at i (mark_done (inId (xs ! i)) xs) ! k = remove_at i xs ! k"
    using assms k by (auto simp: nth_remove_at nth_mark_done)
qed (use assms in \<open>simp add: length_remove_at1\<close>)

lemma finished_unknown: "a \<notin> inId ` set (cmIncubators m) \<Longrightarrow> incubatorFinished a obj m = Inr m"
proof -
  assume "a \<notin> inId ` set (cmIncubators m)"
  then have "find (\<lambda>i. inId i = a \<and> \<not> inDone i) (cmIncubators m) = None" by (auto simp: find_None_iff)
  then show "incubatorFinished a obj m = Inr m" by (simp add: incubatorFinished_def)
qed

lemma removed_not_in: "distinct xs \<Longrightarrow> j < length xs \<Longrightarrow> xs ! j \<notin> set (remove_at j xs)"
proof -
  assume d: "distinct xs" and j: "j < length xs"
  have "distinct (take j xs @ xs ! j # drop (Suc j) xs)" using d id_take_nth_drop[OF j] by simp
  then show "xs ! j \<notin> set (remove_at j xs)" by (simp add: remove_at_def)
qed

lemma kept_in: "k < j \<Longrightarrow> j < length xs \<Longrightarrow> xs ! k \<in> set (remove_at j xs)"
proof -
  assume "k < j" "j < length xs"
  then have "take j xs ! k \<in> set (take j xs)" by (intro nth_mem) simp
  then show "xs ! k \<in> set (remove_at j xs)" using \<open>k < j\<close> by (simp add: remove_at_def)
qed

text \<open>Erasing two positions from the front, each counted in the full list: the second hits its successor.\<close>

lemma successor_erased:
  assumes "distinct (map inId xs)" "i < j" "Suc j < length xs"
  shows "inId (xs ! j) \<in> inId ` set (remove_at j (mark_done (inId (xs ! j)) (remove_at i xs)))"
    "inId (xs ! Suc j) \<notin> inId ` set (remove_at j (mark_done (inId (xs ! j)) (remove_at i xs)))"
proof -
  define ys where "ys = remove_at i xs"
  have ys: "distinct (map inId ys)" "ys ! (j - 1) = xs ! j" "ys ! j = xs ! Suc j" "j < length ys"
    using assms by (simp_all add: ys_def length_remove_at1 distinct_remove_at nth_remove_at)
  define zs where "zs = remove_at j (mark_done (inId (xs ! j)) ys)"
  have ids: "map inId zs = remove_at j (map inId ys)" by (simp add: zs_def)
  have "inId (ys ! j) \<notin> set (remove_at j (map inId ys))" "inId (ys ! (j - 1)) \<in> set (remove_at j (map inId ys))"
    using removed_not_in[OF ys(1), of j] kept_in[of "j - 1" j "map inId ys"] assms(2) ys(4) by simp_all
  then have "inId (xs ! j) \<in> inId ` set zs \<and> inId (xs ! Suc j) \<notin> inId ` set zs"
    using ids ys(2,3) by (simp flip: set_map)
  then show "inId (xs ! j) \<in> inId ` set (remove_at j (mark_done (inId (xs ! j)) (remove_at i xs)))"
    "inId (xs ! Suc j) \<notin> inId ` set (remove_at j (mark_done (inId (xs ! j)) (remove_at i xs)))"
    by (simp_all add: zs_def ys_def)
qed

text \<open>
  C32. Creations at work finish in any order, but each erases the position saved when it began: after an
  earlier one has finished, a later one erases its successor, whose callback is then never called, and
  stays in the vector itself; the last one erases behind the end of the vector.
\<close>

theorem overlapping_creations_mixed_up:
  assumes "aligned m" "i < j" "j < length (cmIncubators m)"
  shows "\<exists>m1. incubatorFinished (inId (cmIncubators m ! i)) a m = Inr m1 \<and>
    (if Suc j < length (cmIncubators m)
     then \<exists>m2. incubatorFinished (inId (cmIncubators m ! j)) b m1 = Inr m2 \<and>
       length (cmCalls m2) = length (cmCalls m) + 2 \<and>
       inId (cmIncubators m ! j) \<in> inId ` set (cmIncubators m2) \<and>
       inId (cmIncubators m ! Suc j) \<notin> inId ` set (cmIncubators m2) \<and>
       (\<forall>obj. incubatorFinished (inId (cmIncubators m ! Suc j)) obj m2 = Inr m2)
     else incubatorFinished (inId (cmIncubators m ! j)) b m1 = Inl (EraseOutOfRange j))"
proof -
  define xs where "xs = cmIncubators m"
  define ys where "ys = remove_at i xs"
  have al: "distinct (map inId xs)" "\<And>k. k < length xs \<Longrightarrow> inIndex (xs ! k) = k \<and> \<not> inDone (xs ! k) \<and>
      (\<exists>f. crCallback (inCreation (xs ! k)) = Some f)"
    using assms(1) by (auto simp: aligned_def ids_ok_def xs_def)
  have ij: "i < length xs" "j < length xs" using assms(2,3) by (simp_all add: xs_def)
  have ys: "length ys = length xs - 1" "distinct (map inId ys)" "ys ! (j - 1) = xs ! j" "j - 1 < length ys"
    "Suc j < length xs \<Longrightarrow> ys ! j = xs ! Suc j"
    using ij assms(2) al(1) by (simp_all add: ys_def length_remove_at1 distinct_remove_at nth_remove_at)
  obtain f g where f: "crCallback (inCreation (xs ! i)) = Some f" "crCallback (inCreation (xs ! j)) = Some g"
    using al(2) ij by blast
  obtain m1 where m1: "incubatorFinished (inId (xs ! i)) a m = Inr m1" "cmIncubators m1 = ys"
    "length (cmCalls m1) = Suc (length (cmCalls m))"
    using finished_at[of m i f a] al(1) al(2)[OF ij(1)] f(1) ij(1) remove_marked[OF al(1) ij(1)]
    by (auto simp: xs_def[symmetric] Let_def ys_def)
  have step: "incubatorFinished (inId (xs ! j)) b m1 =
    (if j < length ys
     then Inr (m1\<lparr>cmIncubators := remove_at j (mark_done (inId (xs ! j)) ys),
        cmCalls := cmCalls m1 @ [(g, answer m1 g b)],
        cmAdopted := cmAdopted m1 @ (case b of None \<Rightarrow> [] | Some ob \<Rightarrow> [(ob, crParent (inCreation (xs ! j)))])\<rparr>)
     else Inl (EraseOutOfRange j))"
  proof -
    have pos: "cmIncubators m1 ! (j - 1) = xs ! j" by (simp only: m1(2) ys(3))
    show ?thesis
      using finished_at[of m1 "j - 1" g b, unfolded pos] ys(2,4) al(2)[OF ij(2)] f(2) by (simp add: m1(2) Let_def)
  qed
  show ?thesis
  proof (cases "Suc j < length xs")
    case False
    then show ?thesis using m1 step ys(1) by (auto simp: xs_def[symmetric])
  next
    case True
    define zs where "zs = remove_at j (mark_done (inId (xs ! j)) ys)"
    have j: "j < length ys" using True ys(1) by simp
    note in_out = successor_erased[OF al(1) assms(2) True, folded ys_def zs_def]
    show ?thesis using m1 step j True finished_unknown in_out
      by (auto simp: xs_def[symmetric] zs_def[symmetric])
  qed
qed

text \<open>Creations that finish in the opposite order to their beginning.\<close>

fun nested :: "(nat \<Rightarrow> incubation) \<Rightarrow> nat \<Rightarrow> (creation \<times> nat option) list \<Rightarrow> manager \<Rightarrow> component_fault + manager" where
  "nested D c [] m = Inr m"
| "nested D c ((cr, obj) # xs) m =
     and_then (finishCreation D (Some c) cr m) (\<lambda>m1.
     and_then (nested D c xs m1) (\<lambda>m2. incubatorFinished (cmFresh m) obj m2))"

lemma begin_later:
  assumes "cmStatus m c = ComponentReady" "D (cmFresh m) = Later"
  shows "finishCreation D (Some c) cr m = Inr (m\<lparr>cmFresh := Suc (cmFresh m), cmIncubators := cmIncubators m @
     [\<lparr>inId = cmFresh m, inIndex = length (cmIncubators m), inDone = False, inCreation = cr\<rparr>]\<rparr>)"
  using assms by (simp add: finishCreation_def Let_def)

text \<open>
  Creations that finish in the opposite order to their beginning are all answered, once each, and
  leave the vector of incubators as it was.
\<close>

lemma nested_creations_answered:
  assumes "ids_ok m" "cmStatus m c = ComponentReady" "\<forall>a. D a = Later"
    "list_all (\<lambda>x. crCallback (fst x) \<noteq> None) xs"
  shows "\<exists>m'. nested D c xs m = Inr m' \<and> cmIncubators m' = cmIncubators m \<and>
    cmCalls m' = cmCalls m @ rev (map (\<lambda>x. (the (crCallback (fst x)), answer m (the (crCallback (fst x))) (snd x))) xs)"
proof -
  have "\<exists>m'. nested D c xs m = Inr m' \<and> cmIncubators m' = cmIncubators m \<and> ids_ok m' \<and> cmEngine m' = cmEngine m \<and>
    cmCalls m' = cmCalls m @ rev (map (\<lambda>x. (the (crCallback (fst x)), answer m (the (crCallback (fst x))) (snd x))) xs)"
    using assms(1,2,4)
  proof (induction xs arbitrary: m)
    case (Cons x xs)
    obtain cr obj where x: "x = (cr, obj)" by (cases x)
    obtain f where f: "crCallback cr = Some f" using Cons.prems(3) x by auto
    define inc where "inc = \<lparr>inId = cmFresh m, inIndex = length (cmIncubators m), inDone = False, inCreation = cr\<rparr>"
    define m1 where "m1 = m\<lparr>cmFresh := Suc (cmFresh m), cmIncubators := cmIncubators m @ [inc]\<rparr>"
    have b: "finishCreation D (Some c) cr m = Inr m1"
      unfolding m1_def inc_def by (rule begin_later) (use Cons.prems(2) assms(3) in auto)
    have ok1: "ids_ok m1" using Cons.prems(1) by (auto simp: ids_ok_def m1_def inc_def less_SucI)
    have an: "answer m1 = answer m" by (auto simp: answer_def m1_def fun_eq_iff split: callback.splits)
    obtain m2 where m2: "nested D c xs m1 = Inr m2" "cmIncubators m2 = cmIncubators m @ [inc]" "ids_ok m2"
      "cmEngine m2 = cmEngine m"
      "cmCalls m2 = cmCalls m @ rev (map (\<lambda>x. (the (crCallback (fst x)), answer m (the (crCallback (fst x))) (snd x))) xs)"
      using Cons.IH[of m1] ok1 Cons.prems(2,3) an by (auto simp: m1_def)
    have an2: "answer m2 = answer m" using m2(4) by (auto simp: answer_def fun_eq_iff split: callback.splits)
    let ?k = "length (cmIncubators m)"
    have last: "cmIncubators m2 ! ?k = inc" "?k < length (cmIncubators m2)" by (simp_all add: m2(2))
    have dist: "distinct (map inId (cmIncubators m2))" using m2(3) by (simp add: ids_ok_def)
    have rest: "remove_at ?k (mark_done (inId inc) (cmIncubators m2)) = cmIncubators m"
      using remove_marked[OF dist last(2)] unfolding last(1) by (simp add: m2(2) remove_at_length)
    have fin: "incubatorFinished (cmFresh m) obj m2 = Inr (m2\<lparr>cmIncubators := cmIncubators m,
        cmCalls := cmCalls m2 @ [(f, answer m f obj)],
        cmAdopted := cmAdopted m2 @ (case obj of None \<Rightarrow> [] | Some ob \<Rightarrow> [(ob, crParent (inCreation inc))])\<rparr>)"
      using finished_at[OF dist last(2), of f obj] rest unfolding last(1)
      by (simp add: f inc_def an2 Let_def m2(2))
    show ?case
      using m2(3) by (auto simp: x b m2(1) fin m2(4,5) f ids_ok_def m2(2))
  qed simp
  then show ?thesis by blast
qed

text \<open>
  The application starts from the first place that has its file, with the two manager properties
  added to those given; but for an absolute URL, or a relative name that exists as it stands, the
  component is made from the empty URL.
\<close>

lemma application_file:
  assumes "cmEngine m" "cmFileCache m = Map.empty"
    and url: "url = (if \<not> relative \<or> ex name then []
      else if ex (drop 3 (N (''qrc:/'' @ name))) then N (''qrc:/'' @ name) else N (''qrc:/qml/'' @ name))"
    and found: "\<not> relative \<or> ex name \<or> ex (drop 3 (N (''qrc:/'' @ name))) \<or> ex (drop 3 (N (''qrc:/qml/'' @ name)))"
  shows "\<exists>m'. ux_begin ex N D p ComponentLoading self relative name props (Some m) = Inr (Some m') \<and>
    cmFileCache m' = [url \<mapsto> p] \<and>
    (\<exists>cr. cmWaiting m' = cmWaiting m @ [(p, cr)] \<and> crProperties cr ''uxManager'' \<noteq> None \<and>
      crProperties cr ''componentManager'' \<noteq> None \<and> (\<forall>k v. props k = Some v \<longrightarrow> crProperties cr k = Some v))"
proof -
  have u: "app_url ex N relative name = Some url"
    using found by (auto simp: app_url_def app_prefixes_def url Let_def split: prod.splits)
  show ?thesis
    using assms(1,2)
    by (auto simp: ux_begin_def u createObject_file_def beginCreation_def default_properties_def Let_def)
qed


subsection \<open>Examples\<close>

definition native_creation :: "nat \<Rightarrow> creation" where
  "native_creation f = \<lparr>crParent = None, crProperties = Map.empty, crCallback = Some (Native f)\<rparr>"

definition ready_manager :: manager where
  "ready_manager = (new_manager True)\<lparr>cmStatus := (\<lambda>_. ComponentReady)\<rparr>"

definition loading_manager :: manager where
  "loading_manager = (new_manager True)\<lparr>cmStatus := (\<lambda>_. ComponentLoading),
     cmWaiting := [(5, native_creation 1), (6, native_creation 2), (5, native_creation 3)]\<rparr>"

definition three_at_work :: manager where
  "three_at_work = ready_manager\<lparr>cmFresh := 3, cmIncubators :=
     map (\<lambda>k. \<lparr>inId = k, inIndex = k, inDone = False, inCreation = native_creation k\<rparr>) [0, 1, 2]\<rparr>"

lemma three_at_work_made:
  "and_then (finishCreation (\<lambda>_. Later) (Some 5) (native_creation 0) ready_manager) (\<lambda>m.
   and_then (finishCreation (\<lambda>_. Later) (Some 5) (native_creation 1) m)
     (finishCreation (\<lambda>_. Later) (Some 5) (native_creation 2))) = Inr three_at_work"
  by (simp add: finishCreation_def Let_def ready_manager_def new_manager_def three_at_work_def)

text \<open>Of the two creations that wait for component 5 the first finishes at once, the second later.\<close>

theorem settled_component_answers_all_witness:
  "\<exists>m' new. componentStatusChanged (\<lambda>a. if a = 0 then Now (Some 70) else Later) 5 ComponentReady loading_manager = Inr m' \<and>
    cmCalls m' = [(Native 1, Some 70)] \<and> cmIncubators m' = new \<and>
    map (\<lambda>i. (inId i, inCreation i)) new = [(1, native_creation 3)]"
proof -
  have "list_all (\<lambda>w. crCallback (snd w) \<noteq> None) (cmWaiting loading_manager)" "ids_ok loading_manager"
    by (simp_all add: loading_manager_def new_manager_def native_creation_def ids_ok_def)
  moreover have "creations_for 5 (cmWaiting loading_manager) = [native_creation 1, native_creation 3]"
    "cmCalls loading_manager = []" "cmIncubators loading_manager = []" "cmFresh loading_manager = 0"
    by (simp_all add: loading_manager_def new_manager_def)
  ultimately show ?thesis
    using settled_component_answers_all[of loading_manager ComponentReady "\<lambda>a. if a = 0 then Now (Some 70) else Later" 5]
    by (force simp: native_creation_def answer_def)
qed

theorem overlapping_creations_mixed_up_witness:
  "\<exists>m1 m2. incubatorFinished 0 (Some 70) three_at_work = Inr m1 \<and> incubatorFinished 1 (Some 71) m1 = Inr m2 \<and>
    incubatorFinished 2 (Some 72) m2 = Inr m2 \<and> length (cmCalls m2) = 2"
proof -
  have "aligned three_at_work"
    by (auto simp: aligned_def ids_ok_def three_at_work_def less_Suc_eq numeral_3_eq_3 native_creation_def)
  moreover have "length (cmIncubators three_at_work) = 3" "inId (cmIncubators three_at_work ! 0) = 0"
    "inId (cmIncubators three_at_work ! 1) = 1" "inId (cmIncubators three_at_work ! Suc 1) = 2"
    "cmCalls three_at_work = []"
    by (simp_all add: three_at_work_def ready_manager_def new_manager_def)
  ultimately show ?thesis
    using overlapping_creations_mixed_up[of three_at_work 0 1 "Some 70" "Some 71"] by auto
qed

lemma nested_creations_answered_witness:
  "\<exists>m'. nested (\<lambda>_. Later) 5 [(native_creation 1, Some 70), (native_creation 2, Some 71)] ready_manager = Inr m' \<and>
    cmCalls m' = [(Native 2, Some 71), (Native 1, Some 70)] \<and> cmIncubators m' = []"
proof -
  have "ids_ok ready_manager" "cmStatus ready_manager 5 = ComponentReady" "\<forall>a. (\<lambda>_. Later) a = Later"
    "list_all (\<lambda>x. crCallback (fst x) \<noteq> None) [(native_creation 1, Some (70::nat)), (native_creation 2, Some 71)]"
    by (simp_all add: ids_ok_def ready_manager_def new_manager_def native_creation_def)
  from nested_creations_answered[OF this]
  obtain m' where m': "nested (\<lambda>_. Later) 5 [(native_creation 1, Some 70), (native_creation 2, Some 71)] ready_manager = Inr m'"
    "cmIncubators m' = cmIncubators ready_manager" "cmCalls m' = cmCalls ready_manager @
      rev (map (\<lambda>x. (the (crCallback (fst x)), answer ready_manager (the (crCallback (fst x))) (snd x)))
        [(native_creation 1, Some 70), (native_creation 2, Some 71)])"
    by blast
  then show ?thesis
    by (intro exI[of _ m'] conjI) (simp_all only:, simp_all add: ready_manager_def new_manager_def native_creation_def answer_def)
qed

lemma application_file_witness:
  "\<exists>m'. ux_begin (\<lambda>f. f = '':/qml/AppManager.qml'') (\<lambda>s. s) (\<lambda>_. Later) 4 ComponentLoading 9 True ''AppManager.qml''
      Map.empty (Some (new_manager True)) = Inr (Some m') \<and> cmFileCache m' = [''qrc:/qml/AppManager.qml'' \<mapsto> 4]"
proof -
  have "cmEngine (new_manager True)" "cmFileCache (new_manager True) = Map.empty" by (simp_all add: new_manager_def)
  then show ?thesis
    using application_file[of "new_manager True" "''qrc:/qml/AppManager.qml''" True "\<lambda>f. f = '':/qml/AppManager.qml''"
      "''AppManager.qml''" "\<lambda>s. s" "\<lambda>_. Later" 4 9 Map.empty] by auto
qed

end
