(* ===== verification/Startup.thy ===== *)
theory Startup
  imports ComponentProofs Strings
begin

text \<open>
  \<open>main\<close> of \<open>src/main.cpp\<close> and \<open>QappaPlugin::registerTypes\<close>: what is set up, in which order, before the
  interface is created.  The translation \<open>tr\<close>, the product type of the system and the parameters of
  \<open>UXManager::begin\<close> are arguments; the event loop itself is not part of the model.
\<close>

subsection \<open>Registered types\<close>

datatype instances = Creatable | Uncreatable string

text \<open>A type under its module, version and name.\<close>

type_synonym qml_key = "string \<times> nat \<times> nat \<times> string"
type_synonym qml_types = "(qml_key \<times> instances) list"

definition qmlRegisterType :: "string \<times> nat \<times> nat \<Rightarrow> string \<Rightarrow> qml_types \<Rightarrow> qml_types" where
  "qmlRegisterType uri name ts = (case uri of (u, major, minor) \<Rightarrow> ((u, major, minor, name), Creatable) # ts)"

definition qmlRegisterUncreatableType :: "string \<times> nat \<times> nat \<Rightarrow> string \<Rightarrow> string \<Rightarrow> qml_types \<Rightarrow> qml_types" where
  "qmlRegisterUncreatableType uri name reason ts =
     (case uri of (u, major, minor) \<Rightarrow> ((u, major, minor, name), Uncreatable reason) # ts)"

text \<open>What an element of that name in QML gives: nothing known, the reason it is refused, or an object.\<close>

definition instantiate :: "qml_types \<Rightarrow> qml_key \<Rightarrow> string option" where
  "instantiate ts k =
     (case map_of ts k of Some Creatable \<Rightarrow> None | Some (Uncreatable reason) \<Rightarrow> Some reason
      | None \<Rightarrow> Some ''is not a type'')"

definition POLLARIS_1_0 :: "string \<times> nat \<times> nat" where
  "POLLARIS_1_0 = (''Pollaris.Utilities'', 1, 0)"

definition register_types :: "qml_types \<Rightarrow> qml_types" where
  "register_types ts =
     (let t1 = qmlRegisterUncreatableType POLLARIS_1_0 ''Pollaris''
            ''Pollaris is an enumeration container and cannot be instantiated directly in QML'' ts;
          t2 = qmlRegisterType POLLARIS_1_0 ''Assistant'' t1;
          t3 = qmlRegisterUncreatableType POLLARIS_1_0 ''Task'' ''Tasks can only be created by the Assistant'' t2;
          t4 = qmlRegisterType POLLARIS_1_0 ''BlockchainInterface'' t3;
          t5 = qmlRegisterType POLLARIS_1_0 ''KeyManager'' t4;
          t6 = qmlRegisterType POLLARIS_1_0 ''TlsPskSession'' t5;
          t7 = qmlRegisterUncreatableType POLLARIS_1_0 ''TableInterface''
            ''This is an abstract interface which cannot be instantiated'' t6;
          t8 = qmlRegisterUncreatableType POLLARIS_1_0 ''TableModel''
            ''This is an abstract interface which cannot be instantiated'' t7;
          t9 = qmlRegisterUncreatableType POLLARIS_1_0 ''MutableTransaction''
            ''MutableTransactions can only be created by BlockchainInterface'' t8;
          t10 = qmlRegisterUncreatableType POLLARIS_1_0 ''SignableTransaction''
            ''SignableTransactions can only be created by KeyManager'' t9;
          t11 = qmlRegisterUncreatableType POLLARIS_1_0 ''PackedTransaction''
            ''PackedTransactions can only be created by KeyManager'' t10
      in qmlRegisterType POLLARIS_1_0 ''Action'' t11)"

text \<open>\<open>QappaPlugin::registerTypes\<close>, which the QML engine calls when the module is imported.\<close>

definition registerTypes :: "string \<Rightarrow> qml_types \<Rightarrow> qml_types" where
  "registerTypes uri ts =
     qmlRegisterUncreatableType (uri, 1, 0) ''UXManager'' ''UXManager can only be created in C++''
       (qmlRegisterUncreatableType (uri, 1, 0) ''ComponentManager'' ''ComponentManager can only be created in C++'' ts)"

subsection \<open>The application\<close>

datatype settings_format = NativeFormat | IniFormat

datatype context_value = CtxConstants "(string \<times> exported) list" | CtxComponentManager | CtxUxManager | CtxPropertyMap

record application =
  assistantHandlesLog :: bool
  settingsFormat :: settings_format
  applicationDisplayName :: string
  applicationName :: string
  applicationVersion :: string
  organizationName :: string
  organizationDomain :: string
  importPaths :: "string list"
  qmlTypes :: qml_types
  imageProviders :: "string list"
  contextProperties :: "string \<rightharpoonup> context_value"
  quitConnected :: bool
  components :: "manager option"

definition new_process :: application where
  "new_process = \<lparr>assistantHandlesLog = False, settingsFormat = NativeFormat, applicationDisplayName = [],
     applicationName = [], applicationVersion = [], organizationName = [], organizationDomain = [], importPaths = [],
     qmlTypes = [], imageProviders = [], contextProperties = Map.empty, quitConnected = False, components = None\<rparr>"

text \<open>On Windows an ini file keeps the settings.\<close>

definition set_default_format :: "string \<Rightarrow> application \<Rightarrow> application" where
  "set_default_format productType a =
     (if productType \<in> {''winrt'', ''windows''} then a\<lparr>settingsFormat := IniFormat\<rparr> else a)"

definition name_application :: "(string \<Rightarrow> string) \<Rightarrow> application \<Rightarrow> application" where
  "name_application tr a =
     a\<lparr>applicationDisplayName := tr ''Pollaris'', applicationName := tr ''Pollaris'', applicationVersion := ''Alpha'',
       organizationName := tr ''Follow My Vote'', organizationDomain := ''https://followmyvote.com''\<rparr>"

definition setContextProperty :: "string \<Rightarrow> context_value \<Rightarrow> application \<Rightarrow> application" where
  "setContextProperty n v a = a\<lparr>contextProperties := (contextProperties a)(n \<mapsto> v)\<rparr>"

definition prepare_engine :: "application \<Rightarrow> application" where
  "prepare_engine a =
     (let a1 = a\<lparr>importPaths := '':/'' # importPaths a, qmlTypes := register_types (qmlTypes a),
            components := Some (new_manager True), imageProviders := ''assistant'' # imageProviders a\<rparr>;
          a2 = setContextProperty ''strings'' (CtxConstants MapOfAll) a1;
          a3 = setContextProperty ''componentManager'' CtxComponentManager a2;
          a4 = setContextProperty ''uxManager'' CtxUxManager a3;
          a5 = setContextProperty ''context'' CtxPropertyMap a4
      in a5\<lparr>quitConnected := True\<rparr>)"

text \<open>\<open>main\<close> up to the event loop; \<open>begin\<close> is called with its default arguments.\<close>

definition main_startup ::
  "string \<Rightarrow> (string \<Rightarrow> string) \<Rightarrow> (string \<Rightarrow> bool) \<Rightarrow> (string \<Rightarrow> string) \<Rightarrow> (nat \<Rightarrow> incubation) \<Rightarrow> nat \<Rightarrow> component_status
     \<Rightarrow> nat \<Rightarrow> component_fault + application" where
  "main_startup productType tr ex N D p st ux =
     (let a1 = new_process\<lparr>assistantHandlesLog := True\<rparr>;
          a2 = set_default_format productType a1;
          a3 = name_application tr a2;
          a4 = prepare_engine a3
      in and_then (ux_begin ex N D p st ux True ''AppManager.qml'' Map.empty (components a4))
           (\<lambda>m. Inr (a4\<lparr>components := m\<rparr>)))"

subsection \<open>Properties\<close>

lemmas register_defs = register_types_def qmlRegisterType_def qmlRegisterUncreatableType_def POLLARIS_1_0_def Let_def

text \<open>Twelve types under different names; five of them can be made in QML.\<close>

lemma registered_types:
  "distinct (map fst (register_types []))" "length (register_types []) = 12"
  "instantiate (register_types []) (''Pollaris.Utilities'', 1, 0, n) = None \<longleftrightarrow>
     n \<in> {''Assistant'', ''BlockchainInterface'', ''KeyManager'', ''TlsPskSession'', ''Action''}"
  by (simp_all add: register_defs instantiate_def)

text \<open>The transaction that QML shows is never one it made itself.\<close>

lemma transactions_not_creatable:
  assumes "n \<in> {''MutableTransaction'', ''SignableTransaction'', ''PackedTransaction'', ''Task''}"
  shows "instantiate (register_types ts) (''Pollaris.Utilities'', 1, 0, n) \<noteq> None"
  using assms by (auto simp: register_defs instantiate_def)

lemma qappa_types_not_creatable:
  "n \<in> {''ComponentManager'', ''UXManager''} \<Longrightarrow> instantiate (registerTypes uri ts) (uri, 1, 0, n) \<noteq> None"
  by (auto simp: registerTypes_def qmlRegisterUncreatableType_def instantiate_def)

text \<open>
  Before the interface is created everything it uses is in place; with the resource files of the program
  the component manager is asked for the application manager, whose two pointers are set.
\<close>

lemma startup_creates_app_manager:
  assumes "\<And>f. ex f \<longleftrightarrow> f = '':/qml/AppManager.qml''" "\<And>s. N s = s"
  shows "\<exists>a m. main_startup productType tr ex N D p ComponentLoading ux = Inr a \<and> components a = Some m \<and>
    cmFileCache m ''qrc:/qml/AppManager.qml'' = Some p \<and>
    cmWaiting m = [(p, \<lparr>crParent = Some ux, crProperties = default_properties Map.empty, crCallback = Some (Native ux)\<rparr>)] \<and>
    assistantHandlesLog a \<and> quitConnected a \<and> qmlTypes a = register_types [] \<and>
    dom (contextProperties a) = {''strings'', ''componentManager'', ''uxManager'', ''context''}"
proof -
  have "app_url ex N True ''AppManager.qml'' = Some ''qrc:/qml/AppManager.qml''"
    using assms by (simp add: app_url_def app_prefixes_def)
  then show ?thesis
    by (auto simp: main_startup_def prepare_engine_def setContextProperty_def name_application_def set_default_format_def
      new_process_def ux_begin_def new_manager_def createObject_file_def beginCreation_def Let_def)
qed

text \<open>Without the file the event loop runs with no interface: the failure is only logged.\<close>

lemma startup_without_file:
  assumes "\<And>f. \<not> ex f"
  shows "\<exists>a. main_startup productType tr ex N D p st ux = Inr a \<and> components a = Some (new_manager True)"
proof -
  have "app_url ex N True ''AppManager.qml'' = None"
    using assms by (simp add: app_url_def app_prefixes_def)
  then show ?thesis
    by (simp add: main_startup_def prepare_engine_def setContextProperty_def name_application_def set_default_format_def
      new_process_def ux_begin_def Let_def)
qed

text \<open>Settings are kept in an ini file on Windows only.\<close>

lemma startup_format:
  "settingsFormat (prepare_engine (name_application tr (set_default_format productType new_process))) = IniFormat \<longleftrightarrow>
    productType \<in> {''winrt'', ''windows''}"
  by (simp add: prepare_engine_def setContextProperty_def name_application_def set_default_format_def new_process_def Let_def)

end
