(* ===== verification/Assistants.thy ===== *)
theory Assistants
  imports Prelude
begin

text \<open>
  \<open>cpp/Assistant.*\<close>, \<open>cpp/Task.*\<close> and \<open>cpp/FpsTimer.hpp\<close>: the frame timer all assistants share, the
  tags that tie lines of the log to tasks, the message handler, and the provider of the logo, whose
  two drawings are parameters.
  Objects are addresses.  The constructor, the destructor and \<open>fpsTimer\<close> are split into the sections
  that hold a lock, so that threads interleave between them.
\<close>

subsection \<open>The shared timer\<close>

record desk =
  knownAssistants :: "nat set"
  timer :: "nat option"
  timersAlive :: "nat set"
  connected :: "nat \<rightharpoonup> nat"

definition new_desk :: desk where
  "new_desk = \<lparr>knownAssistants = {}, timer = None, timersAlive = {}, connected = Map.empty\<rparr>"

text \<open>The four sections of the constructor; \<open>q\<close> is the address of a new timer.\<close>

definition insert_assistant :: "nat \<Rightarrow> desk \<Rightarrow> desk" where
  "insert_assistant a d = d\<lparr>knownAssistants := insert a (knownAssistants d)\<rparr>"

definition read_timer :: "desk \<Rightarrow> nat option" where
  "read_timer d = timer d"

definition make_timer :: "nat \<Rightarrow> desk \<Rightarrow> desk" where
  "make_timer q d = d\<lparr>timer := Some q, timersAlive := insert q (timersAlive d)\<rparr>"

definition connect_timer :: "nat \<Rightarrow> nat \<Rightarrow> desk \<Rightarrow> desk" where
  "connect_timer a t d = d\<lparr>connected := (connected d)(a \<mapsto> t)\<rparr>"

definition fpsTimer :: "nat \<Rightarrow> desk \<Rightarrow> nat \<times> desk" where
  "fpsTimer q d = (case read_timer d of Some t \<Rightarrow> (t, d) | None \<Rightarrow> (q, make_timer q d))"

definition create_assistant :: "nat \<Rightarrow> nat \<Rightarrow> desk \<Rightarrow> desk" where
  "create_assistant a q d = (let (t, d1) = fpsTimer q (insert_assistant a d) in connect_timer a t d1)"

text \<open>The two sections of the destructor: \<open>lastOut\<close> is decided in the first; an object loses its connections.\<close>

definition remove_assistant :: "nat \<Rightarrow> desk \<Rightarrow> bool \<times> desk" where
  "remove_assistant a d =
     (let known = knownAssistants d - {a} in (known = {}, d\<lparr>knownAssistants := known, connected := (connected d)(a := None)\<rparr>))"

definition delete_timer :: "desk \<Rightarrow> desk" where
  "delete_timer d = d\<lparr>timersAlive := timersAlive d - (case timer d of Some t \<Rightarrow> {t} | None \<Rightarrow> {}), timer := None\<rparr>"

definition destroy_assistant :: "nat \<Rightarrow> desk \<Rightarrow> desk" where
  "destroy_assistant a d = (let (lastOut, d1) = remove_assistant a d in if lastOut then delete_timer d1 else d1)"

text \<open>A thread that creates or destroys an assistant, at the section that comes next.\<close>

datatype thread =
    Constructing nat nat
  | Inserted nat nat
  | TimerRead nat nat "nat option"
  | TimerKnown nat nat
  | Destroying nat
  | LastOut bool
  | Finished

inductive thread_step :: "thread \<times> desk \<Rightarrow> thread \<times> desk \<Rightarrow> bool" where
  insert: "thread_step (Constructing a q, d) (Inserted a q, insert_assistant a d)"
| read: "thread_step (Inserted a q, d) (TimerRead a q (read_timer d), d)"
| have_timer: "thread_step (TimerRead a q (Some t), d) (TimerKnown a t, d)"
| make: "thread_step (TimerRead a q None, d) (TimerKnown a q, make_timer q d)"
| connect: "thread_step (TimerKnown a t, d) (Finished, connect_timer a t d)"
| remove: "remove_assistant a d = (out, d') \<Longrightarrow> thread_step (Destroying a, d) (LastOut out, d')"
| delete: "thread_step (LastOut True, d) (Finished, delete_timer d)"
| keep: "thread_step (LastOut False, d) (Finished, d)"

text \<open>Two threads take turns.\<close>

inductive two_threads :: "thread \<times> thread \<times> desk \<Rightarrow> thread \<times> thread \<times> desk \<Rightarrow> bool" where
  stay: "two_threads s s"
| first: "two_threads s (p, r, d) \<Longrightarrow> thread_step (p, d) (p', d') \<Longrightarrow> two_threads s (p', r, d')"
| second: "two_threads s (p, r, d) \<Longrightarrow> thread_step (r, d) (r', d') \<Longrightarrow> two_threads s (p, r', d')"

subsection \<open>The frame timer\<close>

definition frame_ms :: int where "frame_ms = 1000 div 60"

definition DROP_THRESHOLD :: int where "DROP_THRESHOLD = 30"

text \<open>\<open>timerFired\<close> at \<open>now\<close>: the new \<open>lastFired\<close>, the frames it reports dropped, if any; \<open>triggered\<close> always follows.\<close>

definition timerFired :: "int \<Rightarrow> int \<Rightarrow> int \<times> (32 word) option" where
  "timerFired now lastFired =
     (let elapsed = now - lastFired in
      (now, if elapsed > DROP_THRESHOLD then Some (of_int (elapsed div frame_ms)) else None))"

subsection \<open>Tasks and their tags\<close>

text \<open>
  Qt's functions on numbers: \<open>qHash\<close> of a pointer, which is as wide as \<open>size_t\<close>, \<open>setNum\<close> to base
  sixteen, and \<open>toUInt\<close> from base sixteen, \<open>None\<close> when \<open>convertOk\<close> is false.
\<close>

record task_env =
  qHash :: "nat \<Rightarrow> uint64"
  setNum :: "uint64 \<Rightarrow> string"
  toUInt :: "string \<Rightarrow> uint32 option"

type_synonym known_tasks = "uint32 \<rightharpoonup> nat"

text \<open>The loop counts in \<open>size_t\<close>; the map is looked up with the low 32 bits.\<close>

partial_function (option) free_key :: "known_tasks \<Rightarrow> uint64 \<Rightarrow> uint64 option" where
  "free_key tasks key = (if tasks (ucast key) \<noteq> None then free_key tasks (key + 1) else Some key)"

declare free_key.simps [code]

definition getLoggingTag :: "task_env \<Rightarrow> nat \<Rightarrow> known_tasks \<Rightarrow> (string \<times> known_tasks) option" where
  "getLoggingTag N t tasks =
     (case free_key tasks (qHash N t) of None \<Rightarrow> None
      | Some key \<Rightarrow> Some (''Task(0x'' @ setNum N key @ '')'', tasks(ucast key \<mapsto> t)))"

definition createTask :: "nat \<Rightarrow> nat list \<Rightarrow> nat list \<times> nat list" where
  "createTask t taskList = (taskList @ [t], taskList @ [t])"

subsection \<open>The message handler\<close>

definition index_of :: "string \<Rightarrow> string \<Rightarrow> nat option" where
  "index_of pat s = find (\<lambda>i. take (length pat) (drop i s) = pat) [0..<Suc (length s)]"

definition char_from :: "char \<Rightarrow> nat \<Rightarrow> string \<Rightarrow> nat option" where
  "char_from c i s = find (\<lambda>k. s ! k = c) [i..<length s]"

definition taskPrefix :: string where "taskPrefix = ''Task(0x''"

datatype task_fault = DanglingTask nat

text \<open>
  What becomes of the line: the text to print, the task it belongs to, and the registry.  A task is
  looked up even when the number is no number: \<open>toUInt\<close> then gave zero.  \<open>alive\<close> are the tasks in memory.
\<close>

definition task_line ::
  "task_env \<Rightarrow> nat set \<Rightarrow> string \<Rightarrow> known_tasks \<Rightarrow> task_fault + string \<times> nat option \<times> known_tasks" where
  "task_line N alive line tasks =
     (case index_of taskPrefix line of None \<Rightarrow> Inr (line, None, tasks) | Some taskPos \<Rightarrow>
      case char_from (CHR '')'') taskPos line of None \<Rightarrow> Inr (line, None, tasks) | Some endPos \<Rightarrow>
        let pointerPos = taskPos + length taskPrefix;
            converted = toUInt N (take (endPos - pointerPos) (drop pointerPos line));
            taskCode = (case converted of Some k \<Rightarrow> k | None \<Rightarrow> 0);
            tasks' = tasks(taskCode := None)
        in case tasks taskCode of
             None \<Rightarrow> Inr (line, None, tasks')
           | Some t \<Rightarrow>
               if converted = None then Inr (line, None, tasks')
               else
                 let l1 = take taskPos line @ drop (Suc endPos) line;
                     l2 = (if taskPos < length l1 \<and> l1 ! taskPos = CHR '' '' then remove_at taskPos l1 else l1)
                 in if t \<in> alive then Inr (l2, Some t, tasks') else Inl (DanglingTask t))"

datatype QtMsgType = QtDebugMsg | QtInfoMsg | QtWarningMsg | QtCriticalMsg | QtFatalMsg

fun severity :: "QtMsgType \<Rightarrow> string" where
  "severity QtDebugMsg = ''Debug''"
| "severity QtInfoMsg = ''Info''"
| "severity QtWarningMsg = ''Warning''"
| "severity QtCriticalMsg = ''Critical''"
| "severity QtFatalMsg = ''Fatal''"

text \<open>\<open>lineText\<close> is the line number as text; a null file name prints as an empty one.\<close>

definition messageHandler ::
  "task_env \<Rightarrow> nat set \<Rightarrow> QtMsgType \<Rightarrow> string option \<Rightarrow> string \<Rightarrow> string \<Rightarrow> known_tasks
     \<Rightarrow> task_fault + string \<times> known_tasks" where
  "messageHandler N alive kind file lineText message tasks =
     and_then (task_line N alive message tasks) (\<lambda>(logLine, task, tasks').
       Inr (severity kind @ '': ['' @ (case file of Some f \<Rightarrow> f | None \<Rightarrow> []) @ '':'' @ lineText @ ''] ''
              @ logLine @ [CHR 0x0A], tasks'))"

subsection \<open>The logo\<close>

text \<open>
  \<open>AssistantImageProvider::requestImage\<close>.  The two drawings are parameters that take the size and
  the transparent image; the first result says that an unknown id was logged.
\<close>

definition requestImage ::
  "(int \<times> int \<Rightarrow> 'image) \<Rightarrow> (int \<times> int \<Rightarrow> 'image \<Rightarrow> 'image) \<Rightarrow> (int \<times> int \<Rightarrow> 'image \<Rightarrow> 'image) \<Rightarrow>
     string \<Rightarrow> int \<times> int \<Rightarrow> bool \<times> 'image" where
  "requestImage transparent drawRing drawVee i requestedSize =
     (let paintSize = (if fst requestedSize \<le> 0 \<or> snd requestedSize \<le> 0 then (100, 100) else requestedSize);
          image = transparent paintSize
      in if i = ''ring'' then (False, drawRing paintSize image)
         else if i = ''vee'' then (False, drawVee paintSize image)
         else (True, image))"

lemma unknown_logo_is_transparent:
  "fst (requestImage tr dr dv i sz) \<longleftrightarrow> i \<notin> {''ring'', ''vee''}"
  "fst (requestImage tr dr dv i sz) \<Longrightarrow> \<exists>w h. 0 < w \<and> 0 < h \<and> snd (requestImage tr dr dv i sz) = tr (w, h)"
  by (auto simp: requestImage_def Let_def not_le[symmetric] split: if_splits) (cases sz, force)+

end
