(* ===== verification/AssistantProofs.thy ===== *)
theory AssistantProofs
  imports Assistants
begin

text \<open>
  Properties of the assistants: the timer they share, with one thread and with two, and the tags that
  tie lines of the log to tasks.
\<close>

subsection \<open>One assistant at a time\<close>

datatype desk_op = Create nat nat | Destroy nat

fun desk_apply :: "desk_op \<Rightarrow> desk \<Rightarrow> desk" where
  "desk_apply (Create a q) d = create_assistant a q d"
| "desk_apply (Destroy a) d = destroy_assistant a d"

definition desk_ok :: "desk \<Rightarrow> bool" where
  "desk_ok d \<longleftrightarrow> (knownAssistants d = {} \<longleftrightarrow> timer d = None) \<and> timersAlive d = set_option (timer d) \<and>
     (\<forall>a \<in> knownAssistants d. connected d a = timer d)"

lemma desk_ok_apply: "desk_ok d \<Longrightarrow> desk_ok (desk_apply x d)"
  by (cases x)
    (auto simp: desk_ok_def create_assistant_def destroy_assistant_def fpsTimer_def read_timer_def insert_assistant_def
      make_timer_def connect_timer_def remove_assistant_def delete_timer_def Let_def split: option.splits if_splits)

text \<open>
  While assistants come and go one after the other there is a timer exactly while there is an
  assistant, it is the only timer in memory, and every assistant is connected to it.
\<close>

lemma assistants_share_timer:
  "let d = fold desk_apply ops new_desk in
   (knownAssistants d = {} \<longleftrightarrow> timer d = None) \<and> timersAlive d = set_option (timer d) \<and>
   (\<forall>a \<in> knownAssistants d. connected d a = timer d)"
proof -
  have "desk_ok d \<Longrightarrow> desk_ok (fold desk_apply ops d)" for d
    by (induction ops arbitrary: d) (simp_all add: desk_ok_apply)
  moreover have "desk_ok new_desk" by (simp add: desk_ok_def new_desk_def)
  ultimately show ?thesis by (simp add: Let_def desk_ok_def)
qed

lemma assistants_share_timer_witness:
  "connected (fold desk_apply [Create 1 20, Create 2 21, Destroy 1] new_desk) 2 = Some 20"
  using assistants_share_timer[of "[Create 1 20, Create 2 21, Destroy 1]"]
  by (simp add: create_assistant_def destroy_assistant_def fpsTimer_def read_timer_def insert_assistant_def
      make_timer_def connect_timer_def remove_assistant_def new_desk_def Let_def)

subsection \<open>Two threads\<close>

text \<open>
  C34. When the last assistant is destroyed by one thread while another creates one, the new assistant can
  end connected to the timer that the destructor deletes, with no timer left: it never sees a frame.
\<close>

theorem constructor_races_destructor:
  assumes "knownAssistants d = {a}" "timer d = Some t" "a \<noteq> b"
  shows "\<exists>d'. two_threads (Constructing b q, Destroying a, d) (Finished, Finished, d') \<and>
    knownAssistants d' = {b} \<and> connected d' b = Some t \<and> timer d' = None \<and> t \<notin> timersAlive d'"
proof -
  let ?s = "(Constructing b q, Destroying a, d)"
  define d1 where "d1 = snd (remove_assistant a d)"
  define d2 where "d2 = insert_assistant b d1"
  define d3 where "d3 = delete_timer d2"
  define d4 where "d4 = connect_timer b t d3"
  have "two_threads ?s (Constructing b q, LastOut True, d1)"
    by (rule two_threads.second[OF two_threads.stay thread_step.remove])
      (use assms in \<open>simp add: remove_assistant_def Let_def d1_def\<close>)
  then have "two_threads ?s (Inserted b q, LastOut True, d2)"
    unfolding d2_def by (rule two_threads.first[OF _ thread_step.insert])
  then have "two_threads ?s (TimerRead b q (Some t), LastOut True, d2)"
  proof (rule two_threads.first)
    have "read_timer d2 = Some t"
      using assms by (simp add: read_timer_def d2_def insert_assistant_def d1_def remove_assistant_def Let_def)
    then show "thread_step (Inserted b q, d2) (TimerRead b q (Some t), d2)" using thread_step.read by metis
  qed
  then have "two_threads ?s (TimerKnown b t, LastOut True, d2)"
    by (rule two_threads.first[OF _ thread_step.have_timer])
  then have "two_threads ?s (TimerKnown b t, Finished, d3)"
    unfolding d3_def by (rule two_threads.second[OF _ thread_step.delete])
  then have "two_threads ?s (Finished, Finished, d4)"
    unfolding d4_def by (rule two_threads.first[OF _ thread_step.connect])
  moreover have "knownAssistants d4 = {b}" "connected d4 b = Some t" "timer d4 = None" "t \<notin> timersAlive d4"
    using assms by (auto simp: d4_def d3_def d2_def d1_def remove_assistant_def insert_assistant_def connect_timer_def
        delete_timer_def Let_def)
  ultimately show ?thesis by blast
qed

theorem constructor_races_destructor_witness:
  "\<exists>d'. two_threads (Constructing 2 21, Destroying 1, create_assistant 1 20 new_desk) (Finished, Finished, d') \<and>
    connected d' 2 = Some 20 \<and> 20 \<notin> timersAlive d'"
proof -
  have "knownAssistants (create_assistant 1 20 new_desk) = {1}" "timer (create_assistant 1 20 new_desk) = Some 20"
    by (simp_all add: create_assistant_def fpsTimer_def read_timer_def insert_assistant_def make_timer_def
        connect_timer_def new_desk_def)
  then show ?thesis using constructor_races_destructor[of _ 1 20 2 21] by fastforce
qed

subsection \<open>Tags\<close>

lemma free_key_returns: "tasks (ucast (key + of_nat n)) = None \<Longrightarrow> \<exists>k. free_key tasks key = Some k"
proof (induction n arbitrary: key)
  case 0
  then show ?case by (simp add: free_key.simps)
next
  case (Suc n)
  then have "tasks (ucast (key + 1 + of_nat n)) = None" by (simp add: algebra_simps)
  then obtain k where "free_key tasks (key + 1) = Some k" using Suc.IH by blast
  then show ?case by (subst free_key.simps) simp
qed

lemma free_key_free: "free_key tasks key = Some k \<Longrightarrow> tasks (ucast k) = None"
proof (rule free_key.raw_induct[where P = "\<lambda>tasks key k. tasks (ucast k) = None"])
  fix f tasks key k
  assume IH: "\<And>tasks key k. f tasks key = Some k \<Longrightarrow> tasks (ucast k) = None"
    and eq: "(if tasks (ucast key) \<noteq> None then f tasks (key + 1) else Some key) = Some k"
  show "tasks (ucast k) = None"
    using eq IH by (cases "tasks (ucast key) = None") auto
qed

lemma ucast_reaches: "\<exists>n. ucast (key + of_nat n :: uint64) = (c :: uint32)"
proof -
  define w where "w = ucast c - key"
  have "(ucast (ucast c :: uint64) :: uint32) = c" by (rule bit_eqI) (simp add: bit_simps)
  then have "ucast (key + of_nat (unat w)) = c" by (simp add: w_def)
  then show ?thesis by blast
qed

text \<open>
  The search for a free code returns exactly when some 32-bit code is free, and then the tag is the
  number found and the task is registered under its low 32 bits, a code that no other task had.
\<close>

lemma tag_search_returns:
  "(getLoggingTag N t tasks = None \<longleftrightarrow> (\<forall>c. tasks c \<noteq> None)) \<and>
   (\<forall>tag tasks'. getLoggingTag N t tasks = Some (tag, tasks') \<longrightarrow>
     (\<exists>key. tasks (ucast key) = None \<and> tasks' = tasks(ucast key \<mapsto> t) \<and> tag = ''Task(0x'' @ setNum N key @ '')''))"
proof (cases "free_key tasks (qHash N t)")
  case None
  have "tasks c \<noteq> None" for c
    using None free_key_returns[of tasks "qHash N t"] ucast_reaches[of "qHash N t" c] by (metis option.distinct(1))
  then show ?thesis using None by (simp add: getLoggingTag_def)
next
  case (Some key)
  then show ?thesis using free_key_free[OF Some] by (auto simp: getLoggingTag_def)
qed

lemma find_upt:
  "i \<le> k \<Longrightarrow> k < n \<Longrightarrow> P k \<Longrightarrow> (\<And>j. i \<le> j \<Longrightarrow> j < k \<Longrightarrow> \<not> P j) \<Longrightarrow> find P [i..<n] = Some k"
  unfolding find_Some_iff by (rule exI[of _ "k - i"]) auto

lemma index_of_prefix:
  assumes "CHR ''T'' \<notin> set pre"
  shows "index_of taskPrefix (pre @ taskPrefix @ rest) = Some (length pre)"
  unfolding index_of_def
proof (rule find_upt)
  fix j assume j: "j < length pre"
  have "pre ! j \<noteq> CHR ''T''" using assms j nth_mem by metis
  then have "take (length taskPrefix) (drop j (pre @ taskPrefix @ rest)) ! 0 \<noteq> taskPrefix ! 0"
    using j by (simp add: taskPrefix_def nth_append)
  then show "take (length taskPrefix) (drop j (pre @ taskPrefix @ rest)) \<noteq> taskPrefix" by metis
qed simp_all

lemma char_from_first:
  assumes "c \<notin> set mid"
  shows "char_from c (length pre) (pre @ mid @ c # rest) = Some (length pre + length mid)"
  unfolding char_from_def
proof (rule find_upt)
  fix j assume j: "length pre \<le> j" "j < length pre + length mid"
  then have "(pre @ mid @ c # rest) ! j = mid ! (j - length pre)" by (auto simp: nth_append)
  moreover have "mid ! (j - length pre) \<in> set mid" using j by (intro nth_mem) auto
  ultimately show "(pre @ mid @ c # rest) ! j \<noteq> c" using assms by metis
qed (simp_all add: nth_append)

definition number_text_ok :: "task_env \<Rightarrow> bool" where
  "number_text_ok N \<longleftrightarrow> (\<forall>k. CHR '')'' \<notin> set (setNum N k) \<and>
     toUInt N (setNum N k) = (if unat k < 2 ^ 32 then Some (ucast k) else None))"

text \<open>
  A line that starts its tag with a number below 2^32 is given to its task once, with the tag and one
  space cut out, and the task is forgotten; a larger number, as hashes of pointers are, is not read back:
  the line is printed with its tag and belongs to no task.
\<close>

lemma tagged_line:
  assumes N: "number_text_ok N" and tag: "getLoggingTag N t tasks = Some (tag, tasks1)"
    and key: "free_key tasks (qHash N t) = Some key"
    and pre: "CHR ''T'' \<notin> set pre" and alive: "t \<in> alive"
  shows "if unat key < 2 ^ 32
    then task_line N alive (pre @ tag @ CHR '' '' # post) tasks1 = Inr (pre @ post, Some t, tasks)
    else tasks1 0 = None \<longrightarrow> task_line N alive (pre @ tag @ CHR '' '' # post) tasks1 =
      Inr (pre @ tag @ CHR '' '' # post, None, tasks1)"
proof -
  let ?num = "setNum N key"
  let ?line = "pre @ taskPrefix @ ?num @ CHR '')'' # CHR '' '' # post"
  have t: "tag = taskPrefix @ ?num @ '')''" "tasks1 = tasks(ucast key \<mapsto> t)" "tasks (ucast key) = None"
    using tag key free_key_free[OF key] by (auto simp: getLoggingTag_def taskPrefix_def)
  have line: "pre @ tag @ CHR '' '' # post = ?line" by (simp add: t(1))
  have num: "CHR '')'' \<notin> set (taskPrefix @ ?num)" "toUInt N ?num = (if unat key < 2 ^ 32 then Some (ucast key) else None)"
    using N by (simp_all add: number_text_ok_def taskPrefix_def)
  have pos: "index_of taskPrefix ?line = Some (length pre)" using index_of_prefix[OF pre] by simp
  have endp: "char_from (CHR '')'') (length pre) ?line = Some (length pre + length (taskPrefix @ ?num))"
    using char_from_first[OF num(1), of pre] by simp
  have cut: "take (length pre + length (taskPrefix @ ?num) - (length pre + length taskPrefix))
      (drop (length pre + length taskPrefix) ?line) = ?num" by simp
  have rest: "take (length pre) ?line @ drop (Suc (length pre + length (taskPrefix @ ?num))) ?line = pre @ CHR '' '' # post"
    by simp
  have removed: "remove_at (length pre) (pre @ CHR '' '' # post) = pre @ post" by (simp add: remove_at_def)
  have restored: "tasks1(ucast key := None) = tasks" using t(2,3) by auto
  show ?thesis
  proof (cases "unat key < 2 ^ 32")
    case True
    then have "task_line N alive ?line tasks1 = Inr (pre @ post, Some t, tasks1(ucast key := None))"
      unfolding task_line_def pos endp option.case Let_def cut num(2) rest by (simp add: t(2) removed alive)
    then show ?thesis using True unfolding line restored by simp
  next
    case False
    have "tasks1 0 = None \<Longrightarrow> task_line N alive ?line tasks1 = Inr (?line, None, tasks1)"
      unfolding task_line_def pos endp option.case Let_def cut num(2) using False by (simp add: fun_upd_idem)
    then show ?thesis using False unfolding line by simp
  qed
qed

text \<open>Numbers as tally marks.\<close>

definition tally_env :: "uint64 \<Rightarrow> task_env" where
  "tally_env h = \<lparr>qHash = (\<lambda>_. h), setNum = (\<lambda>k. replicate (unat k) (CHR ''1'')),
     toUInt = (\<lambda>s. if length s < 2 ^ 32 then Some (of_nat (length s)) else None)\<rparr>"

lemma tally_ok: "number_text_ok (tally_env h)"
  by (simp add: number_text_ok_def tally_env_def)

lemma tag_search_returns_witness:
  "\<exists>tag tasks'. getLoggingTag (tally_env 3) 70 ([3 \<mapsto> 50] :: known_tasks) = Some (tag, tasks') \<and> tasks' 3 = Some 50"
proof -
  have "getLoggingTag (tally_env 3) 70 [3 \<mapsto> 50] \<noteq> None"
    using tag_search_returns[of "tally_env 3" 70 "[3 \<mapsto> 50]"] by (auto intro: exI[of _ 4])
  then obtain tag tasks' where r: "getLoggingTag (tally_env 3) 70 [3 \<mapsto> 50] = Some (tag, tasks')" by auto
  then obtain key :: uint64 where "([3 \<mapsto> 50] :: known_tasks) (ucast key) = None" "tasks' = [3 \<mapsto> 50](ucast key \<mapsto> 70)"
    using tag_search_returns[of "tally_env 3" 70 "[3 \<mapsto> 50]"] by blast
  then show ?thesis using r by (auto split: if_splits)
qed

lemma tagged_line_witness:
  "task_line (tally_env 3) {70} ''see Task(0x111) now'' [3 \<mapsto> 70] = Inr (''see now'', Some 70, Map.empty) \<and>
   (\<exists>line. task_line (tally_env 0x100000003) {70} line [3 \<mapsto> 70] = Inr (line, None, [3 \<mapsto> 70]) \<and>
     (\<exists>n. length line = n + 2 ^ 32))"
proof
  have k: "free_key Map.empty (qHash (tally_env h) 70) = Some h" for h
    by (simp add: free_key.simps tally_env_def)
  have g: "getLoggingTag (tally_env h) 70 Map.empty =
      Some (''Task(0x'' @ replicate (unat h) (CHR ''1'') @ '')'', [ucast h \<mapsto> 70])" for h
    using k[of h] by (simp add: getLoggingTag_def tally_env_def)
  show "task_line (tally_env 3) {70} ''see Task(0x111) now'' [3 \<mapsto> 70] = Inr (''see now'', Some 70, Map.empty)"
  proof -
    have n: "unat (3 :: uint64) = 3" "(ucast (3 :: uint64) :: uint32) = 3" by simp_all
    have r: "replicate 3 (CHR ''1'') = ''111''" by (simp add: numeral_eq_Suc)
    show ?thesis
      using tagged_line[OF tally_ok g[of 3] k[of 3], where pre = "''see ''" and alive = "{70}" and post = "''now''"] unfolding n r by simp
  qed
  define big :: uint64 where "big = 0x100000003"
  have b: "unat big = 3 + 2 ^ 32" "(ucast big :: uint32) = 3" by (simp_all add: big_def)
  have "task_line (tally_env big) {70} ([] @ (''Task(0x'' @ replicate (unat big) (CHR ''1'') @ '')'') @ CHR '' '' # []) [3 \<mapsto> 70] =
    Inr ([] @ (''Task(0x'' @ replicate (unat big) (CHR ''1'') @ '')'') @ CHR '' '' # [], None, [3 \<mapsto> 70])"
    using tagged_line[OF tally_ok g[of big] k[of big], where pre = "[]" and alive = "{70}" and post = "[]"] unfolding b by simp
  moreover have "\<exists>n. length ([] @ (''Task(0x'' @ replicate (unat big) (CHR ''1'') @ '')'') @ CHR '' '' # []) = n + 2 ^ 32"
    unfolding length_append length_replicate b by (intro exI[of _ 12]) simp
  ultimately show "\<exists>line. task_line (tally_env 0x100000003) {70} line [3 \<mapsto> 70] = Inr (line, None, [3 \<mapsto> 70]) \<and>
     (\<exists>n. length line = n + 2 ^ 32)"
    unfolding big_def by blast
qed

end
