(* ===== verification/TlsSession.thy ===== *)
theory TlsSession
  imports KeyManager
begin

text \<open>
  The wallet of \<open>KeyManager\<close> (\<open>cpp/KeyManager.cpp\<close>, lines 566 to 606) and \<open>cpp/TlsPskSession.*\<close>, which
  takes the shared key of a TLS connection from it.  The wallet is the group \<open>wallet/keys\<close> of the
  settings: secrets by the text of their public key.  Elliptic curves are the parameter \<open>ec_env\<close>, the
  socket a log of what is asked of it.
\<close>

subsection \<open>The wallet\<close>

type_synonym wallet = "string \<rightharpoonup> bytes"

record ('key, 'point) ec_env =
  regenerate :: "bytes \<Rightarrow> fc_fault + 'key"
  secretOf :: "'key \<Rightarrow> bytes"
  publicText :: "'key \<Rightarrow> string"
  publicFrom :: "string \<Rightarrow> fc_fault + 'point"
  sharedSecret :: "'key \<Rightarrow> 'point \<Rightarrow> bytes"

text \<open>\<open>k\<close> is the key that \<open>generate\<close> returns.\<close>

definition createNewKey :: "('key, 'point) ec_env \<Rightarrow> 'key \<Rightarrow> wallet \<Rightarrow> string \<times> wallet" where
  "createNewKey E k w = (publicText E k, w(publicText E k \<mapsto> secretOf E k))"

definition hasPrivateKey :: "string \<Rightarrow> wallet \<Rightarrow> bool" where
  "hasPrivateKey publicKey w \<longleftrightarrow> w publicKey \<noteq> None"

definition sha256_of_bytes :: "bytes \<Rightarrow> fc_fault + bytes" where
  "sha256_of_bytes d = (if length d = 32 then Inr d else Inl SizeMismatch)"

text \<open>After the handler of an exception the function ends without a result.\<close>

datatype wallet_fault = NoResult | NoManager | Uninitialised

definition getSharedSecret :: "('key, 'point) ec_env \<Rightarrow> string \<Rightarrow> string \<Rightarrow> wallet \<Rightarrow> wallet_fault + bytes" where
  "getSharedSecret E foreignKey myKey w =
     (if \<not> hasPrivateKey myKey w then Inr []
      else case and_then (sha256_of_bytes (the (w myKey))) (\<lambda>h.
                and_then (regenerate E h) (\<lambda>key.
                and_then (publicFrom E foreignKey) (\<lambda>point.
                Inr (sharedSecret E key point)))) of
             Inl e \<Rightarrow> Inl NoResult
           | Inr s \<Rightarrow> Inr s)"

text \<open>The interface of the key manager: the new member and what \<open>blockchainChanged\<close> carries.\<close>

definition key_manager_setBlockchain :: "'b option \<Rightarrow> 'b option \<Rightarrow> 'b option \<times> 'b option list" where
  "key_manager_setBlockchain new m_blockchain =
     (if m_blockchain \<noteq> new then (new, [new]) else (m_blockchain, []))"

definition isPublicKey :: "('key, 'point) ec_env \<Rightarrow> string \<Rightarrow> bool" where
  "isPublicKey E maybeKey = (case publicFrom E maybeKey of Inl e \<Rightarrow> False | Inr p \<Rightarrow> True)"

subsection \<open>Sessions\<close>

datatype manager_pointer = Garbage | NullManager | ManagerAt nat

datatype socket_request =
    PeerVerifyNone
  | ConnectEncrypted string int
  | WriteText string
  | CloseSocket

datatype session_signal = KeyManagerChanged | LineReady | HandshakeCompleted | SessionEnded

text \<open>\<open>tsAuth\<close> holds what the lambda connected to the socket captured: the host key and our key.\<close>

record tls_session =
  tsManager :: manager_pointer
  tsAuth :: "(string \<times> string) option"
  tsRequests :: "socket_request list"
  tsSignals :: "session_signal list"

text \<open>The constructor does not initialise the pointer to the key manager.\<close>

definition new_session :: tls_session where
  "new_session = \<lparr>tsManager = Garbage, tsAuth = None, tsRequests = [], tsSignals = []\<rparr>"

definition ts_emit :: "session_signal \<Rightarrow> tls_session \<Rightarrow> tls_session" where
  "ts_emit x s = s\<lparr>tsSignals := tsSignals s @ [x]\<rparr>"

definition ts_request :: "socket_request \<Rightarrow> tls_session \<Rightarrow> tls_session" where
  "ts_request x s = s\<lparr>tsRequests := tsRequests s @ [x]\<rparr>"

definition setKeyManager :: "manager_pointer \<Rightarrow> tls_session \<Rightarrow> wallet_fault + tls_session" where
  "setKeyManager new s =
     (if tsManager s = Garbage then Inl Uninitialised
      else if tsManager s = new then Inr s
      else Inr (ts_emit KeyManagerChanged (s\<lparr>tsManager := new\<rparr>)))"

text \<open>\<open>hostPort\<close> is what \<open>QUrl::fromUserInput\<close> makes of the host.\<close>

definition connectToServer ::
  "(string \<Rightarrow> string \<times> int) \<Rightarrow> wallet \<Rightarrow> string \<Rightarrow> string \<Rightarrow> string \<Rightarrow> tls_session \<Rightarrow> wallet_fault + tls_session" where
  "connectToServer hostPort w host hostKey myKey s =
     (case tsManager s of
        Garbage \<Rightarrow> Inl Uninitialised
      | NullManager \<Rightarrow> Inr s
      | ManagerAt a \<Rightarrow>
          if \<not> hasPrivateKey myKey w then Inr s
          else let (h, p) = hostPort host;
                   s1 = ts_request (ConnectEncrypted h p) (ts_request PeerVerifyNone s)
               in Inr (s1\<lparr>tsAuth := Some (hostKey, myKey)\<rparr>))"

text \<open>
  \<open>preSharedKeyAuthenticationRequired\<close>: the identity and the key the authenticator gets.  The lambda is
  mutable: the hint it takes for \<open>hint\<close> stays.
\<close>

definition preSharedKey ::
  "('key, 'point) ec_env \<Rightarrow> wallet \<Rightarrow> string \<Rightarrow> tls_session
     \<Rightarrow> wallet_fault + (string \<times> bytes) option \<times> tls_session" where
  "preSharedKey E w identityHint s =
     (case tsAuth s of None \<Rightarrow> Inr (None, s) | Some (hostKey, myKey) \<Rightarrow>
        let hostKey' = (if hostKey = ''hint'' then identityHint else hostKey);
            s1 = s\<lparr>tsAuth := Some (hostKey', myKey)\<rparr>
        in case tsManager s1 of
             ManagerAt a \<Rightarrow> and_then (getSharedSecret E hostKey' myKey w) (\<lambda>key. Inr (Some (myKey, key), s1))
           | _ \<Rightarrow> Inl NoManager)"

definition closeConnection :: "tls_session \<Rightarrow> tls_session" where
  "closeConnection s = ts_request CloseSocket s"

definition sendMessage :: "string \<Rightarrow> tls_session \<Rightarrow> tls_session" where
  "sendMessage message s = ts_request (WriteText message) s"

text \<open>\<open>received\<close> is the line the socket has, if it has a whole one.\<close>

definition readLine :: "string option \<Rightarrow> string" where
  "readLine received = (case received of None \<Rightarrow> [] | Some line \<Rightarrow> line)"

definition dataReceived :: "bool \<Rightarrow> tls_session \<Rightarrow> tls_session" where
  "dataReceived canReadLine s = (if canReadLine then ts_emit LineReady s else s)"

definition socketStateDidChange :: "bool \<Rightarrow> tls_session \<Rightarrow> tls_session" where
  "socketStateDidChange unconnected s = (if unconnected then ts_emit SessionEnded s else s)"

definition socketEncrypted :: "tls_session \<Rightarrow> tls_session" where
  "socketEncrypted s = ts_emit HandshakeCompleted s"

end
