(* ===== verification/TlsProofs.thy ===== *)
theory TlsProofs
  imports TlsSession
begin

text \<open>The key two peers agree on, and what a session does before it has a key manager.\<close>

text \<open>
  The laws of elliptic curves the sessions rely on, for two keys: a key is regenerated from its secret,
  a public key is read back from its text, and the two products are the same.
\<close>

definition ec_laws :: "('key, 'point) ec_env \<Rightarrow> 'key \<Rightarrow> 'key \<Rightarrow> bool" where
  "ec_laws E k l \<longleftrightarrow> length (secretOf E k) = 32 \<and> length (secretOf E l) = 32 \<and>
     regenerate E (secretOf E k) = Inr k \<and> regenerate E (secretOf E l) = Inr l \<and>
     (\<exists>p q. publicFrom E (publicText E k) = Inr p \<and> publicFrom E (publicText E l) = Inr q \<and>
        sharedSecret E k q = sharedSecret E l p)"

lemma getSharedSecret_created:
  assumes "w (publicText E k) = Some (secretOf E k)" "length (secretOf E k) = 32" "regenerate E (secretOf E k) = Inr k"
    "publicFrom E foreignKey = Inr q"
  shows "getSharedSecret E foreignKey (publicText E k) w = Inr (sharedSecret E k q)"
  using assms by (simp add: getSharedSecret_def hasPrivateKey_def sha256_of_bytes_def)

text \<open>
  C35. Two peers that created a key each, and connect with the public key of the other (one of them may
  learn it as the identity hint), give their sockets the same pre-shared key.
\<close>

theorem peers_share_key:
  assumes "ec_laws E k l" "tsManager s = ManagerAt a" "tsManager s' = ManagerAt b"
    and "createNewKey E k w = (mine, w1)" "createNewKey E l w' = (yours, w1')"
    and "connectToServer hostPort w1 host ''hint'' mine s = Inr t"
    and "connectToServer hostPort' w1' host' mine yours s' = Inr t'" "mine \<noteq> ''hint''"
  shows "\<exists>key u u'. preSharedKey E w1 yours t = Inr (Some (mine, key), u) \<and>
    preSharedKey E w1' hint t' = Inr (Some (yours, key), u') \<and> tsAuth u = Some (yours, mine)"
proof -
  have keys: "mine = publicText E k" "w1 mine = Some (secretOf E k)" "yours = publicText E l" "w1' yours = Some (secretOf E l)"
    using assms(4,5) by (auto simp: createNewKey_def)
  obtain p q where pq: "publicFrom E mine = Inr p" "publicFrom E yours = Inr q" "sharedSecret E k q = sharedSecret E l p"
    using assms(1) by (auto simp: ec_laws_def keys(1,3))
  have t: "tsAuth t = Some (''hint'', mine)" "tsManager t = ManagerAt a"
    using assms(2,6) keys(2) by (auto simp: connectToServer_def hasPrivateKey_def ts_request_def split: prod.splits)
  have t': "tsAuth t' = Some (mine, yours)" "tsManager t' = ManagerAt b"
    using assms(3,7) keys(4) by (auto simp: connectToServer_def hasPrivateKey_def ts_request_def split: prod.splits)
  have "getSharedSecret E yours mine w1 = Inr (sharedSecret E k q)"
    using getSharedSecret_created[of w1 E k yours q] keys pq assms(1) by (simp add: ec_laws_def)
  moreover have "getSharedSecret E mine yours w1' = Inr (sharedSecret E k q)"
    using getSharedSecret_created[of w1' E l mine p] keys pq assms(1) by (simp add: ec_laws_def)
  ultimately show ?thesis
    using t t' assms(8) by (auto simp: preSharedKey_def Let_def)
qed

text \<open>Keys of the example: numbers below 256, whose product is shared.\<close>

definition toy_curve :: "(nat, nat) ec_env" where
  "toy_curve = \<lparr>regenerate = (\<lambda>d. Inr (unat (hd d))), secretOf = (\<lambda>k. of_nat k # replicate 31 0),
     publicText = (\<lambda>k. replicate k (CHR ''+'')), publicFrom = (\<lambda>s. Inr (length s)), sharedSecret = (\<lambda>k p. [of_nat (k * p)])\<rparr>"

theorem peers_share_key_witness:
  "\<exists>key t t' u u'. connectToServer (\<lambda>h. (h, 443)) [''+++'' \<mapsto> secretOf toy_curve 3] ''a'' ''hint'' ''+++'' (new_session\<lparr>tsManager := ManagerAt 1\<rparr>) = Inr t \<and>
    connectToServer (\<lambda>h. (h, 443)) [''++'' \<mapsto> secretOf toy_curve 2] ''b'' ''+++'' ''++'' (new_session\<lparr>tsManager := ManagerAt 2\<rparr>) = Inr t' \<and>
    preSharedKey toy_curve [''+++'' \<mapsto> secretOf toy_curve 3] ''++'' t = Inr (Some (''+++'', key), u) \<and>
    preSharedKey toy_curve [''++'' \<mapsto> secretOf toy_curve 2] [] t' = Inr (Some (''++'', key), u')"
proof -
  have texts: "publicText toy_curve 3 = ''+++''" "publicText toy_curve 2 = ''++''"
    by (simp_all add: toy_curve_def numeral_eq_Suc)
  have laws: "ec_laws toy_curve 3 2" by (simp add: ec_laws_def toy_curve_def)
  obtain t where t: "connectToServer (\<lambda>h. (h, 443)) [''+++'' \<mapsto> secretOf toy_curve 3] ''a'' ''hint'' ''+++'' (new_session\<lparr>tsManager := ManagerAt 1\<rparr>) = Inr t"
    by (simp add: connectToServer_def hasPrivateKey_def)
  obtain t' where t': "connectToServer (\<lambda>h. (h, 443)) [''++'' \<mapsto> secretOf toy_curve 2] ''b'' ''+++'' ''++'' (new_session\<lparr>tsManager := ManagerAt 2\<rparr>) = Inr t'"
    by (simp add: connectToServer_def hasPrivateKey_def)
  have new: "createNewKey toy_curve 3 Map.empty = (''+++'', [''+++'' \<mapsto> secretOf toy_curve 3])"
    "createNewKey toy_curve 2 Map.empty = (''++'', [''++'' \<mapsto> secretOf toy_curve 2])"
    by (simp_all add: createNewKey_def texts)
  show ?thesis
    using peers_share_key[OF laws _ _ new(1) new(2) t t', of 1 2 "[]"] t t' by auto
qed

text \<open>A secret of the wrong size, or a foreign key that cannot be read, makes the function end without a result.\<close>

lemma shared_secret_without_result:
  assumes "w myKey = Some secret" "length secret \<noteq> 32 \<or> publicFrom E foreignKey = Inl e"
  shows "getSharedSecret E foreignKey myKey w = Inl NoResult"
  using assms by (cases "regenerate E secret") (auto simp: getSharedSecret_def hasPrivateKey_def sha256_of_bytes_def split: sum.splits)

text \<open>Before its first key manager a session compares a pointer that was never set.\<close>

lemma new_session_compares_garbage:
  "setKeyManager p new_session = Inl Uninitialised"
  "connectToServer hostPort w host hostKey myKey new_session = Inl Uninitialised"
  by (simp_all add: setKeyManager_def connectToServer_def new_session_def)

end
