(* ===== verification/Spec2Isabelle.thy ===== *)
theory Spec2Isabelle
  imports ReplicaProperties ModelsFollow TableLock StuckLock ReflectedArgs FcJson TransactionJourney Polling Startup AssistantProofs TlsProofs Typelist
begin

text \<open>
  Verification library of the Pollaris GUI (\<open>cpp/\<close> and \<open>Qappa/\<close>).

  \<^bold>\<open>The program.\<close>  A Qt/QML client of a voting contract on an EOSIO chain.  The blockchain interface
  (\<open>BlockchainInterface\<close>) polls a node for its head block and for the contract's journal, and owns the
  tables.  A table (\<open>AbstractTable<Row>\<close>) is a sorted local copy of one table of the contract: it loads
  rows from the node, marks, adds and deletes rows as the journal says, lets the user draft edits, and
  recognises its own edits when they come back from the chain; models show it to QML.  The user's
  actions are collected in a \<open>MutableTransaction\<close>; the key manager turns them into the chain's binary
  format (\<open>SignableTransaction\<close>), signs and compresses them, and a \<open>BroadcastableTransaction\<close> follows the
  transaction from the node's reply until its block is settled.  \<open>Qappa\<close> creates the QML objects,
  \<open>Assistant\<close> and \<open>Task\<close> draw frames and collect log lines, and \<open>TlsPskSession\<close> opens TLS connections
  with keys of the wallet.

  \<^bold>\<open>How code is modelled.\<close>  A class is a record of its members, a member function a function from state
  to state (or to a result and a state), an enum a datatype.  What an object emits or asks of its
  surroundings (signals, hooks, requests to the node, requests to a socket) is a log in its state, in
  the order of the code; a reply or a signal from outside is an argument of the function the code
  connects to it.  Exceptions, assertions and reads out of range are the left side of a sum, a call
  that may not return is \<open>None\<close> of a \<open>partial_function\<close>.  Integers keep their width (\<open>uint32\<close>, \<open>uint64\<close>,
  bytes as 8-bit words); \<open>QString\<close> is a list of characters, \<open>QMap\<close> and \<open>QVariantMap\<close> a sorted association
  list, \<open>QJsonValue\<close> and \<open>QVariant\<close> the datatypes \<open>json\<close> and \<open>qvariant\<close>.

  \<^bold>\<open>Theories and sources.\<close>
  \<^item> \<open>Prelude\<close>: sequences with positions (\<open>QList::insert\<close>, \<open>removeAt\<close>, \<open>std::lower_bound\<close>), the sum
    monad, words as bit sequences.  \<open>KeyedLists\<close>: lists sorted by a key, and the map that a sorted list
    and a parallel list represent (\<open>kmap\<close>).  \<open>QtData\<close>: JSON, variants, the conversions of Qt as the
    record \<open>qt\<close>, \<open>cpp/Enums.hpp\<close>.
  \<^item> \<open>Typelist\<close>: \<open>cpp/Infrastructure/typelist.hpp\<close>, each metafunction with the list function it equals.
  \<^item> \<open>Strings\<close>: \<open>cpp/Strings.*\<close> and the texts of the requests.  \<open>EosioName\<close>: the packing of names in
    \<open>cpp/EosioName.hpp\<close> and its copy in \<open>cpp/KeyManager.cpp\<close>, as numbers in base 32.
  \<^item> \<open>TableSupport\<close>: \<open>cpp/TableSupport.hpp\<close> and \<open>cpp/Infrastructure/reflectors.hpp\<close>.  \<open>TableState\<close>,
    \<open>TableModel\<close>, \<open>AbstractTable\<close>: \<open>cpp/AbstractTable.hpp\<close> and \<open>cpp/AbstractTableInterface.*\<close>.  \<open>Tables\<close>:
    the two row types of \<open>cpp/Tables.hpp\<close>.
  \<^item> \<open>Actions\<close>: \<open>cpp/Action.*\<close>, \<open>cpp/MutableTransaction.*\<close>, \<open>cpp/SignableTransaction.*\<close>.  \<open>Broadcast\<close>:
    \<open>cpp/BroadcastableTransaction.*\<close>.  \<open>Blockchain\<close>: \<open>cpp/BlockchainInterface.*\<close>.
  \<^item> \<open>FcRaw\<close>: the binary format of \<open>vendor/fc/include/fc/io/raw.hpp\<close>.  \<open>Contract\<close>, \<open>EosioTypes\<close>,
    \<open>KeyManager\<close>: the structs of the contract, the types of the chain, and preparing, signing, packing
    and decoding in \<open>cpp/KeyManager.cpp\<close>.  \<open>FcVariant\<close>: values, containers and reflected structs as JSON
    (\<open>vendor/fc/src/variant.cpp\<close>, \<open>vendor/fc/include/fc/variant.hpp\<close>, \<open>reflect/variant.hpp\<close>).  \<open>FcJson\<close>: texts in
    the printer and the parser of \<open>vendor/fc/src/io/json.cpp\<close>.  \<open>ReflectedArgs\<close>: the argument structs as JSON,
    for \<open>cpp/KeyManager.cpp\<close>.  \<open>TlsSession\<close>: the wallet in the same file and \<open>cpp/TlsPskSession.*\<close>.
  \<^item> \<open>Components\<close>: \<open>Qappa/ComponentManager.*\<close> and \<open>Qappa/UXManager.*\<close>.  \<open>Assistants\<close>: \<open>cpp/Assistant.*\<close>,
    \<open>cpp/Task.*\<close> and \<open>cpp/FpsTimer.hpp\<close>.  \<open>Startup\<close>: \<open>main.cpp\<close> and \<open>Qappa/Plugin.cpp\<close>.

  \<^bold>\<open>What the lemmas show.\<close>
  \<^item> \<open>TableProofs\<close>, \<open>TableMerge\<close>, \<open>TableEdits\<close>, \<open>TableReset\<close>: every operation on the map from ids to rows
    and load states (\<open>table_view\<close>) and on the map of the backups; \<open>TableMachine\<close> closes them over all
    sequences of operations (\<open>table_ok\<close>), \<open>TablePhase\<close> adds the life cycle of edits (\<open>phase_ok\<close>),
    \<open>TableScope\<close> the scope, \<open>TableLock\<close> the lock that a reset leaves behind, \<open>TableProperties\<close> states the
    properties.  \<open>EditJourney\<close> follows an edit from its draft to the answer of the node, \<open>StuckLock\<close> shows which
    deletions leave the table locked.  \<open>ModelsFollow\<close>: the models show the rows of their table.
  \<^item> \<open>TableRequests\<close>, \<open>Replica\<close>, \<open>ReplicaProperties\<close>: a table, the node and the messages between them as
    one asynchronous machine.  The table is a copy of the node's rows as long as no journal entry
    overtakes an answer; without that it can stay wrong for good.
  \<^item> \<open>ActionProofs\<close>: the actions of a transaction that QML did not make or write itself were checked.  \<open>BroadcastProofs\<close>: the states of a
    broadcast transaction as an invariant of a step relation.  \<open>ChainMachine\<close>, \<open>ChainProperties\<close>: the
    interface with all its tables as one machine, the registry of tables, the journal, the status.
    \<open>Polling\<close>: when the timer runs, what QML is told, what goes on after disconnecting.
  \<^item> \<open>KeyProofs\<close>, \<open>SigningProofs\<close>: the formats are read back, signatures bind what they sign, bounds
    and wrap-around of the prepared fields.  \<open>ReflectedArgs\<close>: the arguments that pass the check of
    \<open>cpp/Action.hpp\<close> are exactly the members the key manager needs, an action that is encoded and decoded
    comes back, what a decoded action shows can be encoded again, and unset options fail the check.
    \<open>FcJson\<close>: which texts fc reads back from its own JSON.  \<open>TransactionJourney\<close>: a transaction from its actions to
    its block.  \<open>TlsProofs\<close>: two peers agree on the key.
  \<^item> \<open>ComponentProofs\<close>, \<open>AssistantProofs\<close>: who is answered when objects are created, the shared timer
    with two threads, the tags of log lines.  \<open>Startup\<close>: what is in place before the interface is created.

  \<^bold>\<open>Interfaces.\<close>  \<open>codec\<close> (\<open>FcRaw\<close>): what is packed is read back in front of any rest, interpreted on
  every format the key manager uses.  \<open>conversion\<close> (\<open>FcVariant\<close>): what is written as JSON is read back,
  interpreted on texts, names, numbers, times, tags and contestants, and carried through arrays, pairs, maps
  and structs.  \<open>reflected\<close> (\<open>TableSupport\<close>): the fields of a reflected struct are
  independent and determine it, interpreted on both row types.  \<open>backup_store\<close> (\<open>TableSupport\<close>): the
  store of unedited rows as a map, interpreted on \<open>BackupManager\<close>.  \<open>row_laws\<close> (\<open>TableEdits\<close>): what a table
  requires of a row type, interpreted on both row types.

  \<^bold>\<open>Parameters.\<close>  Code that is not modelled is an argument: Qt's conversions (\<open>qt\<close>), hashing, signing,
  compression and the JSON of whole transactions (\<open>fc_env\<close>), the text of a JSON object between fc and Qt and
  boost's digits and dates (\<open>fc_values\<close>; \<open>args_json\<close>, the conversion of arguments, is \<open>reflected_args\<close> of it),
  elliptic curves (\<open>ec_env\<close>), the hash of pointers and the printing of numbers (\<open>task_env\<close>), when an incubator
  of QML finishes, what a node answers, the clock.  Laws about them are hypotheses of the theorems that need
  them.  Those about JSON texts speak only of the object at hand (\<open>reads_back\<close>, \<open>prints_back\<close>, \<open>json_keeps\<close>):
  they fail for some texts, as \<open>FcJson\<close> shows, and a theorem says nothing of an object that does not come
  back.  Each theorem has a witness on concrete functions.

  \<^bold>\<open>Bounds and termination.\<close>  Loops over lists are structural.  The loop of \<open>resetEdits\<close> ends because it
  shrinks the backups or moves its position on.  The copying loop of \<open>draftEditRow\<close> and the search for a
  free code are \<open>partial_function (option)\<close>, and theorems say exactly when they return.  The
  search of \<open>std::lower_bound\<close> halves its interval, packing a variable-length integer shifts it by seven
  bits, and reading one stops when its position passes 32.  No fuel is used.

  \<^bold>\<open>Not modelled.\<close>  The event loop of Qt, the property macro of \<open>cpp/Dnmx.hpp\<close>, QML and JavaScript, the
  vendored library apart from the formats, values and texts above, the painting of the logo in
  \<open>cpp/Assistant.cpp\<close> (floating-point geometry), log output and the printing of rows to it, HTTP headers,
  the ownership of objects shared with QML, the constructors of types that only fill in defaults of Qt.
\<close>

end
